(* ===== verification/Prelude.thy ===== *)
theory Prelude
  imports Main "HOL-Library.Word"
begin

text \<open>
  Shared vocabulary of the development: Go errors and panics as values, the parts of the
  standard packages \<open>errors\<close>, \<open>strings\<close> and \<open>sync\<close> the sources use, fixed-width integers,
  and the generic lemmas on lists, maps and words the component theories rely on.
  Go strings are byte strings, so \<open>string\<close> (a list of 8-bit characters) is used as it is.
\<close>

section \<open>Errors and panics\<close>

text \<open>
  An \<open>error\<close> value: \<open>Err\<close> is \<open>errors.New\<close> or \<open>fmt.Errorf\<close> without \<open>%w\<close>, \<open>Wrap\<close> is
  \<open>fmt.Errorf\<close> with one \<open>%w\<close>, \<open>Joined\<close> the same with several. The remaining constructors
  are the sentinel errors that the code compares against or exports. The text kept in an error
  is its constant part; formatted arguments are left out.
\<close>

datatype goerr =
    Err string
  | Wrap string goerr
  | Joined string "goerr list"
  | ErrRequestQueueFull
  | DeadlineExceeded
  | Canceled
  | ErrTimeoutDialing
  | ErrNoResolverPodFound
  | ErrNoScaleTargetFound
  | ErrNoPublicServiceFound
  | ErrInvalidAPIVersion
  | ErrServerClosed
  | NotFound

fun errors_Is :: "goerr \<Rightarrow> goerr \<Rightarrow> bool" where
  "errors_Is (Wrap m e) t = (Wrap m e = t \<or> errors_Is e t)"
| "errors_Is (Joined m es) t = (Joined m es = t \<or> list_ex (\<lambda>e. errors_Is e t) es)"
| "errors_Is e t = (e = t)"

type_synonym 'a result = "goerr + 'a"

text \<open>A computation that may panic: \<open>Ret\<close> is a normal return.\<close>

datatype 'a go = Ret 'a | Panic string

section \<open>Package strings\<close>

definition HasPrefix :: "string \<Rightarrow> string \<Rightarrow> bool" where
  "HasPrefix s p = (length p \<le> length s \<and> take (length p) s = p)"

definition HasSuffix :: "string \<Rightarrow> string \<Rightarrow> bool" where
  "HasSuffix s p = (length p \<le> length s \<and> drop (length s - length p) s = p)"

definition TrimPrefix :: "string \<Rightarrow> string \<Rightarrow> string" where
  "TrimPrefix s p = (if HasPrefix s p then drop (length p) s else s)"

definition TrimSuffix :: "string \<Rightarrow> string \<Rightarrow> string" where
  "TrimSuffix s p = (if HasSuffix s p then take (length s - length p) s else s)"

text \<open>\<open>strings.Index\<close>, \<open>strings.Split\<close> for a one-byte separator, and \<open>strings.Join\<close>.\<close>

fun Index_from :: "nat \<Rightarrow> string \<Rightarrow> char \<Rightarrow> int" where
  "Index_from n [] c = -1"
| "Index_from n (x # xs) c = (if x = c then int n else Index_from (Suc n) xs c)"

definition Index :: "string \<Rightarrow> char \<Rightarrow> int" where
  "Index s c = Index_from 0 s c"

fun Split :: "string \<Rightarrow> char \<Rightarrow> string list" where
  "Split [] c = [[]]"
| "Split (x # xs) c =
     (if x = c then [] # Split xs c
      else (case Split xs c of [] \<Rightarrow> [[x]] | p # ps \<Rightarrow> (x # p) # ps))"

fun Join :: "string list \<Rightarrow> string \<Rightarrow> string" where
  "Join [] sep = []"
| "Join [p] sep = p"
| "Join (p # q # ps) sep = p @ sep @ Join (q # ps) sep"

text \<open>\<open>strings.ToLower\<close> on ASCII text, the only text Kubernetes names and kinds may hold.\<close>

definition lower_char :: "char \<Rightarrow> char" where
  "lower_char c =
     (let n = (of_char c :: nat) in if 65 \<le> n \<and> n \<le> 90 then char_of (n + 32) else c)"

definition ToLower :: "string \<Rightarrow> string" where
  "ToLower s = map lower_char s"

section \<open>Fixed-width integers\<close>

type_synonym u64 = "64 word"

text \<open>The value an \<open>int64\<close> variable holds after an operation whose exact result is \<open>x\<close>.\<close>

definition wrap64 :: "int \<Rightarrow> int" where
  "wrap64 x = (x + 2 ^ 63) mod 2 ^ 64 - 2 ^ 63"

definition wrap32 :: "int \<Rightarrow> int" where
  "wrap32 x = (x + 2 ^ 31) mod 2 ^ 32 - 2 ^ 31"

section \<open>Lemmas\<close>

named_theorems go_string \<open>characterisations of the string functions\<close>
named_theorems go_width \<open>wrap-around is the identity inside the range\<close>

lemma wrap64_id [go_width]: "- (2 ^ 63) \<le> x \<Longrightarrow> x < 2 ^ 63 \<Longrightarrow> wrap64 x = x"
  by (simp add: wrap64_def)

lemma wrap64_range: "- (2 ^ 63) \<le> wrap64 x \<and> wrap64 x < 2 ^ 63"
  by (simp add: wrap64_def)

lemma wrap32_id [go_width]: "- (2 ^ 31) \<le> x \<Longrightarrow> x < 2 ^ 31 \<Longrightarrow> wrap32 x = x"
  by (simp add: wrap32_def)

lemma wrap64_wrap64_diff: "wrap64 (wrap64 (x + 1) - 1) = wrap64 x"
proof -
  have "(wrap64 (x + 1) - 1 + 2 ^ 63) mod 2 ^ 64 = (x + 2 ^ 63) mod (2 ^ 64 :: int)"
    unfolding wrap64_def by (simp add: mod_simps algebra_simps)
  then show ?thesis by (simp add: wrap64_def)
qed

lemma HasPrefix_iff [go_string]: "HasPrefix s p \<longleftrightarrow> (\<exists>r. s = p @ r)"
  unfolding HasPrefix_def by (metis append_eq_conv_conj append_take_drop_id le_add1 length_append)

lemma HasPrefix_append [simp]: "HasPrefix (p @ r) p"
  by (auto simp: HasPrefix_iff)

lemma HasSuffix_iff [go_string]: "HasSuffix s p \<longleftrightarrow> (\<exists>r. s = r @ p)"
proof
  assume "HasSuffix s p"
  then have "s = take (length s - length p) s @ p"
    unfolding HasSuffix_def by (metis append_take_drop_id)
  then show "\<exists>r. s = r @ p" ..
qed (auto simp: HasSuffix_def)

lemma HasSuffix_append [simp]: "HasSuffix (r @ p) p"
  by (auto simp: HasSuffix_iff)

lemma TrimSuffix_append [simp]: "TrimSuffix (r @ p) p = r"
  by (auto simp: TrimSuffix_def HasSuffix_def)

lemma Index_from_absent: "c \<notin> set s \<Longrightarrow> Index_from n s c = -1"
  by (induction s arbitrary: n) auto

lemma Index_from_append: "c \<notin> set a \<Longrightarrow> Index_from n (a @ c # b) c = int (n + length a)"
  by (induction a arbitrary: n) auto

lemma Index_absent [go_string]: "c \<notin> set s \<Longrightarrow> Index s c = -1"
  by (simp add: Index_def Index_from_absent)

lemma Index_append [go_string]: "c \<notin> set a \<Longrightarrow> Index (a @ c # b) c = int (length a)"
  by (simp add: Index_def Index_from_append)

lemma Split_not_Nil [simp]: "Split s c \<noteq> []"
  by (induction s) (auto split: list.splits)

lemma Split_absent [go_string]: "c \<notin> set s \<Longrightarrow> Split s c = [s]"
  by (induction s) auto

lemma Split_append [go_string]: "c \<notin> set a \<Longrightarrow> Split (a @ c # b) c = a # Split b c"
  by (induction a) auto

lemma length_Split: "length (Split s c) = Suc (count_list s c)"
  by (induction s) (auto split: list.splits)

lemma Split_parts_free: "p \<in> set (Split s c) \<Longrightarrow> c \<notin> set p"
proof (induction s arbitrary: p)
  case Nil
  then show ?case by simp
next
  case (Cons x xs)
  obtain q qs where q: "Split xs c = q # qs" by (cases "Split xs c") auto
  then show ?case using Cons by (auto split: if_splits)
qed

lemma Join_Cons [go_string]: "ps \<noteq> [] \<Longrightarrow> Join (p # ps) sep = p @ sep @ Join ps sep"
  by (cases ps) auto

lemma Join_Split: "Join (Split s c) [c] = s"
proof (induction s)
  case Nil
  then show ?case by simp
next
  case (Cons x xs)
  obtain q qs where q: "Split xs c = q # qs" by (cases "Split xs c") auto
  with Cons show ?case by (cases qs) auto
qed

lemma Split_Join:
  "ps \<noteq> [] \<Longrightarrow> (\<And>p. p \<in> set ps \<Longrightarrow> c \<notin> set p) \<Longrightarrow> Split (Join ps [c]) c = ps"
proof (induction ps)
  case Nil
  then show ?case by simp
next
  case (Cons p ps)
  then show ?case by (cases ps) (auto simp: go_string)
qed

lemma lower_char_idem [simp]: "lower_char (lower_char c) = lower_char c"
proof (cases "65 \<le> (of_char c :: nat) \<and> (of_char c :: nat) \<le> 90")
  case True
  then have "(of_char c :: nat) + 32 < 256" by simp
  then have "(of_char (lower_char c) :: nat) = of_char c + 32"
    using True by (simp add: lower_char_def)
  then show ?thesis using True by (simp add: lower_char_def)
qed (auto simp: lower_char_def)

lemma ToLower_idem [simp]: "ToLower (ToLower s) = ToLower s"
  by (simp add: ToLower_def)

lemma length_ToLower [simp]: "length (ToLower s) = length s"
  by (simp add: ToLower_def)

lemma append_sep_inject:
  fixes a :: string
  assumes "a @ c # b = a' @ c # b'" "c \<notin> set a" "c \<notin> set a'"
  shows "a = a' \<and> b = b'"
proof -
  from assms(1) have "Split (a @ c # b) c = Split (a' @ c # b') c" by simp
  with assms(2,3) have "a = a'" by (simp add: Split_append)
  with assms(1) show ?thesis by simp
qed

lemma distinct_filter_keys:
  assumes "distinct (map f xs)"
  shows "k \<in> f ` set (filter (\<lambda>x. \<not> P x) xs) \<longleftrightarrow> k \<in> f ` set xs \<and> k \<notin> f ` set (filter P xs)"
  using assms by (induction xs) (auto simp: image_iff)

lemma distinct_snd_unique:
  "distinct (map snd xs) \<Longrightarrow> (a, k) \<in> set xs \<Longrightarrow> (b, k) \<in> set xs \<Longrightarrow> a = b"
  by (induction xs) (force simp: image_iff)+

end
