(* ===== verification/Sha256.thy ===== *)
theory Sha256
  imports Prelude
begin

text \<open>
  The digest the naming scheme of \<open>pkg/utils\<close> uses: \<open>crypto/sha256\<close> and
  \<open>encoding/hex.EncodeToString\<close> of the Go standard library, written from FIPS 180-4 on 32-bit
  words. The lemmas give the only facts the rest of the development needs: a digest is 32 bytes
  and its hexadecimal form 64 characters out of \<open>0-9a-f\<close>.
\<close>

unbundle bit_operations_syntax

type_synonym u32 = "32 word"

definition rotr32 :: "nat \<Rightarrow> u32 \<Rightarrow> u32" where
  "rotr32 n x = (drop_bit n x OR push_bit (32 - n) x)"

text \<open>
  The constants of the standard, computed from their definition: the first 32 bits of the
  fractional part of the cube roots of the first 64 primes, and of the square roots of the first 8.
  \<open>root_floor k b n\<close> is the greatest number below \<open>2 ^ b\<close> whose \<open>k\<close>-th power is at most \<open>n\<close>,
  found bit by bit.
\<close>

fun root_search :: "nat \<Rightarrow> nat \<Rightarrow> nat \<Rightarrow> nat \<Rightarrow> nat" where
  "root_search k 0 n r = r"
| "root_search k (Suc b) n r =
     root_search k b n (if (r + 2 ^ b) ^ k \<le> n then r + 2 ^ b else r)"

definition root_floor :: "nat \<Rightarrow> nat \<Rightarrow> nat \<Rightarrow> nat" where
  "root_floor k b n = root_search k b n 0"

definition small_primes :: "nat list" where
  "small_primes = filter (\<lambda>p. list_all (\<lambda>d. p mod d \<noteq> 0) [2..<p]) [2..<312]"

definition sha_K :: "u32 list" where
  "sha_K = map (\<lambda>p. of_nat (root_floor 3 35 (p * 2 ^ 96))) small_primes"

definition sha_H0 :: "u32 list" where
  "sha_H0 = map (\<lambda>p. of_nat (root_floor 2 37 (p * 2 ^ 64))) (take 8 small_primes)"

text \<open>Big-endian words, and the padding of a message of \<open>n\<close> bytes to a multiple of 64.\<close>

fun be32 :: "nat list \<Rightarrow> u32 list" where
  "be32 (a # b # c # d # bs) = of_nat (((a * 256 + b) * 256 + c) * 256 + d) # be32 bs"
| "be32 _ = []"

definition sha_pad :: "nat list \<Rightarrow> nat list" where
  "sha_pad m =
     (let n = length m; z = (119 - n mod 64) mod 64
      in m @ [128] @ replicate z 0 @ map (\<lambda>i. (8 * n div 256 ^ (7 - i)) mod 256) [0..<8])"

definition ssig0 :: "u32 \<Rightarrow> u32" where
  "ssig0 x = rotr32 7 x XOR rotr32 18 x XOR drop_bit 3 x"

definition ssig1 :: "u32 \<Rightarrow> u32" where
  "ssig1 x = rotr32 17 x XOR rotr32 19 x XOR drop_bit 10 x"

definition bsig0 :: "u32 \<Rightarrow> u32" where
  "bsig0 x = rotr32 2 x XOR rotr32 13 x XOR rotr32 22 x"

definition bsig1 :: "u32 \<Rightarrow> u32" where
  "bsig1 x = rotr32 6 x XOR rotr32 11 x XOR rotr32 25 x"

text \<open>The message schedule, as a window of the last sixteen words.\<close>

fun sha_sched :: "nat \<Rightarrow> u32 list \<Rightarrow> u32 list" where
  "sha_sched 0 w = []"
| "sha_sched (Suc n) w =
     hd w # sha_sched n (tl w @ [ssig1 (w ! 14) + w ! 9 + ssig0 (w ! 1) + w ! 0])"

fun sha_round :: "u32 list \<Rightarrow> u32 \<Rightarrow> u32 \<Rightarrow> u32 list" where
  "sha_round [a, b, c, d, e, f, g, h] k w =
     (let t1 = h + bsig1 e + ((e AND f) XOR (NOT e AND g)) + k + w;
          t2 = bsig0 a + ((a AND b) XOR (a AND c) XOR (b AND c))
      in [t1 + t2, a, b, c, d + t1, e, f, g])"
| "sha_round v k w = v"

definition sha_block :: "u32 list \<Rightarrow> u32 list \<Rightarrow> u32 list" where
  "sha_block h blk =
     map2 (+) h (foldl (\<lambda>v (k, w). sha_round v k w) h (zip sha_K (sha_sched 64 blk)))"

function sha_blocks :: "u32 list \<Rightarrow> u32 list \<Rightarrow> u32 list" where
  "sha_blocks h ws =
     (if length ws < 16 then h else sha_blocks (sha_block h (take 16 ws)) (drop 16 ws))"
  by pat_completeness auto
termination
  by (relation "measure (\<lambda>(h, ws). length ws)") auto

declare sha_blocks.simps [simp del]

definition word_bytes :: "u32 \<Rightarrow> nat list" where
  "word_bytes w =
     (let n = unat w
      in [n div 256 ^ 3 mod 256, n div 256 ^ 2 mod 256, n div 256 mod 256, n mod 256])"

definition sha256 :: "string \<Rightarrow> nat list" where
  "sha256 s = concat (map word_bytes (sha_blocks sha_H0 (be32 (sha_pad (map of_char s)))))"

definition hex_digit :: "nat \<Rightarrow> char" where
  "hex_digit n = ''0123456789abcdef'' ! (n mod 16)"

definition hex_EncodeToString :: "nat list \<Rightarrow> string" where
  "hex_EncodeToString bs = concat (map (\<lambda>b. [hex_digit (b div 16), hex_digit b]) bs)"

section \<open>Shape of a digest\<close>

lemma length_sha_round [simp]: "length (sha_round v k w) = length v"
  by (induction v k w rule: sha_round.induct) (auto simp: Let_def)

lemma length_sha_rounds: "length (foldl (\<lambda>v (k, w). sha_round v k w) h kws) = length h"
  by (induction kws arbitrary: h) (auto split: prod.splits)

lemma length_sha_block [simp]: "length (sha_block h blk) = length h"
  by (simp add: sha_block_def length_sha_rounds)

lemma length_sha_blocks [simp]: "length (sha_blocks h ws) = length h"
proof (induction h ws rule: sha_blocks.induct)
  case (1 h ws)
  then show ?case by (subst sha_blocks.simps) simp
qed

lemma length_word_bytes [simp]: "length (word_bytes w) = 4"
  by (simp add: word_bytes_def Let_def)

lemma length_concat_const: "(\<And>x. length (f x) = n) \<Longrightarrow> length (concat (map f xs)) = n * length xs"
  by (induction xs) auto

lemma length_sha_H0: "length sha_H0 = 8"
proof -
  have "[2..<312] = [2..<20] @ [20..<312::nat]"
    using upt_add_eq_append [of 2 20 292] by simp
  moreover have "length (filter (\<lambda>p. list_all (\<lambda>d. p mod d \<noteq> 0) [2..<p]) [2..<20::nat]) = 8"
    by code_simp
  ultimately have "8 \<le> length small_primes" by (simp only: small_primes_def filter_append length_append)
  then show ?thesis by (simp add: sha_H0_def)
qed

lemma length_sha256 [simp]: "length (sha256 s) = 32"
  by (simp add: sha256_def length_concat_const [where n = 4] length_sha_H0)

lemma length_hex_EncodeToString [simp]: "length (hex_EncodeToString bs) = 2 * length bs"
  by (simp add: hex_EncodeToString_def length_concat_const [where n = 2])

lemma hex_digit_alnum: "hex_digit n \<in> set ''0123456789abcdef''"
  unfolding hex_digit_def by (rule nth_mem) simp

lemma set_hex_EncodeToString: "set (hex_EncodeToString bs) \<subseteq> set ''0123456789abcdef''"
  using hex_digit_alnum by (auto simp: hex_EncodeToString_def)

end
