(* ===== verification/Regexp.thy ===== *)
theory Regexp
  imports Prelude
begin

text \<open>
  The part of Go's \<open>regexp\<close> package that \<open>extractNamespaceAndService\<close> uses: patterns that are
  sequences of literals, the capturing group \<open>([a-zA-Z0-9-]+)\<close> and \<open>\d+\<close>, searched without an
  anchor. \<open>FindStringSubmatch\<close> returns the leftmost match, and among the matches that start there
  the one a greedy backtracking search finds first; \<open>match_here\<close> is that search and
  \<open>FindStringSubmatch\<close> tries the start positions from left to right. Only the captured groups are
  returned (the code looks at nothing else).
\<close>

datatype item =
    Lit string   \<comment> \<open>literal text\<close>
  | Name         \<comment> \<open>\<open>([a-zA-Z0-9-]+)\<close>, captured\<close>
  | Digits       \<comment> \<open>\<open>\d+\<close>\<close>

type_synonym pattern = "item list"

definition digit_char :: "char \<Rightarrow> bool" where
  "digit_char c = (let n = (of_char c :: nat) in 48 \<le> n \<and> n \<le> 57)"

definition name_char :: "char \<Rightarrow> bool" where
  "name_char c =
     (let n = (of_char c :: nat)
      in 97 \<le> n \<and> n \<le> 122 \<or> 65 \<le> n \<and> n \<le> 90 \<or> 48 \<le> n \<and> n \<le> 57 \<or> n = 45)"

fun first_some :: "('a \<Rightarrow> 'b option) \<Rightarrow> 'a list \<Rightarrow> 'b option" where
  "first_some f [] = None"
| "first_some f (x # xs) = (case f x of None \<Rightarrow> first_some f xs | Some y \<Rightarrow> Some y)"

text \<open>The lengths a greedy \<open>+\<close> tries: the longest run first, down to one character.\<close>

definition run_lengths :: "(char \<Rightarrow> bool) \<Rightarrow> string \<Rightarrow> nat list" where
  "run_lengths P s = rev [1..<Suc (length (takeWhile P s))]"

primrec match_here :: "pattern \<Rightarrow> string \<Rightarrow> string list option" where
  "match_here [] = (\<lambda>s. Some [])"
| "match_here (it # its) = (\<lambda>s.
     case it of
       Lit l \<Rightarrow> if HasPrefix s l then match_here its (drop (length l) s) else None
     | Name \<Rightarrow>
         first_some (\<lambda>k. map_option (\<lambda>cs. take k s # cs) (match_here its (drop k s)))
           (run_lengths name_char s)
     | Digits \<Rightarrow> first_some (\<lambda>k. match_here its (drop k s)) (run_lengths digit_char s))"

fun FindStringSubmatch :: "pattern \<Rightarrow> string \<Rightarrow> string list option" where
  "FindStringSubmatch p [] = match_here p []"
| "FindStringSubmatch p (c # s) =
     (case match_here p (c # s) of None \<Rightarrow> FindStringSubmatch p s | Some cs \<Rightarrow> Some cs)"

section \<open>What a match is made of\<close>

fun item_ok :: "item \<Rightarrow> string \<Rightarrow> bool" where
  "item_ok (Lit l) w = (w = l)"
| "item_ok Name w = (w \<noteq> [] \<and> list_all name_char w)"
| "item_ok Digits w = (w \<noteq> [] \<and> list_all digit_char w)"

lemma first_some_Some: "first_some f xs = Some y \<Longrightarrow> \<exists>x \<in> set xs. f x = Some y"
  by (induction xs) (auto split: option.splits)

lemma first_some_hd: "xs \<noteq> [] \<Longrightarrow> f (hd xs) = Some y \<Longrightarrow> first_some f xs = Some y"
  by (cases xs) auto

lemma first_some_None: "first_some f xs = None \<longleftrightarrow> (\<forall>x \<in> set xs. f x = None)"
  by (induction xs) (auto split: option.splits)

lemma run_lengths_set:
  "k \<in> set (run_lengths P s) \<Longrightarrow> take k s \<noteq> [] \<and> list_all P (take k s)"
proof -
  assume "k \<in> set (run_lengths P s)"
  then have k: "0 < k" "k \<le> length (takeWhile P s)" by (auto simp: run_lengths_def)
  have "take k s = take k (takeWhile P s)"
    using k(2) by (metis append_eq_conv_conj take_append takeWhile_dropWhile_id diff_is_0_eq
        self_append_conv take0)
  then have "set (take k s) \<subseteq> set (takeWhile P s)" by (metis set_take_subset)
  then have "list_all P (take k s)" by (auto simp: list_all_iff dest: set_takeWhileD)
  moreover have "s \<noteq> []" using k by auto
  ultimately show ?thesis using k by simp
qed

lemma match_here_shape:
  "match_here p s = Some cs \<Longrightarrow> \<exists>ws rest. s = concat ws @ rest \<and> list_all2 item_ok p ws"
proof (induction p arbitrary: s cs)
  case Nil
  then show ?case by auto
next
  case (Cons it p)
  have "\<exists>w t cs'. s = w @ t \<and> item_ok it w \<and> match_here p t = Some cs'"
  proof (cases it)
    case (Lit l)
    with Cons.prems show ?thesis by (auto simp: HasPrefix_iff split: if_splits)
  next
    case Name
    with Cons.prems obtain k cs' where k: "k \<in> set (run_lengths name_char s)"
      "match_here p (drop k s) = Some cs'" by (auto dest!: first_some_Some)
    show ?thesis
      using Name run_lengths_set [OF k(1)] k(2)
      by (intro exI [of _ "take k s"] exI [of _ "drop k s"]) auto
  next
    case Digits
    with Cons.prems obtain k where k: "k \<in> set (run_lengths digit_char s)"
      "match_here p (drop k s) = Some cs" by (auto dest!: first_some_Some)
    show ?thesis
      using Digits run_lengths_set [OF k(1)] k(2)
      by (intro exI [of _ "take k s"] exI [of _ "drop k s"]) auto
  qed
  then obtain w t cs' where w: "s = w @ t" "item_ok it w" "match_here p t = Some cs'" by blast
  then obtain ws rest where "t = concat ws @ rest" "list_all2 item_ok p ws"
    using Cons.IH by blast
  with w have "s = concat (w # ws) @ rest" "list_all2 item_ok (it # p) (w # ws)" by auto
  then show ?case by blast
qed

lemma FindStringSubmatch_suffix:
  "FindStringSubmatch p s = Some cs \<Longrightarrow> \<exists>u t. s = u @ t \<and> match_here p t = Some cs"
proof (induction s)
  case Nil
  then show ?case by simp
next
  case (Cons c s)
  show ?case
  proof (cases "match_here p (c # s)")
    case None
    with Cons obtain u t where "s = u @ t" "match_here p t = Some cs" by auto
    then have "c # s = (c # u) @ t" "match_here p t = Some cs" by auto
    then show ?thesis by blast
  next
    case (Some a)
    with Cons.prems show ?thesis by (auto intro: exI [of _ "[]"])
  qed
qed

lemma FindStringSubmatch_shape:
  assumes "FindStringSubmatch p s = Some cs"
  shows "\<exists>u ws rest. s = u @ concat ws @ rest \<and> list_all2 item_ok p ws"
  using FindStringSubmatch_suffix [OF assms] match_here_shape by blast

lemma FindStringSubmatch_first: "match_here p s = Some cs \<Longrightarrow> FindStringSubmatch p s = Some cs"
  by (cases s) auto

lemma FindStringSubmatch_complete:
  "match_here p t \<noteq> None \<Longrightarrow> FindStringSubmatch p (u @ t) \<noteq> None"
proof (induction u)
  case Nil
  then show ?case by (cases "match_here p t") (auto dest: FindStringSubmatch_first)
next
  case (Cons c u)
  then show ?case by (auto split: option.splits)
qed

text \<open>A literal of the pattern occurs in the text, and its separators can be counted.\<close>

lemma shape_literal:
  "list_all2 item_ok p ws \<Longrightarrow> Lit l \<in> set p \<Longrightarrow> \<exists>u v. concat ws = u @ l @ v"
proof (induction p ws rule: list_all2_induct)
  case Nil
  then show ?case by simp
next
  case (Cons it p w ws)
  show ?case
  proof (cases "it = Lit l")
    case True
    with Cons.hyps(1) have "concat (w # ws) = [] @ l @ concat ws" by simp
    then show ?thesis by blast
  next
    case False
    with Cons.prems obtain u v where "concat ws = u @ l @ v" using Cons.IH by auto
    then have "concat (w # ws) = (w @ u) @ l @ v" by simp
    then show ?thesis by blast
  qed
qed

lemma literal_occurs:
  "FindStringSubmatch p s = Some cs \<Longrightarrow> Lit l \<in> set p \<Longrightarrow> \<exists>u v. s = u @ l @ v"
proof -
  assume "FindStringSubmatch p s = Some cs" and l: "Lit l \<in> set p"
  then obtain u ws rest where s: "s = u @ concat ws @ rest" "list_all2 item_ok p ws"
    using FindStringSubmatch_shape by blast
  then obtain a b where "concat ws = a @ l @ b" using shape_literal [OF s(2) l] by blast
  with s(1) have "s = (u @ a) @ l @ (b @ rest)" by simp
  then show ?thesis by blast
qed

lemma no_match_char:
  assumes "Lit l \<in> set p" "c \<in> set l" "c \<notin> set s"
  shows "FindStringSubmatch p s = None"
proof (rule ccontr)
  assume "FindStringSubmatch p s \<noteq> None"
  then obtain u v where "s = u @ l @ v" using literal_occurs assms(1) by blast
  with assms(2,3) show False by simp
qed

fun lit_count :: "char \<Rightarrow> pattern \<Rightarrow> nat" where
  "lit_count c [] = 0"
| "lit_count c (Lit l # p) = count_list l c + lit_count c p"
| "lit_count c (_ # p) = lit_count c p"

lemma shape_count: "list_all2 item_ok p ws \<Longrightarrow> lit_count c p \<le> count_list (concat ws) c"
proof (induction p ws rule: list_all2_induct)
  case Nil
  then show ?case by simp
next
  case (Cons it p w ws)
  then show ?case by (cases it) auto
qed

lemma no_match_count:
  assumes "count_list s c < lit_count c p"
  shows "FindStringSubmatch p s = None"
proof (rule ccontr)
  assume "FindStringSubmatch p s \<noteq> None"
  then obtain u ws rest where s: "s = u @ concat ws @ rest" "list_all2 item_ok p ws"
    using FindStringSubmatch_shape by blast
  from shape_count [OF s(2), of c] s(1) assms show False by simp
qed

section \<open>Matching at the start\<close>

lemma takeWhile_run:
  "list_all P w \<Longrightarrow> (r = [] \<or> \<not> P (hd r)) \<Longrightarrow> takeWhile P (w @ r) = w"
  by (induction w) (cases r, auto)

lemma run_lengths_hd:
  assumes "w \<noteq> []" "list_all P w" "r = [] \<or> \<not> P (hd r)"
  shows "run_lengths P (w @ r) \<noteq> []" "hd (run_lengths P (w @ r)) = length w"
  using takeWhile_run [OF assms(2,3)] assms(1) by (cases w; simp add: run_lengths_def)+

lemma match_here_Lit [simp]: "match_here (Lit l # p) (l @ r) = match_here p r"
  by simp

lemma match_here_Name:
  assumes "w \<noteq> []" "list_all name_char w" "r = [] \<or> \<not> name_char (hd r)" "match_here p r = Some cs"
  shows "match_here (Name # p) (w @ r) = Some (w # cs)"
  using run_lengths_hd [OF assms(1,2,3)] assms(4) by (auto intro!: first_some_hd)

lemma match_here_Digits:
  assumes "w \<noteq> []" "list_all digit_char w" "r = [] \<or> \<not> digit_char (hd r)" "match_here p r = Some cs"
  shows "match_here (Digits # p) (w @ r) = Some cs"
  using run_lengths_hd [OF assms(1,2,3)] assms(4) by (auto intro!: first_some_hd)

lemma name_char_simps [simp]:
  "\<not> name_char (CHR ''.'')" "\<not> name_char (CHR '':'')" "\<not> name_char (CHR ''/'')"
  "\<not> digit_char (CHR ''.'')" "\<not> digit_char (CHR '':'')" "\<not> digit_char (CHR ''/'')"
  by (simp_all add: name_char_def digit_char_def)

lemma name_free:
  assumes "list_all name_char w"
  shows "CHR ''.'' \<notin> set w" "CHR '':'' \<notin> set w" "CHR ''/'' \<notin> set w"
  using assms name_char_simps by (auto simp: list_all_iff)

lemma digits_free:
  assumes "list_all digit_char w"
  shows "CHR ''.'' \<notin> set w" "CHR '':'' \<notin> set w" "CHR ''/'' \<notin> set w"
  using assms name_char_simps by (auto simp: list_all_iff)

end
