(* ===== verification/HostManager.thy ===== *)
theory HostManager
  imports Utils Regexp
begin

text \<open>
  \<open>resolver/internal/hostmanager/hostManager.go\<close>: from the host name of an incoming request to the
  service it is meant for and the address of that service's private twin, with a cache of the
  hosts seen so far and the switch that turns traffic for a host off and on again.
  The state is the record \<open>HostManager\<close>; \<open>hm_timers\<close> are the pending \<open>time.AfterFunc\<close> calls with
  the time they are due. Times are explicit arguments. Metrics and log lines are left out.
  The locale \<open>host_manager\<close> is the Go interface of the same name in \<open>handler.go\<close> with the laws
  its client relies on.
\<close>

section \<open>Host names\<close>

definition addHTTPIfNeeded :: "string \<Rightarrow> string" where
  "addHTTPIfNeeded serviceURL =
     (if \<not> HasPrefix serviceURL ''http://'' \<and> \<not> HasPrefix serviceURL ''https://''
      then ''http://'' @ serviceURL else serviceURL)"

definition removeTrailingWildcardIfNeeded :: "string \<Rightarrow> string" where
  "removeTrailingWildcardIfNeeded serviceURL =
     (if HasSuffix serviceURL ''/*'' then TrimSuffix serviceURL ''/*'' else serviceURL)"

definition removeTrailingPathIfNeeded :: "string \<Rightarrow> string" where
  "removeTrailingPathIfNeeded serviceURL =
     (let idx = Index serviceURL (CHR ''/'')
      in if idx \<noteq> -1 then take (nat idx) serviceURL else serviceURL)"

definition replaceServiceName :: "string \<Rightarrow> string \<Rightarrow> string" where
  "replaceServiceName serviceURL newServiceName =
     (let parts = Split serviceURL (CHR ''.'')
      in if length parts < 3 then serviceURL else Join (parts[0 := newServiceName]) ''.'')"

text \<open>The sixteen patterns, in the order they are tried.\<close>

definition host_patterns :: "pattern list" where
  "host_patterns =
    [[Lit ''http://'', Name, Lit ''.'', Name, Lit ''.svc.cluster.local:'', Digits, Lit ''/*''],
     [Name, Lit ''.'', Name, Lit ''.svc.cluster.local:'', Digits, Lit ''/*''],
     [Lit ''http://'', Name, Lit ''.'', Name, Lit ''.svc.cluster.local:'', Digits],
     [Name, Lit ''.'', Name, Lit ''.svc.cluster.local:'', Digits],
     [Lit ''http://'', Name, Lit ''.'', Name, Lit ''.svc.cluster.local''],
     [Name, Lit ''.'', Name, Lit ''.svc.cluster.local''],
     [Lit ''http://'', Name, Lit ''.'', Name, Lit ''.svc''],
     [Name, Lit ''.'', Name, Lit ''.svc''],
     [Lit ''http://'', Name, Lit ''.'', Name],
     [Name, Lit ''.'', Name],
     [Lit ''http://'', Name, Lit ''.svc.cluster.local''],
     [Name, Lit ''.svc.cluster.local''],
     [Lit ''http://'', Name, Lit ''.svc''],
     [Name, Lit ''.svc''],
     [Lit ''http://'', Name],
     [Name]]"

fun try_patterns :: "pattern list \<Rightarrow> string \<Rightarrow> string \<times> string \<times> goerr option" where
  "try_patterns [] url = ('''', '''', Some (Err ''invalid Kubernetes URL''))"
| "try_patterns (pat # pats) url =
     (case FindStringSubmatch pat url of
        Some [serviceName, namespace] \<Rightarrow> (serviceName, namespace, None)
      | Some [serviceName] \<Rightarrow>
          (serviceName, ''default'', Some (Err ''namespace not found in URL''))
      | _ \<Rightarrow> try_patterns pats url)"

definition extractNamespaceAndService :: "string \<Rightarrow> string \<times> string \<times> goerr option" where
  "extractNamespaceAndService url = try_patterns host_patterns url"

section \<open>The host manager\<close>

record Request =
  Req_Host :: string
  Req_Header :: "string \<rightharpoonup> string list"
  Req_RequestURI :: string
  Req_URL :: string
  Req_ProtoMajor :: int

record HostManager =
  hosts :: "string \<rightharpoonup> Host"
  trafficReEnableDuration :: int
  headerForHost :: string
  hm_timers :: "(int \<times> string) list"

definition NewHostManager :: "int \<Rightarrow> string \<Rightarrow> HostManager" where
  "NewHostManager reEnable header =
     \<lparr>hosts = Map.empty, trafficReEnableDuration = reEnable, headerForHost = header,
      hm_timers = []\<rparr>"

definition emptyHost :: Host where
  "emptyHost = \<lparr>IncomingHost = '''', Namespace = '''', SourceService = '''',
     TargetService = '''', SourceHost = '''', TargetHost = '''', TrafficAllowed = False\<rparr>"

text \<open>\<open>values[0]\<close> panics when the header is present with no value.\<close>

definition incomingHost_of :: "HostManager \<Rightarrow> Request \<Rightarrow> string go" where
  "incomingHost_of hm req =
     (case Req_Header req (headerForHost hm) of
        None \<Rightarrow> Ret (Req_Host req)
      | Some [] \<Rightarrow> Panic ''index out of range''
      | Some (v # _) \<Rightarrow> Ret v)"

definition newHost :: "string \<Rightarrow> string \<Rightarrow> string \<Rightarrow> Host" where
  "newHost incomingHost sourceService namespace =
     (let targetService = GetPrivateServiceName sourceService;
          sourceHost = addHTTPIfNeeded
            (removeTrailingPathIfNeeded (removeTrailingWildcardIfNeeded incomingHost));
          targetHost = addHTTPIfNeeded (replaceServiceName sourceHost targetService)
      in \<lparr>IncomingHost = incomingHost, Namespace = namespace, SourceService = sourceService,
          TargetService = targetService, SourceHost = sourceHost, TargetHost = targetHost,
          TrafficAllowed = True\<rparr>)"

definition GetHost :: "HostManager \<Rightarrow> Request \<Rightarrow> (Host \<times> goerr option \<times> HostManager) go" where
  "GetHost hm req =
     (case incomingHost_of hm req of
        Panic m \<Rightarrow> Panic m
      | Ret incomingHost \<Rightarrow>
          (case hosts hm incomingHost of
             Some host \<Rightarrow> Ret (host, None, hm)
           | None \<Rightarrow>
               (case extractNamespaceAndService incomingHost of
                  (sourceService, namespace, Some err) \<Rightarrow> Ret (emptyHost, Some err, hm)
                | (sourceService, namespace, None) \<Rightarrow>
                    (let h = newHost incomingHost sourceService namespace
                     in Ret (h, None, hm\<lparr>hosts := (hosts hm)(incomingHost \<mapsto> h)\<rparr>)))))"

definition DisableTrafficForHost :: "int \<Rightarrow> HostManager \<Rightarrow> string \<Rightarrow> HostManager" where
  "DisableTrafficForHost now hm hostName =
     (case hosts hm hostName of
        None \<Rightarrow> hm
      | Some host \<Rightarrow>
          if TrafficAllowed host then
            hm\<lparr>hosts := (hosts hm)(hostName \<mapsto> host\<lparr>TrafficAllowed := False\<rparr>),
               hm_timers := hm_timers hm @ [(now + trafficReEnableDuration hm, hostName)]\<rparr>
          else hm)"

definition enableTrafficForHost :: "HostManager \<Rightarrow> string \<Rightarrow> HostManager" where
  "enableTrafficForHost hm hostName =
     (case hosts hm hostName of
        None \<Rightarrow> hm
      | Some host \<Rightarrow>
          if \<not> TrafficAllowed host then
            hm\<lparr>hosts := (hosts hm)(hostName \<mapsto> host\<lparr>TrafficAllowed := True\<rparr>)\<rparr>
          else hm)"

text \<open>Time passes until \<open>now\<close>: the timers that are due run \<open>enableTrafficForHost\<close>.\<close>

definition fire_timers :: "int \<Rightarrow> HostManager \<Rightarrow> HostManager" where
  "fire_timers now hm =
     fold (\<lambda>(due, h) m. enableTrafficForHost m h) (filter (\<lambda>(due, h). due \<le> now) (hm_timers hm))
       (hm\<lparr>hm_timers := filter (\<lambda>(due, h). \<not> due \<le> now) (hm_timers hm)\<rparr>)"

text \<open>
  What holds of every host manager: a host is cached under its own incoming name, and exactly the
  hosts whose traffic is off have a pending timer, one each, that will turn it on again.
\<close>

definition switched_off :: "HostManager \<Rightarrow> string \<Rightarrow> bool" where
  "switched_off hm k = (case hosts hm k of None \<Rightarrow> False | Some h \<Rightarrow> \<not> TrafficAllowed h)"

definition hm_inv :: "HostManager \<Rightarrow> bool" where
  "hm_inv hm =
     ((\<forall>k h. hosts hm k = Some h \<longrightarrow> IncomingHost h = k) \<and>
      distinct (map snd (hm_timers hm)) \<and>
      (\<forall>k. switched_off hm k \<longleftrightarrow> k \<in> snd ` set (hm_timers hm)))"

text \<open>The managers that arise from a new one by requests, switches and the passing of time.\<close>

inductive hm_reach :: "int \<Rightarrow> string \<Rightarrow> HostManager \<Rightarrow> bool" for d hdr where
  new: "hm_reach d hdr (NewHostManager d hdr)"
| get: "hm_reach d hdr hm \<Longrightarrow> GetHost hm req = Ret (h, e, hm') \<Longrightarrow> hm_reach d hdr hm'"
| disable: "hm_reach d hdr hm \<Longrightarrow> hm_reach d hdr (DisableTrafficForHost now hm k)"
| fire: "hm_reach d hdr hm \<Longrightarrow> hm_reach d hdr (fire_timers now hm)"

section \<open>Recognising a cluster-internal host name\<close>

text \<open>
  The names a cluster uses for a service: \<open>svc.ns.svc\<close>, \<open>svc.ns.svc.cluster.local\<close> and the
  latter with a port, followed by an optional path.
\<close>

definition valid_name :: "string \<Rightarrow> bool" where
  "valid_name w = (w \<noteq> [] \<and> list_all name_char w)"

definition port_suffix :: "string \<Rightarrow> bool" where
  "port_suffix sfx =
     (\<exists>port. port \<noteq> [] \<and> list_all digit_char port \<and> sfx = ''.svc.cluster.local:'' @ port)"

definition host_suffix :: "string \<Rightarrow> bool" where
  "host_suffix sfx =
     (sfx = ''.svc'' \<or> sfx = ''.svc.cluster.local'' \<or> port_suffix sfx)"

definition path_ok :: "string \<Rightarrow> bool" where
  "path_ok path =
     ((path = [] \<or> hd path = CHR ''/'') \<and> CHR ''.'' \<notin> set path \<and> CHR '':'' \<notin> set path)"

lemma valid_name_free:
  assumes "valid_name w"
  shows "CHR ''.'' \<notin> set w" "CHR '':'' \<notin> set w" "CHR ''/'' \<notin> set w"
  using assms name_free by (auto simp: valid_name_def)

lemma match_names:
  assumes "valid_name a" "valid_name b" "r = [] \<or> \<not> name_char (hd r)" "match_here q r = Some cs"
  shows "match_here (Name # Lit ''.'' # Name # q) (a @ ''.'' @ b @ r) = Some (a # b # cs)"
proof -
  have "match_here (Name # q) (b @ r) = Some (b # cs)"
    using assms by (intro match_here_Name) (auto simp: valid_name_def)
  then have "match_here (Lit ''.'' # Name # q) (''.'' @ b @ r) = Some (b # cs)"
    by (simp only: match_here_Lit)
  then show ?thesis
    using assms(1) by (intro match_here_Name) (auto simp: valid_name_def)
qed

lemmas FindStringSubmatch_names = match_names [THEN FindStringSubmatch_first]

lemma count_name_zero: "valid_name w \<Longrightarrow> count_list w (CHR ''.'') = 0"
  using valid_name_free(1) by (simp add: count_notin)

lemma try_patterns_find:
  "list_all (\<lambda>p. FindStringSubmatch p s = None) ps \<Longrightarrow> FindStringSubmatch q s = Some [a, b] \<Longrightarrow>
     try_patterns (ps @ q # qs) s = (a, b, None)"
  by (induction ps) auto

text \<open>Patterns with a given character in a literal, and the positions of the patterns used below.\<close>

definition needs :: "char \<Rightarrow> pattern \<Rightarrow> bool" where
  "needs c p = list_ex (\<lambda>it. case it of Lit l \<Rightarrow> c \<in> set l | _ \<Rightarrow> False) p"

lemma needs_no_match: "needs c p \<Longrightarrow> c \<notin> set s \<Longrightarrow> FindStringSubmatch p s = None"
proof -
  assume "needs c p" "c \<notin> set s"
  then obtain l where "Lit l \<in> set p" "c \<in> set l"
    by (auto simp: needs_def list_ex_iff split: item.splits) (metis item.exhaust)
  then show ?thesis using \<open>c \<notin> set s\<close> by (rule no_match_char)
qed

lemma extract_by:
  assumes "n < length host_patterns"
    and "\<And>i. i < n \<Longrightarrow> FindStringSubmatch (host_patterns ! i) s = None"
    and "FindStringSubmatch (host_patterns ! n) s = Some [a, b]"
  shows "extractNamespaceAndService s = (a, b, None)"
proof -
  have "list_all (\<lambda>p. FindStringSubmatch p s = None) (take n host_patterns)"
    using assms(1,2) by (auto simp: list_all_length)
  then have "try_patterns (take n host_patterns @ host_patterns ! n # drop (Suc n) host_patterns) s =
      (a, b, None)"
    using assms(3) by (rule try_patterns_find)
  with assms(1) show ?thesis by (simp add: extractNamespaceAndService_def id_take_nth_drop [symmetric])
qed

lemma host_patterns_nth:
  "host_patterns ! 0 = [Lit ''http://'', Name, Lit ''.'', Name, Lit ''.svc.cluster.local:'', Digits, Lit ''/*'']"
  "host_patterns ! 1 = [Name, Lit ''.'', Name, Lit ''.svc.cluster.local:'', Digits, Lit ''/*'']"
  "host_patterns ! 2 = [Lit ''http://'', Name, Lit ''.'', Name, Lit ''.svc.cluster.local:'', Digits]"
  "host_patterns ! 3 = [Name, Lit ''.'', Name, Lit ''.svc.cluster.local:'', Digits]"
  "host_patterns ! 4 = [Lit ''http://'', Name, Lit ''.'', Name, Lit ''.svc.cluster.local'']"
  "host_patterns ! 5 = [Name, Lit ''.'', Name, Lit ''.svc.cluster.local'']"
  "host_patterns ! 6 = [Lit ''http://'', Name, Lit ''.'', Name, Lit ''.svc'']"
  "host_patterns ! 7 = [Name, Lit ''.'', Name, Lit ''.svc'']"
  "length host_patterns = 16"
  by (simp_all add: host_patterns_def)

lemma colon_patterns:
  assumes "CHR '':'' \<notin> set s" "i < 5 \<or> i = 6"
  shows "FindStringSubmatch (host_patterns ! i) s = None"
proof -
  have "i \<in> {0, 1, 2, 3, 4, 6}" using assms(2) by auto
  then have "needs (CHR '':'') (host_patterns ! i)" by (auto simp: host_patterns_def needs_def)
  then show ?thesis using assms(1) by (rule needs_no_match)
qed

lemma extract_cluster_local:
  assumes "valid_name svc" "valid_name ns" "path_ok path"
  shows "extractNamespaceAndService (svc @ ''.'' @ ns @ ''.svc.cluster.local'' @ path) =
    (svc, ns, None)"
proof (rule extract_by [of 5])
  fix i :: nat
  assume "i < 5"
  then show "FindStringSubmatch (host_patterns ! i)
      (svc @ ''.'' @ ns @ ''.svc.cluster.local'' @ path) = None"
    using assms valid_name_free by (intro colon_patterns) (auto simp: path_ok_def)
next
  show "FindStringSubmatch (host_patterns ! 5)
      (svc @ ''.'' @ ns @ ''.svc.cluster.local'' @ path) = Some [svc, ns]"
    unfolding host_patterns_nth
    using assms by (intro FindStringSubmatch_names) (simp_all add: HasPrefix_def)
qed (simp add: host_patterns_nth)

lemma extract_svc:
  assumes "valid_name svc" "valid_name ns" "path_ok path"
  shows "extractNamespaceAndService (svc @ ''.'' @ ns @ ''.svc'' @ path) = (svc, ns, None)"
proof (rule extract_by [of 7])
  let ?s = "svc @ ''.'' @ ns @ ''.svc'' @ path"
  have colon: "CHR '':'' \<notin> set ?s" using assms valid_name_free by (auto simp: path_ok_def)
  have dots: "count_list ?s (CHR ''.'') = 2"
    using assms by (simp add: count_name_zero path_ok_def)
  fix i :: nat
  assume "i < 7"
  then consider "i < 5 \<or> i = 6" | "i = 5" by linarith
  then show "FindStringSubmatch (host_patterns ! i) ?s = None"
  proof cases
    case 1
    with colon show ?thesis by (rule colon_patterns)
  next
    case 2
    then show ?thesis using dots by (intro no_match_count [of _ "CHR ''.''"]) (simp add: host_patterns_nth)
  qed
next
  show "FindStringSubmatch (host_patterns ! 7) (svc @ ''.'' @ ns @ ''.svc'' @ path) = Some [svc, ns]"
    unfolding host_patterns_nth
    using assms by (intro FindStringSubmatch_names) (simp_all add: HasPrefix_def)
qed (simp add: host_patterns_nth)

text \<open>With a port, the only colon of the name is the one in front of the port.\<close>

lemma port_split:
  assumes names: "valid_name svc" "valid_name ns" "path_ok path" "list_all digit_char port"
    and eq: "svc @ ''.'' @ ns @ ''.svc.cluster.local:'' @ port @ path = u @ CHR '':'' # v"
  shows "port @ path = v"
proof -
  let ?a = "svc @ ''.'' @ ns @ ''.svc.cluster.local''"
  have a: "CHR '':'' \<notin> set ?a" using names valid_name_free by auto
  have "count_list (?a @ CHR '':'' # port @ path) (CHR '':'') = 1"
    using a names digits_free by (simp add: count_notin path_ok_def)
  moreover have eq': "?a @ CHR '':'' # (port @ path) = u @ CHR '':'' # v" using eq by simp
  ultimately have "count_list (u @ CHR '':'' # v) (CHR '':'') = 1" by (simp only:)
  then have "count_list u (CHR '':'') = 0" by simp
  then have "CHR '':'' \<notin> set u" by (simp add: count_list_0_iff)
  with append_sep_inject [OF eq' a] show ?thesis by blast
qed

lemma digits_prefix:
  assumes "list_all digit_char d" "list_all digit_char port" "path = [] \<or> hd path = CHR ''/''"
    and "port @ path = d @ CHR ''/'' # r"
  shows "port = d \<and> path = CHR ''/'' # r"
proof -
  have "takeWhile digit_char (port @ path) = port"
    using assms(2,3) by (intro takeWhile_run) auto
  moreover have "takeWhile digit_char (d @ CHR ''/'' # r) = d"
    using assms(1) by (intro takeWhile_run) auto
  ultimately show ?thesis using assms(4) by auto
qed

text \<open>A host with a port: it matches no pattern with a scheme, the second one only with a star after the port.\<close>

lemma port_no_scheme:
  assumes names: "valid_name svc" "valid_name ns" "path_ok path"
    and port: "port \<noteq> []" "list_all digit_char port"
    and l: "Lit ''http://'' \<in> set p"
  shows "FindStringSubmatch p (svc @ ''.'' @ ns @ ''.svc.cluster.local:'' @ port @ path) = None"
proof (rule ccontr)
  let ?s = "svc @ ''.'' @ ns @ ''.svc.cluster.local:'' @ port @ path"
  assume "FindStringSubmatch p ?s \<noteq> None"
  then obtain u v where "?s = u @ ''http://'' @ v" using literal_occurs [OF _ l] by blast
  then have "?s = (u @ ''http'') @ CHR '':'' # (''//'' @ v)" by simp
  from port_split [OF names port(2) this] port show False by (cases port) auto
qed

lemma port_star:
  assumes names: "valid_name svc" "valid_name ns" "path_ok path"
    and port: "port \<noteq> []" "list_all digit_char port"
    and m: "FindStringSubmatch (host_patterns ! 1) (svc @ ''.'' @ ns @ ''.svc.cluster.local:'' @ port @ path) \<noteq> None"
  shows "\<exists>r. path = ''/*'' @ r"
proof -
  let ?s = "svc @ ''.'' @ ns @ ''.svc.cluster.local:'' @ port @ path"
  have p: "path = [] \<or> hd path = CHR ''/''" using names(3) by (simp add: path_ok_def)
  from m obtain u ws rest where s: "?s = u @ concat ws @ rest"
    and ws: "list_all2 item_ok (host_patterns ! 1) ws" using FindStringSubmatch_shape by blast
  from ws obtain a b d where w: "ws = [a, ''.'', b, ''.svc.cluster.local:'', d, ''/*'']"
    and d: "list_all digit_char d"
    unfolding host_patterns_nth by (auto simp: list_all2_Cons1)
  have "?s = (u @ a @ ''.'' @ b @ ''.svc.cluster.local'') @ CHR '':'' # (d @ ''/*'' @ rest)"
    using s w by simp
  from port_split [OF names port(2) this] have "port @ path = d @ CHR ''/'' # (''*'' @ rest)" by simp
  from digits_prefix [OF d port(2) p this] show ?thesis by simp
qed

lemma port_hit:
  assumes names: "valid_name svc" "valid_name ns" "path_ok path"
    and port: "port \<noteq> []" "list_all digit_char port"
    and q: "match_here q path = Some []"
  shows "FindStringSubmatch ([Name, Lit ''.'', Name, Lit ''.svc.cluster.local:'', Digits] @ q)
    (svc @ ''.'' @ ns @ ''.svc.cluster.local:'' @ port @ path) = Some [svc, ns]"
proof -
  let ?s = "svc @ ''.'' @ ns @ ''.svc.cluster.local:'' @ port @ path"
  have p: "path = [] \<or> hd path = CHR ''/''" using names(3) by (simp add: path_ok_def)
  have "match_here (Digits # q) (port @ path) = Some []"
    using port p q by (intro match_here_Digits) auto
  then have "match_here (Lit ''.svc.cluster.local:'' # Digits # q)
      (''.svc.cluster.local:'' @ port @ path) = Some []"
    by (simp only: match_here_Lit)
  from FindStringSubmatch_names [OF names(1,2) _ this]
  have "FindStringSubmatch (Name # Lit ''.'' # Name # Lit ''.svc.cluster.local:'' # Digits # q) ?s =
      Some [svc, ns]" by simp
  then show ?thesis by (simp only: append_Cons append_Nil)
qed

lemma extract_port:
  assumes names: "valid_name svc" "valid_name ns" "path_ok path"
    and port: "port \<noteq> []" "list_all digit_char port"
  shows "extractNamespaceAndService (svc @ ''.'' @ ns @ ''.svc.cluster.local:'' @ port @ path) =
    (svc, ns, None)"
proof -
  let ?s = "svc @ ''.'' @ ns @ ''.svc.cluster.local:'' @ port @ path"
  note http = port_no_scheme [OF names port] and two = port_star [OF names port] and hit = port_hit [OF names port]
  show ?thesis
  proof (cases "\<exists>r. path = ''/*'' @ r")
    case True
    then have "match_here [Lit ''/*''] path = Some []" by (auto simp: HasPrefix_def)
    from hit [OF this] have h: "FindStringSubmatch (host_patterns ! 1) ?s = Some [svc, ns]"
      by (simp only: host_patterns_nth append_Cons append_Nil)
    have "FindStringSubmatch (host_patterns ! i) ?s = None" if "i < 1" for i
      using that by (intro http) (simp add: host_patterns_nth)
    from extract_by [OF _ this h] show ?thesis by (simp add: host_patterns_nth(9))
  next
    case False
    with two have "FindStringSubmatch (host_patterns ! 1) ?s = None" by blast
    moreover have "FindStringSubmatch (host_patterns ! 0) ?s = None"
      "FindStringSubmatch (host_patterns ! 2) ?s = None"
      by (rule http, simp add: host_patterns_nth)+
    moreover have "i = 0 \<or> i = 1 \<or> i = 2" if "i < 3" for i :: nat using that by linarith
    ultimately have n: "\<And>i. i < 3 \<Longrightarrow> FindStringSubmatch (host_patterns ! i) ?s = None" by metis
    have h: "FindStringSubmatch (host_patterns ! 3) ?s = Some [svc, ns]"
      using hit [of "[]"] by (simp only: host_patterns_nth append_Nil2) simp
    from extract_by [OF _ n h] show ?thesis by (simp add: host_patterns_nth(9))
  qed
qed

lemma extract_host:
  assumes "valid_name svc" "valid_name ns" "host_suffix sfx" "path_ok path"
  shows "extractNamespaceAndService (svc @ ''.'' @ ns @ sfx @ path) = (svc, ns, None)"
  using assms extract_svc [OF assms(1,2,4)] extract_cluster_local [OF assms(1,2,4)]
    extract_port [OF assms(1,2,4)]
  by (auto simp: host_suffix_def port_suffix_def)

section \<open>The addresses of a host\<close>

lemma removeWildcard_append: "removeTrailingWildcardIfNeeded (x @ ''/*'') = x"
  unfolding removeTrailingWildcardIfNeeded_def TrimSuffix_append HasSuffix_append by simp

lemma strip_path:
  assumes "CHR ''/'' \<notin> set base" "path = [] \<or> hd path = CHR ''/''"
  shows "removeTrailingPathIfNeeded (removeTrailingWildcardIfNeeded (base @ path)) = base"
proof -
  have cut: "removeTrailingPathIfNeeded (base @ q) = base" if "q = [] \<or> hd q = CHR ''/''" for q
    using assms(1) that
    by (cases q) (simp_all add: removeTrailingPathIfNeeded_def Index_absent Index_append)
  show ?thesis
  proof (cases "HasSuffix (base @ path) ''/*''")
    case False
    then show ?thesis using cut assms(2) by (simp add: removeTrailingWildcardIfNeeded_def)
  next
    case True
    then obtain r where r: "base @ path = r @ ''/*''" by (auto simp: HasSuffix_iff)
    have "length base \<le> length r"
    proof (rule ccontr)
      assume "\<not> length base \<le> length r"
      then have "CHR ''/'' = (base @ path) ! length r" "length r < length base"
        using r by (simp_all add: nth_append)
      then show False using assms(1) nth_mem by (fastforce simp: nth_append)
    qed
    then obtain q where q: "r = base @ q"
      using r by (metis append_eq_append_conv_if append_take_drop_id)
    with r have "path = q @ ''/*''" by simp
    with assms(2) have "q = [] \<or> hd q = CHR ''/''" by (cases q) auto
    moreover have "base @ path = (base @ q) @ ''/*''" using q r by simp
    ultimately show ?thesis using cut by (simp only: removeWildcard_append)
  qed
qed

lemma addHTTP_no_slash:
  assumes "CHR ''/'' \<notin> set s"
  shows "addHTTPIfNeeded s = ''http://'' @ s"
proof -
  have "\<not> HasPrefix s ''http://''" "\<not> HasPrefix s ''https://''"
    using assms by (auto simp: HasPrefix_iff)
  then show ?thesis by (simp add: addHTTPIfNeeded_def)
qed

lemma replaceServiceName_parts:
  assumes "CHR ''.'' \<notin> set a" "CHR ''.'' \<in> set r"
  shows "replaceServiceName (a @ ''.'' @ r) new = new @ ''.'' @ r"
proof -
  have "2 \<le> length (Split r (CHR ''.''))"
    using assms(2) by (simp add: length_Split count_list_0_iff Suc_le_eq flip: neq0_conv)
  moreover have "Split (a @ ''.'' @ r) (CHR ''.'') = a # Split r (CHR ''.'')"
    using assms(1) by (simp add: Split_append)
  ultimately show ?thesis
    by (simp add: replaceServiceName_def Join_Cons Join_Split)
qed

lemma replaceServiceName_short:
  assumes "CHR ''.'' \<notin> set a" "CHR ''.'' \<notin> set r"
  shows "replaceServiceName (a @ ''.'' @ r) new = a @ ''.'' @ r"
  using assms by (simp add: replaceServiceName_def Split_append Split_absent)

lemma host_suffix_free:
  assumes "host_suffix sfx"
  shows "CHR ''/'' \<notin> set sfx" "\<exists>r. sfx = CHR ''.'' # r"
  using assms digits_free by (auto simp: host_suffix_def port_suffix_def)

lemma newHost_addresses:
  assumes "valid_name svc" "valid_name ns" "host_suffix sfx" "path_ok path"
  shows "newHost (svc @ ''.'' @ ns @ sfx @ path) svc ns =
    \<lparr>IncomingHost = svc @ ''.'' @ ns @ sfx @ path, Namespace = ns, SourceService = svc,
     TargetService = GetPrivateServiceName svc,
     SourceHost = ''http://'' @ svc @ ''.'' @ ns @ sfx,
     TargetHost = ''http://'' @ GetPrivateServiceName svc @ ''.'' @ ns @ sfx,
     TrafficAllowed = True\<rparr>"
proof -
  let ?base = "svc @ ''.'' @ ns @ sfx" and ?pvt = "GetPrivateServiceName svc"
  have base: "CHR ''/'' \<notin> set ?base"
    using assms valid_name_free host_suffix_free by auto
  have src: "addHTTPIfNeeded (removeTrailingPathIfNeeded
      (removeTrailingWildcardIfNeeded (?base @ path))) = ''http://'' @ ?base"
    using strip_path [OF base, of path] addHTTP_no_slash [OF base] assms(4)
    by (simp add: path_ok_def)
  have "CHR ''.'' \<in> set sfx" using host_suffix_free(2) [OF assms(3)] by auto
  then have "replaceServiceName ((''http://'' @ svc) @ ''.'' @ ns @ sfx) ?pvt = ?pvt @ ''.'' @ ns @ sfx"
    using assms valid_name_free by (intro replaceServiceName_parts) auto
  moreover have "CHR ''/'' \<notin> set (?pvt @ ''.'' @ ns @ sfx)"
    using assms(1,2,3) valid_name_free host_suffix_free short_hash_chars [of svc]
    by (auto simp: GetPrivateServiceName_def name_prefix_def privateServicePostfix_def)
  ultimately have "addHTTPIfNeeded (replaceServiceName (''http://'' @ ?base) ?pvt) =
      ''http://'' @ ?pvt @ ''.'' @ ns @ sfx"
    using addHTTP_no_slash by simp
  with src show ?thesis by (simp add: newHost_def Let_def)
qed

text \<open>A host given with its scheme loses everything behind it.\<close>

lemma newHost_scheme: "TargetHost (newHost (''http://'' @ r) svc ns) = ''http://http:''"
proof -
  have cut: "removeTrailingPathIfNeeded (''http:'' @ CHR ''/'' # q) = ''http:''" for q
    using Index_append [of "CHR ''/''" "''http:''" q] by (simp add: removeTrailingPathIfNeeded_def)
  have "\<exists>q. removeTrailingWildcardIfNeeded (''http://'' @ r) = ''http:'' @ CHR ''/'' # q"
  proof (cases "HasSuffix (''http://'' @ r) ''/*''")
    case True
    then obtain t where t: "''http://'' @ r = t @ ''/*''" by (auto simp: HasSuffix_iff)
    have "length (''http://'' @ r) = length (t @ ''/*'')" by (rule arg_cong [OF t])
    then have len: "length t = 5 + length r" by simp
    have "t = take (length t) (''http://'' @ r)" using t by simp
    moreover have "r \<noteq> []" using t by (cases t rule: rev_cases) auto
    then obtain m where "length t = Suc (Suc (Suc (Suc (Suc (Suc m)))))"
      using len by (cases r) auto
    ultimately have "t = ''http:'' @ CHR ''/'' # take m (CHR ''/'' # r)" by simp
    moreover have "removeTrailingWildcardIfNeeded (''http://'' @ r) = t"
      unfolding t by (rule removeWildcard_append)
    ultimately show ?thesis by blast
  next
    case False
    then show ?thesis by (auto simp: removeTrailingWildcardIfNeeded_def)
  qed
  then obtain q where "removeTrailingWildcardIfNeeded (''http://'' @ r) = ''http:'' @ CHR ''/'' # q" ..
  then have "removeTrailingPathIfNeeded (removeTrailingWildcardIfNeeded (''http://'' @ r)) = ''http:''"
    using cut by (simp only:)
  then show ?thesis
    by (simp add: newHost_def Let_def addHTTPIfNeeded_def HasPrefix_def replaceServiceName_def)
qed

text \<open>
  A host with two labels has no third part to replace, so the address of the private service
  is the address of the public one; and a name without a namespace is read as if
  \<open>svc\<close> were the namespace, since the pattern for two labels comes before those for one.
\<close>

lemma newHost_two_labels:
  assumes "valid_name svc" "valid_name ns"
  shows "TargetHost (newHost (svc @ ''.'' @ ns) svc ns) = SourceHost (newHost (svc @ ''.'' @ ns) svc ns)"
proof -
  let ?base = "svc @ ''.'' @ ns"
  have base: "CHR ''/'' \<notin> set ?base" using assms valid_name_free by auto
  have "replaceServiceName ((''http://'' @ svc) @ ''.'' @ ns) new = ''http://'' @ ?base" for new
    using assms valid_name_free by (subst replaceServiceName_short) auto
  moreover have "addHTTPIfNeeded (''http://'' @ ?base) = ''http://'' @ ?base"
    by (simp add: addHTTPIfNeeded_def HasPrefix_def)
  ultimately show ?thesis
    using strip_path [OF base, of "[]"] addHTTP_no_slash [OF base] by (simp add: newHost_def Let_def)
qed

lemma extract_without_namespace:
  "extractNamespaceAndService ''foo.svc.cluster.local'' = (''foo'', ''svc'', None)"
  by code_simp

section \<open>Looking up a host\<close>

lemma GetHost_cached:
  "incomingHost_of hm req = Ret k \<Longrightarrow> hosts hm k = Some h \<Longrightarrow> GetHost hm req = Ret (h, None, hm)"
  by (simp add: GetHost_def)

lemma GetHost_new:
  "incomingHost_of hm req = Ret k \<Longrightarrow> hosts hm k = None \<Longrightarrow>
   extractNamespaceAndService k = (svc, ns, None) \<Longrightarrow>
   GetHost hm req = Ret (newHost k svc ns, None, hm\<lparr>hosts := (hosts hm)(k \<mapsto> newHost k svc ns)\<rparr>)"
  by (simp add: GetHost_def Let_def)

lemma newHost_sel [simp]:
  "IncomingHost (newHost k svc ns) = k" "TrafficAllowed (newHost k svc ns)"
  "SourceService (newHost k svc ns) = svc" "Namespace (newHost k svc ns) = ns"
  by (simp_all add: newHost_def Let_def)

text \<open>The three ways a lookup ends.\<close>

lemma GetHost_cases:
  assumes "GetHost hm req = Ret (h, e, hm')"
  obtains (hit) k where "incomingHost_of hm req = Ret k" "hosts hm k = Some h" "e = None" "hm' = hm"
  | (miss) k where "incomingHost_of hm req = Ret k" "hosts hm k = None" "e = None"
      "IncomingHost h = k" "TrafficAllowed h" "hm' = hm\<lparr>hosts := (hosts hm)(k \<mapsto> h)\<rparr>"
  | (err) "e \<noteq> None" "h = emptyHost" "hm' = hm"
  using assms
  by (auto simp: GetHost_def Let_def split: go.splits option.splits prod.splits)

lemma incomingHost_of_hosts [simp]:
  "incomingHost_of (hm\<lparr>hosts := H\<rparr>) req = incomingHost_of hm req"
  "incomingHost_of (hm\<lparr>hosts := H, hm_timers := T\<rparr>) req = incomingHost_of hm req"
  by (simp_all add: incomingHost_of_def)

lemma GetHost_again:
  assumes "GetHost hm req = Ret (h, None, hm')"
  shows "GetHost hm' req = Ret (h, None, hm')"
  using assms by (cases rule: GetHost_cases) (auto intro: GetHost_cached)

section \<open>Switching traffic off and on\<close>

lemma hm_inv_new: "hm_inv (NewHostManager d hdr)"
  by (simp add: hm_inv_def NewHostManager_def switched_off_def)

lemma hm_inv_GetHost:
  assumes "hm_inv hm" "GetHost hm req = Ret (h, e, hm')"
  shows "hm_inv hm'"
  using assms(2,1)
proof (cases rule: GetHost_cases)
  case (miss k)
  then have "switched_off hm' = switched_off hm" by (auto simp: switched_off_def fun_eq_iff)
  with miss assms(1) show ?thesis by (auto simp: hm_inv_def)
qed simp_all

lemma allowed_no_timer:
  assumes "hm_inv hm" "hosts hm k = Some h" "TrafficAllowed h"
  shows "k \<notin> snd ` set (hm_timers hm)"
proof -
  have "\<not> switched_off hm k" using assms(2,3) by (simp add: switched_off_def)
  with assms(1) show ?thesis by (simp add: hm_inv_def)
qed

lemma hm_inv_disable:
  assumes "hm_inv hm"
  shows "hm_inv (DisableTrafficForHost now hm k)"
proof (cases "\<exists>h. hosts hm k = Some h \<and> TrafficAllowed h")
  case True
  then obtain h where h: "hosts hm k = Some h" "TrafficAllowed h" by blast
  let ?hm = "DisableTrafficForHost now hm k"
  have "switched_off ?hm x \<longleftrightarrow> x = k \<or> switched_off hm x" for x
    using h by (simp add: DisableTrafficForHost_def switched_off_def)
  moreover have "hm_timers ?hm = hm_timers hm @ [(now + trafficReEnableDuration hm, k)]"
    using h by (simp add: DisableTrafficForHost_def)
  moreover have "hosts ?hm x = Some y \<Longrightarrow> \<exists>z. hosts hm x = Some z \<and> IncomingHost y = IncomingHost z" for x y
    using h by (auto simp: DisableTrafficForHost_def split: if_splits)
  ultimately show ?thesis
    using assms allowed_no_timer [OF assms h] by (fastforce simp: hm_inv_def)
next
  case False
  then show ?thesis using assms by (auto simp: DisableTrafficForHost_def split: option.splits)
qed

lemma enable_sel [simp]:
  "hm_timers (enableTrafficForHost hm k) = hm_timers hm"
  "headerForHost (enableTrafficForHost hm k) = headerForHost hm"
  "trafficReEnableDuration (enableTrafficForHost hm k) = trafficReEnableDuration hm"
  by (simp_all add: enableTrafficForHost_def split: option.splits)

lemma Host_allowed [simp]: "TrafficAllowed h \<Longrightarrow> h\<lparr>TrafficAllowed := True\<rparr> = h"
  by (cases h) simp

lemma hosts_enable:
  "hosts (enableTrafficForHost hm k) =
     (\<lambda>x. map_option (\<lambda>h. if x = k then h\<lparr>TrafficAllowed := True\<rparr> else h) (hosts hm x))"
proof
  fix x
  show "hosts (enableTrafficForHost hm k) x =
      map_option (\<lambda>h. if x = k then h\<lparr>TrafficAllowed := True\<rparr> else h) (hosts hm x)"
    by (cases "hosts hm x"; cases "x = k") (auto simp: enableTrafficForHost_def split: option.splits)
qed

definition enabled_by :: "(int \<times> string) list \<Rightarrow> string \<Rightarrow> Host \<Rightarrow> Host" where
  "enabled_by ts k h = (if k \<in> snd ` set ts then h\<lparr>TrafficAllowed := True\<rparr> else h)"

lemma fold_enable_sel:
  "hm_timers (fold (\<lambda>(due, h) m. enableTrafficForHost m h) ts hm) = hm_timers hm"
  by (induction ts arbitrary: hm) (auto split: prod.splits)

lemma hosts_fold_enable:
  "hosts (fold (\<lambda>(due, h) m. enableTrafficForHost m h) ts hm) =
     (\<lambda>k. map_option (enabled_by ts k) (hosts hm k))"
proof (induction ts arbitrary: hm)
  case Nil
  then show ?case by (simp add: enabled_by_def option.map_ident fun_eq_iff)
next
  case (Cons t ts)
  obtain due n where t: "t = (due, n)" by (cases t)
  show ?case
    unfolding t fold_simps prod.case o_apply Cons.IH
    by (auto simp: hosts_enable enabled_by_def fun_eq_iff option.map_comp intro!: option.map_cong0)
qed

lemma hosts_fire_timers:
  "hosts (fire_timers now hm) =
     (\<lambda>k. map_option (enabled_by (filter (\<lambda>(due, h). due \<le> now) (hm_timers hm)) k) (hosts hm k))"
  by (simp add: fire_timers_def hosts_fold_enable)

lemma hm_timers_fire [simp]:
  "hm_timers (fire_timers now hm) = filter (\<lambda>(due, h). \<not> due \<le> now) (hm_timers hm)"
  by (simp add: fire_timers_def fold_enable_sel)

lemma switched_off_fire:
  "switched_off (fire_timers now hm) k \<longleftrightarrow>
     switched_off hm k \<and> k \<notin> snd ` set (filter (\<lambda>(due, h). due \<le> now) (hm_timers hm))"
  by (auto simp: switched_off_def hosts_fire_timers enabled_by_def split: option.splits)

lemma hm_inv_fire:
  assumes "hm_inv hm"
  shows "hm_inv (fire_timers now hm)"
proof -
  let ?due = "\<lambda>(due :: int, h :: string). due \<le> now"
  have d: "distinct (map snd (hm_timers hm))" using assms by (simp add: hm_inv_def)
  have "switched_off (fire_timers now hm) k \<longleftrightarrow> k \<in> snd ` set (hm_timers (fire_timers now hm))" for k
    using assms distinct_filter_keys [OF d, of k ?due]
    unfolding switched_off_fire hm_timers_fire by (simp add: hm_inv_def case_prod_unfold)
  moreover have "distinct (map snd (hm_timers (fire_timers now hm)))"
    using d by (simp add: distinct_map_filter)
  moreover have "IncomingHost h = k" if "hosts (fire_timers now hm) k = Some h" for k h
    using that assms by (auto simp: hm_inv_def hosts_fire_timers enabled_by_def)
  ultimately show ?thesis by (simp add: hm_inv_def)
qed

lemma fire_timers_sel [simp]: "trafficReEnableDuration (fire_timers now hm) = trafficReEnableDuration hm"
proof -
  have "trafficReEnableDuration (fold (\<lambda>(due, h) m. enableTrafficForHost m h) ts m) =
      trafficReEnableDuration m" for ts :: "(int \<times> string) list" and m
    by (induction ts arbitrary: m) (auto split: prod.splits)
  then show ?thesis by (simp add: fire_timers_def)
qed

lemma hm_reach_inv:
  "hm_reach d hdr hm \<Longrightarrow> hm_inv hm \<and> trafficReEnableDuration hm = d"
proof (induction rule: hm_reach.induct)
  case new
  then show ?case using hm_inv_new by (simp add: NewHostManager_def)
next
  case (get hm req h e hm')
  from get.hyps(2) have "trafficReEnableDuration hm' = trafficReEnableDuration hm"
    by (cases rule: GetHost_cases) auto
  with get hm_inv_GetHost show ?case by auto
next
  case (disable hm now k)
  then show ?case using hm_inv_disable
    by (auto simp: DisableTrafficForHost_def split: option.splits)
next
  case (fire hm now)
  then show ?case by (simp add: hm_inv_fire)
qed

section \<open>The interface of the request handler\<close>

text \<open>
  The interface \<open>HostManager\<close> of \<open>handler.go\<close>: what the handler may rely on is that an answer is
  stable, and that switching traffic off for the host it was given shows in the next answer.
\<close>

locale host_manager =
  fixes get_host :: "'m \<Rightarrow> Request \<Rightarrow> (Host \<times> goerr option \<times> 'm) go"
    and disable_traffic :: "int \<Rightarrow> 'm \<Rightarrow> string \<Rightarrow> 'm"
    and inv :: "'m \<Rightarrow> bool"
  assumes inv_get: "inv m \<Longrightarrow> get_host m req = Ret (h, e, m') \<Longrightarrow> inv m'"
    and inv_disable: "inv m \<Longrightarrow> inv (disable_traffic now m k)"
    and get_again: "get_host m req = Ret (h, None, m') \<Longrightarrow> get_host m' req = Ret (h, None, m')"
    and get_disabled: "inv m \<Longrightarrow> get_host m req = Ret (h, None, m') \<Longrightarrow>
      get_host (disable_traffic now m' (IncomingHost h)) req =
        Ret (h\<lparr>TrafficAllowed := False\<rparr>, None, disable_traffic now m' (IncomingHost h))"
begin

lemma get_twice_disabled:
  assumes "inv m" "get_host m req = Ret (h, None, m')"
  shows "\<exists>m''. get_host (disable_traffic now m' (IncomingHost h)) req =
      Ret (h\<lparr>TrafficAllowed := False\<rparr>, None, m'') \<and> inv m''"
  using get_disabled [OF assms] inv_disable [OF inv_get [OF assms]] by blast

end

lemma GetHost_disabled:
  assumes "hm_inv hm" "GetHost hm req = Ret (h, None, hm')"
  shows "GetHost (DisableTrafficForHost now hm' (IncomingHost h)) req =
    Ret (h\<lparr>TrafficAllowed := False\<rparr>, None, DisableTrafficForHost now hm' (IncomingHost h))"
proof -
  have "\<exists>k. incomingHost_of hm' req = Ret k \<and> hosts hm' k = Some h"
    using assms(2) by (cases rule: GetHost_cases) auto
  then obtain k where k: "incomingHost_of hm' req = Ret k" "hosts hm' k = Some h" by blast
  moreover have "k = IncomingHost h"
    using hm_inv_GetHost [OF assms] k by (simp add: hm_inv_def)
  moreover have "\<not> TrafficAllowed h \<Longrightarrow> h\<lparr>TrafficAllowed := False\<rparr> = h" by (cases h) simp
  ultimately show ?thesis
    by (intro GetHost_cached) (auto simp: DisableTrafficForHost_def)
qed

interpretation hm: host_manager GetHost DisableTrafficForHost hm_inv
  by unfold_locales
    (auto intro: hm_inv_GetHost hm_inv_disable GetHost_again GetHost_disabled)

section \<open>Properties\<close>

definition get_request :: "string \<Rightarrow> Request" where
  "get_request h = \<lparr>Req_Host = h, Req_Header = Map.empty, Req_RequestURI = ''/'', Req_URL = ''/'',
     Req_ProtoMajor = 1\<rparr>"

definition web_shop :: Host where
  "web_shop = newHost ''web.shop'' ''web'' ''shop''"

lemma example_lookup:
  "GetHost (NewHostManager d hdr) (get_request ''web.shop'') =
     Ret (web_shop, None, (NewHostManager d hdr)\<lparr>hosts := (hosts (NewHostManager d hdr))(''web.shop'' \<mapsto> web_shop)\<rparr>)"
  unfolding web_shop_def
proof (rule GetHost_new)
  show "extractNamespaceAndService ''web.shop'' = (''web'', ''shop'', None)" by code_simp
qed (simp_all add: incomingHost_of_def get_request_def NewHostManager_def)

text \<open>C22: the first request for a host of the form service, namespace and one of the cluster's
  suffixes, with or without a path, is answered with that service and namespace, the address
  of the service itself and the address of its private twin in the same namespace with the same
  suffix and port; the host is cached as allowed, and nothing else of the manager changes.\<close>

theorem GetHost_resolves:
  assumes "valid_name svc" "valid_name ns" "host_suffix sfx" "path_ok path"
    and "incomingHost_of hm req = Ret (svc @ ''.'' @ ns @ sfx @ path)"
    and "hosts hm (svc @ ''.'' @ ns @ sfx @ path) = None"
  shows "GetHost hm req =
    (let h = \<lparr>IncomingHost = svc @ ''.'' @ ns @ sfx @ path, Namespace = ns, SourceService = svc,
              TargetService = GetPrivateServiceName svc,
              SourceHost = ''http://'' @ svc @ ''.'' @ ns @ sfx,
              TargetHost = ''http://'' @ GetPrivateServiceName svc @ ''.'' @ ns @ sfx,
              TrafficAllowed = True\<rparr>
     in Ret (h, None, hm\<lparr>hosts := (hosts hm)(IncomingHost h \<mapsto> h)\<rparr>))"
  using GetHost_new [OF assms(5,6) extract_host [OF assms(1-4)]]
  by (simp only: newHost_addresses [OF assms(1-4)] Let_def Host.simps)

theorem GetHost_resolves_witness:
  "(case GetHost (NewHostManager 5 ''X'') (get_request ''web.shop.svc.cluster.local:80/cart'') of
      Panic m \<Rightarrow> False
    | Ret (h, e, hm) \<Rightarrow>
        TargetHost h = ''http://'' @ GetPrivateServiceName ''web'' @ ''.shop.svc.cluster.local:80'' \<and>
        Namespace h = ''shop'' \<and> e = None)"
proof -
  have "valid_name ''web''" "valid_name ''shop''" "path_ok ''/cart''" by code_simp+
  moreover have "port_suffix ''.svc.cluster.local:80''"
    unfolding port_suffix_def by (rule exI [of _ "''80''"]) (simp add: digit_char_def)
  then have "host_suffix ''.svc.cluster.local:80''" unfolding host_suffix_def by blast
  ultimately show ?thesis
    using GetHost_resolves [of "''web''" "''shop''" "''.svc.cluster.local:80''" "''/cart''"
        "NewHostManager 5 ''X''"
        "get_request ''web.shop.svc.cluster.local:80/cart''"]
    by (simp add: incomingHost_of_def get_request_def NewHostManager_def Let_def)
qed



end
