(* ===== verification/OperatorClient.thy ===== *)
theory OperatorClient
  imports Utils
begin

text \<open>
  \<open>resolver/internal/operator/RPCClient.go\<close>: the resolver tells the operator about traffic, at
  most once per service while a lock for that service is held. A call of
  \<open>SendIncomingRequestInfo\<close> takes time, so it is split where other goroutines can run: entering it
  (the lock is taken or found taken, the request is sent), and returning from it, which is when the
  deferred \<open>time.AfterFunc\<close> starts the timer that releases the lock. \<open>oc_running\<close> are the calls
  between the two, \<open>oc_timers\<close> the pending timers, \<open>oc_posts\<close> the requests sent, latest first.
  The HTTP client and the JSON encoder appear by their results.
\<close>

section \<open>The client\<close>

record Client =
  retryDuration :: int
  serviceRPCLocks :: "string \<rightharpoonup> bool"
  operatorURL :: string
  incomingRequestEndpoint :: string
  oc_running :: "(string \<times> string) list"
  oc_timers :: "(int \<times> string) list"
  oc_posts :: "(int \<times> string \<times> RequestCount) list"

definition NewOperatorClient :: "int \<Rightarrow> Client" where
  "NewOperatorClient d =
     \<lparr>retryDuration = d, serviceRPCLocks = Map.empty,
      operatorURL = ''http://elasti-operator-controller-service:8013'',
      incomingRequestEndpoint = ''/informer/incoming-request'',
      oc_running = [], oc_timers = [], oc_posts = []\<rparr>"

text \<open>\<open>LoadOrStore\<close>: an unlocked mutex is stored when there is none.\<close>

definition getMutexForServiceRPC :: "Client \<Rightarrow> string \<Rightarrow> Client \<times> bool" where
  "getMutexForServiceRPC c svc =
     (case serviceRPCLocks c svc of
        Some _ \<Rightarrow> (c, True)
      | None \<Rightarrow> (c\<lparr>serviceRPCLocks := (serviceRPCLocks c)(svc \<mapsto> False)\<rparr>, False))"

text \<open>Unlocking a mutex that is not locked is a fatal error.\<close>

definition releaseMutexForServiceRPC :: "Client \<Rightarrow> string \<Rightarrow> Client go" where
  "releaseMutexForServiceRPC c svc =
     (case serviceRPCLocks c svc of
        None \<Rightarrow> Ret c
      | Some False \<Rightarrow> Panic ''unlock of unlocked mutex''
      | Some True \<Rightarrow> Ret (c\<lparr>serviceRPCLocks := (serviceRPCLocks c)(svc := None)\<rparr>))"

text \<open>The deferred call: the timer starts when \<open>SendIncomingRequestInfo\<close> returns.\<close>

definition SendIncomingRequestInfo_defer :: "int \<Rightarrow> Client \<Rightarrow> string \<Rightarrow> Client" where
  "SendIncomingRequestInfo_defer now c svc =
     c\<lparr>oc_timers := oc_timers c @ [(now + retryDuration c, svc)]\<rparr>"

text \<open>
  Entering the call: \<open>prepErr\<close> is the error of \<open>json.Marshal\<close> or \<open>http.NewRequest\<close>, if any. The
  mutex found in the map may be locked only when the call goes away without touching it, so
  \<open>lock.Lock()\<close> never blocks.
\<close>

definition SendIncomingRequestInfo_enter ::
  "int \<Rightarrow> goerr option \<Rightarrow> Client \<Rightarrow> string \<Rightarrow> string \<Rightarrow> Client" where
  "SendIncomingRequestInfo_enter now prepErr c ns svc =
     (let (c1, taken) = getMutexForServiceRPC c svc
      in if taken then c1
         else
           let c2 = c1\<lparr>serviceRPCLocks := (serviceRPCLocks c1)(svc \<mapsto> True)\<rparr>;
               requestBody = \<lparr>Count = 1, Svc = svc, RC_Namespace = ns\<rparr>;
               url = operatorURL c2 @ incomingRequestEndpoint c2
           in case prepErr of
                Some err \<Rightarrow> SendIncomingRequestInfo_defer now c2 svc
              | None \<Rightarrow> c2\<lparr>oc_running := (ns, svc) # oc_running c2,
                           oc_posts := (now, url, requestBody) # oc_posts c2\<rparr>)"

text \<open>
  Returning from it: whatever the answer of the operator (an error, a status other than 200, or
  success), the lock is kept and the timer started. \<open>rpc_label\<close> is the label of the counter.
\<close>

datatype rpc_answer = DoError goerr | StatusCode int

definition rpc_label :: "rpc_answer \<Rightarrow> goerr option \<times> int" where
  "rpc_label a =
     (case a of
        DoError err \<Rightarrow> (Some err, 0)
      | StatusCode c \<Rightarrow> if c \<noteq> 200 then (None, c) else (None, 0))"

definition SendIncomingRequestInfo_return ::
  "int \<Rightarrow> rpc_answer \<Rightarrow> Client \<Rightarrow> string \<Rightarrow> string \<Rightarrow> Client" where
  "SendIncomingRequestInfo_return now answer c ns svc =
     SendIncomingRequestInfo_defer now (c\<lparr>oc_running := remove1 (ns, svc) (oc_running c)\<rparr>) svc"

text \<open>Time passes until \<open>now\<close>: the timers that are due release their locks.\<close>

fun release_all :: "string list \<Rightarrow> Client \<Rightarrow> Client go" where
  "release_all [] c = Ret c"
| "release_all (s # ss) c =
     (case releaseMutexForServiceRPC c s of Panic m \<Rightarrow> Panic m | Ret c' \<Rightarrow> release_all ss c')"

definition fire_releases :: "int \<Rightarrow> Client \<Rightarrow> Client go" where
  "fire_releases now c =
     release_all (map snd (filter (\<lambda>(due, s). due \<le> now) (oc_timers c)))
       (c\<lparr>oc_timers := filter (\<lambda>(due, s). \<not> due \<le> now) (oc_timers c)\<rparr>)"

text \<open>The clients that arise from a new one; the second argument is the time of the last step.\<close>

inductive oc_reach :: "int \<Rightarrow> int \<Rightarrow> Client \<Rightarrow> bool" for d where
  new: "oc_reach d t (NewOperatorClient d)"
| enter: "oc_reach d t c \<Longrightarrow> t \<le> now \<Longrightarrow> oc_reach d now (SendIncomingRequestInfo_enter now p c ns svc)"
| return: "oc_reach d t c \<Longrightarrow> t \<le> now \<Longrightarrow> (ns, svc) \<in> set (oc_running c) \<Longrightarrow>
    oc_reach d now (SendIncomingRequestInfo_return now a c ns svc)"
| fire: "oc_reach d t c \<Longrightarrow> t \<le> now \<Longrightarrow> fire_releases now c = Ret c' \<Longrightarrow> oc_reach d now c'"

section \<open>The invariant\<close>

text \<open>
  A service has a lock exactly while it has a running call or a pending timer, and never more than
  one of these; the lock is locked. Requests for one service are at least \<open>d\<close> apart, and the
  latest is at most as old as the lock.
\<close>

definition lock_owners :: "Client \<Rightarrow> string list" where
  "lock_owners c = map snd (oc_running c) @ map snd (oc_timers c)"

definition posts_for :: "string \<Rightarrow> Client \<Rightarrow> int list" where
  "posts_for svc c = map fst (filter (\<lambda>(t, u, b). Svc b = svc) (oc_posts c))"

definition spaced :: "int \<Rightarrow> int list \<Rightarrow> bool" where
  "spaced d ts = sorted_wrt (\<lambda>later earlier. earlier + d \<le> later) ts"

definition oc_inv :: "int \<Rightarrow> int \<Rightarrow> Client \<Rightarrow> bool" where
  "oc_inv d t c =
     (retryDuration c = d \<and>
      distinct (lock_owners c) \<and>
      (\<forall>s. serviceRPCLocks c s = (if s \<in> set (lock_owners c) then Some True else None)) \<and>
      (\<forall>s. spaced d (posts_for s c)) \<and>
      (\<forall>s p. p \<in> set (posts_for s c) \<longrightarrow> p \<le> t \<and>
         (s \<notin> set (lock_owners c) \<longrightarrow> p + d \<le> t) \<and>
         (\<forall>due. (due, s) \<in> set (oc_timers c) \<longrightarrow> p + d \<le> due)))"

lemma oc_inv_mono: "oc_inv d t c \<Longrightarrow> t \<le> now \<Longrightarrow> oc_inv d now c"
  unfolding oc_inv_def by fastforce

lemma oc_inv_new: "oc_inv d t (NewOperatorClient d)"
  by (simp add: oc_inv_def NewOperatorClient_def lock_owners_def posts_for_def spaced_def)

lemma oc_invD:
  assumes "oc_inv d t c"
  shows "retryDuration c = d" "distinct (lock_owners c)"
    "serviceRPCLocks c s = (if s \<in> set (lock_owners c) then Some True else None)"
    "spaced d (posts_for s c)"
    "p \<in> set (posts_for s c) \<Longrightarrow> p \<le> t"
    "p \<in> set (posts_for s c) \<Longrightarrow> s \<notin> set (lock_owners c) \<Longrightarrow> p + d \<le> t"
    "p \<in> set (posts_for s c) \<Longrightarrow> (due, s) \<in> set (oc_timers c) \<Longrightarrow> p + d \<le> due"
  using assms unfolding oc_inv_def by blast+

lemma oc_invI:
  assumes "retryDuration c = d" "distinct (lock_owners c)"
    "\<And>s. serviceRPCLocks c s = (if s \<in> set (lock_owners c) then Some True else None)"
    "\<And>s. spaced d (posts_for s c)"
    "\<And>s p. p \<in> set (posts_for s c) \<Longrightarrow> p \<le> t"
    "\<And>s p. p \<in> set (posts_for s c) \<Longrightarrow> s \<notin> set (lock_owners c) \<Longrightarrow> p + d \<le> t"
    "\<And>s p due. p \<in> set (posts_for s c) \<Longrightarrow> (due, s) \<in> set (oc_timers c) \<Longrightarrow> p + d \<le> due"
  shows "oc_inv d t c"
  using assms unfolding oc_inv_def by blast

lemma timers_owners: "(due, s) \<in> set (oc_timers c) \<Longrightarrow> s \<in> set (lock_owners c)"
  by (force simp: lock_owners_def)

lemma spaced_Cons: "spaced d (x # xs) \<longleftrightarrow> (\<forall>y\<in>set xs. y + d \<le> x) \<and> spaced d xs"
  by (simp add: spaced_def)

text \<open>The two ways a call is entered: the lock is found taken, or is taken now.\<close>

lemma enter_taken:
  "serviceRPCLocks c svc = Some b \<Longrightarrow> SendIncomingRequestInfo_enter now p c ns svc = c"
  by (simp add: SendIncomingRequestInfo_enter_def getMutexForServiceRPC_def)

lemma enter_fresh:
  "serviceRPCLocks c svc = None \<Longrightarrow> SendIncomingRequestInfo_enter now None c ns svc =
     c\<lparr>serviceRPCLocks := (serviceRPCLocks c)(svc \<mapsto> True), oc_running := (ns, svc) # oc_running c,
       oc_posts := (now, operatorURL c @ incomingRequestEndpoint c,
                    \<lparr>Count = 1, Svc = svc, RC_Namespace = ns\<rparr>) # oc_posts c\<rparr>"
  by (simp add: SendIncomingRequestInfo_enter_def getMutexForServiceRPC_def Let_def)

lemma enter_fresh_error:
  "serviceRPCLocks c svc = None \<Longrightarrow> SendIncomingRequestInfo_enter now (Some e) c ns svc =
     c\<lparr>serviceRPCLocks := (serviceRPCLocks c)(svc \<mapsto> True),
       oc_timers := oc_timers c @ [(now + retryDuration c, svc)]\<rparr>"
  by (simp add: SendIncomingRequestInfo_enter_def getMutexForServiceRPC_def Let_def
      SendIncomingRequestInfo_defer_def)

lemma oc_inv_enter_fresh:
  assumes inv: "oc_inv d t c" and "t \<le> now" and free: "serviceRPCLocks c svc = None"
  shows "oc_inv d now (SendIncomingRequestInfo_enter now None c ns svc)"
proof -
  let ?c = "SendIncomingRequestInfo_enter now None c ns svc"
  note D = oc_invD [OF oc_inv_mono [OF inv \<open>t \<le> now\<close>]]
  have own: "svc \<notin> set (lock_owners c)" using D(3) [of svc] free by (auto split: if_splits)
  have eqs: "lock_owners ?c = svc # lock_owners c" "oc_timers ?c = oc_timers c"
    "retryDuration ?c = retryDuration c" "serviceRPCLocks ?c = (serviceRPCLocks c)(svc \<mapsto> True)"
    "posts_for s ?c = (if s = svc then [now] else []) @ posts_for s c" for s
    using free by (auto simp: enter_fresh lock_owners_def posts_for_def)
  show ?thesis
    by (rule oc_invI; simp only: eqs)
      (use D own timers_owners in \<open>auto simp: spaced_Cons split: if_splits\<close>)
qed

lemma oc_inv_timer:
  assumes D: "oc_inv d t c"
    and eqs: "set (lock_owners c') = insert svc (set (lock_owners c))" "distinct (lock_owners c')"
      "oc_timers c' = oc_timers c @ [(t + d, svc)]" "retryDuration c' = d"
      "\<And>s. posts_for s c' = posts_for s c"
      "serviceRPCLocks c' = (serviceRPCLocks c)(svc \<mapsto> True)"
  shows "oc_inv d t c'"
proof (rule oc_invI)
  show "serviceRPCLocks c' s = (if s \<in> set (lock_owners c') then Some True else None)" for s
    using oc_invD(3) [OF D, of s] by (simp add: eqs(1,6))
  show "p \<le> t" if "p \<in> set (posts_for s c')" for s p using that oc_invD(5) [OF D] by (simp add: eqs(5))
  show "p + d \<le> t" if "p \<in> set (posts_for s c')" "s \<notin> set (lock_owners c')" for s p
    using that oc_invD(6) [OF D, of p s] by (simp add: eqs(1,5))
  show "p + d \<le> due" if "p \<in> set (posts_for s c')" "(due, s) \<in> set (oc_timers c')" for s p due
    using that oc_invD(5,7) [OF D, of p s] by (auto simp: eqs(3,5))
qed (use oc_invD [OF D] eqs in simp_all)

lemma oc_inv_enter:
  assumes "oc_inv d t c" "t \<le> now"
  shows "oc_inv d now (SendIncomingRequestInfo_enter now p c ns svc)"
proof (cases "serviceRPCLocks c svc")
  case (Some b)
  then show ?thesis using oc_inv_mono [OF assms] by (simp add: enter_taken)
next
  case None
  show ?thesis
  proof (cases p)
    case None
    with oc_inv_enter_fresh [OF assms] \<open>serviceRPCLocks c svc = None\<close> show ?thesis by simp
  next
    case (Some e)
    have inv: "oc_inv d now c" using oc_inv_mono [OF assms] .
    have "svc \<notin> set (lock_owners c)" using oc_invD(3) [OF inv, of svc] None by (auto split: if_splits)
    with inv show ?thesis
      unfolding Some enter_fresh_error [OF None]
      by (intro oc_inv_timer [OF inv, of _ svc])
        (use oc_invD [OF inv] in \<open>auto simp: lock_owners_def posts_for_def\<close>)
  qed
qed

lemma oc_inv_return:
  assumes "oc_inv d t c" "t \<le> now" "(ns, svc) \<in> set (oc_running c)"
  shows "oc_inv d now (SendIncomingRequestInfo_return now a c ns svc)"
proof -
  have inv: "oc_inv d now c" using oc_inv_mono [OF assms(1,2)] .
  let ?c = "SendIncomingRequestInfo_return now a c ns svc"
  obtain xs ys where r: "oc_running c = xs @ (ns, svc) # ys" "(ns, svc) \<notin> set xs"
    using split_list_first [OF assms(3)] by blast
  then have own: "lock_owners c = map snd xs @ svc # map snd ys @ map snd (oc_timers c)"
    "lock_owners ?c = map snd xs @ map snd ys @ map snd (oc_timers c) @ [svc]"
    by (simp_all add: lock_owners_def SendIncomingRequestInfo_return_def
        SendIncomingRequestInfo_defer_def remove1_append)
  have "serviceRPCLocks c svc = Some True" using oc_invD(3) [OF inv] own(1) by simp
  then have "serviceRPCLocks ?c = (serviceRPCLocks c)(svc \<mapsto> True)"
    by (auto simp: SendIncomingRequestInfo_return_def SendIncomingRequestInfo_defer_def)
  then show ?thesis
    by (intro oc_inv_timer [OF inv, of _ svc])
      (use oc_invD [OF inv] own in \<open>auto simp: SendIncomingRequestInfo_return_def
        SendIncomingRequestInfo_defer_def posts_for_def\<close>)
qed

lemma release_all_locked:
  assumes "distinct ss" "\<And>s. s \<in> set ss \<Longrightarrow> serviceRPCLocks c s = Some True"
  shows "release_all ss c = Ret (c\<lparr>serviceRPCLocks := serviceRPCLocks c |` (- set ss)\<rparr>)"
  using assms
proof (induction ss arbitrary: c)
  case Nil
  then show ?case by simp
next
  case (Cons s ss)
  have "(serviceRPCLocks c)(s := None) |` (- set ss) = serviceRPCLocks c |` (- set (s # ss))"
    by (auto simp: restrict_map_def fun_eq_iff)
  moreover have "release_all ss (c\<lparr>serviceRPCLocks := (serviceRPCLocks c)(s := None)\<rparr>) =
      Ret (c\<lparr>serviceRPCLocks := (serviceRPCLocks c)(s := None) |` (- set ss)\<rparr>)"
    using Cons.prems by (subst Cons.IH) auto
  ultimately show ?case using Cons.prems(2) [of s] by (simp add: releaseMutexForServiceRPC_def)
qed

lemma fire_releases_eq:
  assumes "oc_inv d t c"
  shows "fire_releases now c =
    Ret (c\<lparr>oc_timers := filter (\<lambda>(due, s). \<not> due \<le> now) (oc_timers c),
           serviceRPCLocks := serviceRPCLocks c |`
             (- snd ` set (filter (\<lambda>(due, s). due \<le> now) (oc_timers c)))\<rparr>)"
proof -
  have "distinct (map snd (oc_timers c))"
    using oc_invD(2) [OF assms] by (simp add: lock_owners_def)
  then have "distinct (map snd (filter (\<lambda>(due, s). due \<le> now) (oc_timers c)))"
    by (rule distinct_map_filter)
  moreover have "serviceRPCLocks c s = Some True"
    if "s \<in> set (map snd (filter (\<lambda>(due, s). due \<le> now) (oc_timers c)))" for s
    using that timers_owners oc_invD(3) [OF assms] by auto
  ultimately show ?thesis
    unfolding fire_releases_def by (subst release_all_locked) simp_all
qed

lemma owners_fire:
  assumes "oc_inv d t c" "fire_releases now c = Ret c'"
  shows "s \<in> set (lock_owners c') \<longleftrightarrow> s \<in> set (lock_owners c) \<and>
    s \<notin> snd ` set (filter (\<lambda>(due, s). due \<le> now) (oc_timers c))"
proof -
  let ?due = "\<lambda>(due :: int, s :: string). due \<le> now"
  have c': "oc_running c' = oc_running c" "oc_timers c' = filter (\<lambda>x. \<not> ?due x) (oc_timers c)"
    using fire_releases_eq [OF assms(1), of now] assms(2) by (auto simp: case_prod_unfold)
  have d: "distinct (map snd (oc_timers c))" "snd ` set (oc_running c) \<inter> snd ` set (oc_timers c) = {}"
    using oc_invD(2) [OF assms(1)] by (auto simp: lock_owners_def)
  have "s \<in> snd ` set (filter ?due (oc_timers c)) \<Longrightarrow> s \<in> snd ` set (oc_timers c)" by auto
  with d(2) distinct_filter_keys [OF d(1), of s ?due] show ?thesis
    unfolding lock_owners_def c' set_append set_map by blast
qed

lemma oc_inv_fire:
  assumes "oc_inv d t c" "t \<le> now" "fire_releases now c = Ret c'"
  shows "oc_inv d now c'"
proof -
  have inv: "oc_inv d now c" using oc_inv_mono [OF assms(1,2)] .
  let ?fired = "snd ` set (filter (\<lambda>(due, s). due \<le> now) (oc_timers c))"
  have c': "c' = c\<lparr>oc_timers := filter (\<lambda>(due, s). \<not> due \<le> now) (oc_timers c),
      serviceRPCLocks := serviceRPCLocks c |` (- ?fired)\<rparr>"
    using fire_releases_eq [OF inv, of now] assms(3) by simp
  have posts: "posts_for s c' = posts_for s c" for s by (simp add: c' posts_for_def)
  note own = owners_fire [OF inv assms(3)]
  show ?thesis
  proof (rule oc_invI)
    show "retryDuration c' = d" using oc_invD(1) [OF inv] by (simp add: c')
    show "distinct (lock_owners c')"
      using oc_invD(2) [OF inv] by (auto simp: c' lock_owners_def distinct_map_filter)
    show "serviceRPCLocks c' s = (if s \<in> set (lock_owners c') then Some True else None)" for s
      using oc_invD(3) [OF inv, of s] own [of s] by (simp add: c' restrict_map_def)
    show "spaced d (posts_for s c')" for s using oc_invD(4) [OF inv] by (simp add: posts)
    show "p \<le> now" if "p \<in> set (posts_for s c')" for s p using that oc_invD(5) [OF inv] by (simp add: posts)
    show "p + d \<le> now" if "p \<in> set (posts_for s c')" "s \<notin> set (lock_owners c')" for s p
      using that own [of s] oc_invD(6,7) [OF inv, of p s] by (fastforce simp: posts)
    show "p + d \<le> due" if "p \<in> set (posts_for s c')" "(due, s) \<in> set (oc_timers c')" for s p due
    proof -
      have "(due, s) \<in> set (oc_timers c)" using that(2) by (simp add: c')
      with that(1) show ?thesis using oc_invD(7) [OF inv] posts by simp
    qed
  qed
qed

lemma oc_reach_inv: "oc_reach d t c \<Longrightarrow> oc_inv d t c"
  by (induction rule: oc_reach.induct)
    (blast intro: oc_inv_new oc_inv_enter oc_inv_return oc_inv_fire)+

section \<open>The interface of the request handler\<close>

text \<open>
  The interface \<open>Operator\<close> of \<open>handler.go\<close>: after a call the operator is being told about the
  service, by this call or by an earlier one whose lock is still held.
\<close>

locale operator =
  fixes send :: "int \<Rightarrow> 'o \<Rightarrow> string \<Rightarrow> string \<Rightarrow> 'o"
    and told :: "'o \<Rightarrow> string \<Rightarrow> bool"
  assumes send_tells: "told (send now c ns svc) svc"
    and send_keeps: "told c s \<Longrightarrow> told (send now c ns svc) s"
begin

lemma sends_keep: "told c s \<Longrightarrow> told (fold (\<lambda>now c. send now c ns svc) ts c) s"
  by (induction ts arbitrary: c) (auto intro: send_keeps)

end

definition told :: "Client \<Rightarrow> string \<Rightarrow> bool" where
  "told c svc = (serviceRPCLocks c svc \<noteq> None)"

lemma locks_enter:
  "serviceRPCLocks (SendIncomingRequestInfo_enter now p c ns svc) =
     (if serviceRPCLocks c svc = None then (serviceRPCLocks c)(svc \<mapsto> True) else serviceRPCLocks c)"
  by (cases "serviceRPCLocks c svc"; cases p)
    (simp_all add: enter_taken enter_fresh enter_fresh_error)

interpretation rpc: operator "\<lambda>now. SendIncomingRequestInfo_enter now p" told for p
  by unfold_locales (auto simp: told_def locks_enter)

section \<open>Properties\<close>

text \<open>However calls, answers and timers interleave, two requests that name the same service
  are at least the retry duration apart, and releasing the locks that are due never unlocks a
  mutex that is not locked.\<close>

lemma rpc_rate_limit:
  assumes "oc_reach d t c"
  shows "spaced d (posts_for svc c) \<and> fire_releases now c \<noteq> Panic m"
  using oc_invD(4) [OF oc_reach_inv [OF assms]] fire_releases_eq [OF oc_reach_inv [OF assms]]
  by simp

lemma rpc_rate_limit_example:
  "(let c = SendIncomingRequestInfo_return 3 (StatusCode 200)
              (SendIncomingRequestInfo_enter 1 None (NewOperatorClient 30) ''ns'' ''web'') ''ns'' ''web''
    in posts_for ''web'' c = [1] \<and> spaced 30 (posts_for ''web'' c) \<and> fire_releases 40 c \<noteq> Panic ''unlock of unlocked mutex'')"
proof -
  let ?c = "SendIncomingRequestInfo_enter 1 None (NewOperatorClient 30) ''ns'' ''web''"
  let ?r = "SendIncomingRequestInfo_return 3 (StatusCode 200) ?c ''ns'' ''web''"
  have "oc_reach 30 3 ?r"
    by (rule oc_reach.return [OF oc_reach.enter [OF oc_reach.new]], rule order_refl)
      (simp_all add: enter_fresh NewOperatorClient_def)
  from rpc_rate_limit [OF this, of "''web''" 40 "''unlock of unlocked mutex''"] show ?thesis
    by (simp add: Let_def posts_for_def SendIncomingRequestInfo_return_def
        SendIncomingRequestInfo_defer_def enter_fresh NewOperatorClient_def)
qed

text \<open>After a call for a service has returned, a later call for a service of that name, in
  whatever namespace, sends a request exactly when the retry duration has passed since the
  return; until then it sends nothing.\<close>

lemma rpc_suppressed_for_duration:
  assumes "oc_reach d t c" "t \<le> now" "(ns, svc) \<in> set (oc_running c)" "now \<le> t'"
    and "fire_releases t' (SendIncomingRequestInfo_return now a c ns svc) = Ret c'"
  shows "oc_posts (SendIncomingRequestInfo_enter t' None c' ns' svc) =
    (if now + d \<le> t' then [(t', operatorURL c' @ incomingRequestEndpoint c',
        \<lparr>Count = 1, Svc = svc, RC_Namespace = ns'\<rparr>)] else []) @ oc_posts c'"
proof -
  let ?r = "SendIncomingRequestInfo_return now a c ns svc"
  have inv: "oc_inv d now ?r" using oc_inv_return [OF oc_reach_inv [OF assms(1)] assms(2,3)] .
  have tm: "(now + d, svc) \<in> set (oc_timers ?r)"
    using oc_invD(1) [OF oc_reach_inv [OF assms(1)]]
    by (simp add: SendIncomingRequestInfo_return_def SendIncomingRequestInfo_defer_def)
  have uniq: "due = now + d" if "(due, svc) \<in> set (oc_timers ?r)" for due
  proof -
    have "distinct (map snd (oc_timers ?r))" using oc_invD(2) [OF inv] by (simp add: lock_owners_def)
    from distinct_snd_unique [OF this that tm] show ?thesis .
  qed
  have "svc \<in> snd ` set (filter (\<lambda>(due, s). due \<le> t') (oc_timers ?r)) \<longleftrightarrow>
      (\<exists>due. (due, svc) \<in> set (oc_timers ?r) \<and> due \<le> t')"
    by (auto simp: image_iff)
  with uniq tm have fired: "svc \<in> snd ` set (filter (\<lambda>(due, s). due \<le> t') (oc_timers ?r)) \<longleftrightarrow>
      now + d \<le> t'" by blast
  have "serviceRPCLocks c' svc = (if now + d \<le> t' then None else Some True)"
    using oc_invD(3) [OF oc_inv_fire [OF inv assms(4,5)], of svc] timers_owners [OF tm] fired
    unfolding owners_fire [OF inv assms(5)] by (simp del: set_filter)
  then show ?thesis by (simp add: enter_taken enter_fresh)
qed

lemma rpc_suppressed_for_duration_example:
  "(let c = SendIncomingRequestInfo_enter 1 None (NewOperatorClient 30) ''a'' ''web''
    in case fire_releases 33 (SendIncomingRequestInfo_return 3 (StatusCode 200) c ''a'' ''web'') of
         Panic m \<Rightarrow> False
       | Ret c' \<Rightarrow> length (oc_posts (SendIncomingRequestInfo_enter 33 None c' ''b'' ''web'')) = 2)"
proof -
  let ?c = "SendIncomingRequestInfo_enter 1 None (NewOperatorClient 30) ''a'' ''web''"
  let ?r = "SendIncomingRequestInfo_return 3 (StatusCode 200) ?c ''a'' ''web''"
  have c: "oc_reach 30 1 ?c" by (rule oc_reach.enter [OF oc_reach.new]) (rule order_refl)
  have run: "(''a'', ''web'') \<in> set (oc_running ?c)" by (simp add: enter_fresh NewOperatorClient_def)
  have inv: "oc_inv 30 3 ?r" using oc_inv_return [OF oc_reach_inv [OF c] _ run] by simp
  then obtain c' where c': "fire_releases 33 ?r = Ret c'" using fire_releases_eq by blast
  from fire_releases_eq [OF inv] c' have "oc_posts c' = oc_posts ?r" by auto
  then have "length (oc_posts c') = 1"
    by (simp add: SendIncomingRequestInfo_return_def SendIncomingRequestInfo_defer_def enter_fresh
        NewOperatorClient_def)
  then show ?thesis
    using rpc_suppressed_for_duration [OF c _ run _ c', of "''b''"] c' by simp
qed

end
