(* ===== verification/Semaphore.thy ===== *)
theory Semaphore
  imports Prelude
begin

text \<open>
  \<open>resolver/internal/throttler/semaphore.go\<close>: a counting semaphore kept in one atomic 64-bit word
  (capacity in the upper half, permits in use in the lower half) and a buffered channel of wake-up
  tokens. Every load, compare-and-swap and channel operation of \<open>acquire\<close> and \<open>release\<close> is one
  atomic step of a goroutine; \<open>sem_pc\<close> is the goroutine's position between two of them. The
  theory \<open>Breaker\<close> interleaves the steps of many goroutines.
  The locale \<open>permit_counter\<close> is the interface of the packed word: what the client needs to know
  about the two counters, without the bit-level encoding.
\<close>

unbundle bit_operations_syntax

section \<open>The packed state word\<close>

definition unpack :: "u64 \<Rightarrow> u64 \<times> u64" where
  "unpack x = (drop_bit 32 x, x AND 0xffffffff)"

definition pack :: "u64 \<Rightarrow> u64 \<Rightarrow> u64" where
  "pack left right = (push_bit 32 left OR right)"

record semaphore =
  sem_state :: u64
  sem_queue :: nat      \<comment> \<open>tokens buffered in the channel\<close>
  sem_queue_cap :: nat  \<comment> \<open>capacity of the channel\<close>

definition sem_capacity :: "u64 \<Rightarrow> nat" where
  "sem_capacity w = unat (fst (unpack w))"

definition sem_in :: "u64 \<Rightarrow> nat" where
  "sem_in w = unat (snd (unpack w))"

text \<open>The two values a compare-and-swap of \<open>acquire\<close> and of \<open>release\<close> writes.\<close>

definition state_take :: "u64 \<Rightarrow> u64" where
  "state_take old = (let (capacity, inn) = unpack old in pack capacity (inn + 1))"

definition state_give :: "u64 \<Rightarrow> u64" where
  "state_give old = (let (capacity, inn) = unpack old in pack capacity (inn - 1))"

section \<open>Operations\<close>

text \<open>One non-blocking send, \<open>select { case s.queue <- struct{}{}: default: }\<close>, with no receiver waiting.\<close>

definition poke :: "semaphore \<Rightarrow> semaphore" where
  "poke s = (if sem_queue s < sem_queue_cap s then s\<lparr>sem_queue := sem_queue s + 1\<rparr> else s)"

fun pokes :: "nat \<Rightarrow> semaphore \<Rightarrow> semaphore" where
  "pokes 0 s = s"
| "pokes (Suc n) s = pokes n (poke s)"

text \<open>
  \<open>updateCapacity\<close> is called by the constructor only, before the semaphore is shared, so its
  compare-and-swap succeeds at once.
\<close>

definition updateCapacity :: "semaphore \<Rightarrow> int \<Rightarrow> semaphore" where
  "updateCapacity s sz =
     (let s64 = word_of_int sz; (capacity, inn) = unpack (sem_state s)
      in if capacity = s64 then s
         else let s' = s\<lparr>sem_state := pack s64 inn\<rparr>
              in if s64 > capacity then pokes (unat (s64 - capacity)) s' else s')"

definition newSemaphore :: "int \<Rightarrow> int \<Rightarrow> semaphore go" where
  "newSemaphore maxCapacity initialCapacity =
     (if maxCapacity < 0 then Panic ''makechan: size out of range''
      else Ret (updateCapacity
                  \<lparr>sem_state = 0, sem_queue = 0, sem_queue_cap = nat maxCapacity\<rparr>
                  initialCapacity))"

definition Capacity :: "semaphore \<Rightarrow> int" where
  "Capacity s = sint (fst (unpack (sem_state s)))"

text \<open>
  Positions of a goroutine: about to load the word, at the \<open>select\<close>, parked in it, about to
  compare-and-swap against the loaded word, holding a permit; then the same for \<open>release\<close>,
  which panics when it loads a word with no permit in use.
\<close>

datatype sem_pc =
    AcqLoad | AcqSelect | AcqBlocked | AcqCAS u64 | AcqOk
  | RelLoad | RelCAS u64 | RelSend | RelOk | RelPanic

fun acquire_step :: "sem_pc \<Rightarrow> semaphore \<Rightarrow> (sem_pc \<times> semaphore) option" where
  "acquire_step AcqLoad s =
     (let old = sem_state s; (capacity, inn) = unpack old
      in Some (if inn \<ge> capacity then AcqSelect else AcqCAS old, s))"
| "acquire_step (AcqCAS old) s =
     Some (if sem_state s = old then (AcqOk, s\<lparr>sem_state := state_take old\<rparr>) else (AcqLoad, s))"
| "acquire_step _ s = None"

fun release_step :: "sem_pc \<Rightarrow> semaphore \<Rightarrow> (sem_pc \<times> semaphore) option" where
  "release_step RelLoad s =
     (let old = sem_state s; (capacity, inn) = unpack old
      in Some (if inn = 0 then RelPanic else RelCAS old, s))"
| "release_step (RelCAS old) s =
     (let (capacity, inn) = unpack old
      in Some (if sem_state s = old
               then (if inn - 1 < capacity then RelSend else RelOk, s\<lparr>sem_state := state_give old\<rparr>)
               else (RelLoad, s)))"
| "release_step _ s = None"

section \<open>The interface of the packed word\<close>

text \<open>
  Two counters, the capacity and the permits in use, and the two updates a compare-and-swap may
  publish. Taking a permit is only asked for when one is free, giving one back only when one is
  in use.
\<close>

locale permit_counter =
  fixes cap :: "'w \<Rightarrow> nat"
    and used :: "'w \<Rightarrow> nat"
    and take_permit :: "'w \<Rightarrow> 'w"
    and give_permit :: "'w \<Rightarrow> 'w"
  assumes cap_take: "used w < cap w \<Longrightarrow> cap (take_permit w) = cap w"
    and used_take: "used w < cap w \<Longrightarrow> used (take_permit w) = Suc (used w)"
    and cap_give: "0 < used w \<Longrightarrow> cap (give_permit w) = cap w"
    and used_give: "0 < used w \<Longrightarrow> used (give_permit w) = used w - 1"
begin

lemma take_within: "used w < cap w \<Longrightarrow> used (take_permit w) \<le> cap (take_permit w)"
  by (simp add: cap_take used_take)

lemma give_frees:
  "0 < used w \<Longrightarrow> used w \<le> cap w \<Longrightarrow> used (give_permit w) < cap (give_permit w)"
  by (simp add: cap_give used_give)

lemma give_take:
  assumes "used w < cap w"
  shows "used (give_permit (take_permit w)) = used w"
    and "cap (give_permit (take_permit w)) = cap w"
  using assms by (simp_all add: cap_take used_take cap_give used_give)

end

section \<open>Lemmas\<close>

lemma mask32: "(0xffffffff :: u64) = mask 32"
  by (simp add: mask_eq_exp_minus_1)

lemma take_bit_id: "unat (w :: u64) < 2 ^ 32 \<Longrightarrow> take_bit 32 w = w"
  by (rule word_unat_eq_iff [THEN iffD2]) (simp add: unsigned_take_bit_eq take_bit_nat_eq_self)

lemma take_bit_bound: "take_bit 32 (w :: u64) = w \<Longrightarrow> unat w < 2 ^ 32"
  by (metis take_bit_nat_less_exp unsigned_take_bit_eq)

lemma small_bit: "unat (l :: u64) < 2 ^ 32 \<Longrightarrow> bit l n \<Longrightarrow> n < 32"
  by (metis bit_take_bit_iff take_bit_id)

lemma unpack_pack:
  assumes "unat l < 2 ^ 32" "unat r < 2 ^ 32"
  shows "unpack (pack l r) = (l, r)"
proof -
  have "drop_bit 32 (push_bit 32 l OR r) = l"
    using small_bit [OF assms(1)] small_bit [OF assms(2)]
    by (intro bit_word_eqI) (auto simp: bit_simps)
  moreover have "(push_bit 32 l OR r) AND mask 32 = r"
    using small_bit [OF assms(2)]
    by (intro bit_word_eqI) (auto simp: bit_simps)
  ultimately show ?thesis unfolding unpack_def pack_def mask32 by simp
qed

lemma pack_unpack: "pack (fst (unpack w)) (snd (unpack w)) = w"
  unfolding unpack_def pack_def mask32 fst_conv snd_conv
  by (intro bit_word_eqI) (auto simp: bit_simps)

lemma unpack_fst_bound: "unat (fst (unpack w)) < 2 ^ 32"
proof (rule take_bit_bound)
  show "take_bit 32 (fst (unpack w)) = fst (unpack w)"
    unfolding unpack_def by (intro bit_word_eqI) (auto simp: bit_simps dest: bit_imp_le_length)
qed

lemma unpack_snd_bound: "unat (snd (unpack w)) < 2 ^ 32"
  by (rule take_bit_bound) (simp add: unpack_def mask32 flip: take_bit_eq_mask)

lemma sem_capacity_bound: "sem_capacity w < 2 ^ 32"
  using unpack_fst_bound by (simp add: sem_capacity_def)

lemma sem_counters_pack:
  assumes "unat l < 2 ^ 32" "unat r < 2 ^ 32"
  shows "sem_capacity (pack l r) = unat l" "sem_in (pack l r) = unat r"
  using unpack_pack [OF assms] by (simp_all add: sem_capacity_def sem_in_def)

lemma unat_Suc_small: "unat (w :: u64) < 2 ^ 32 \<Longrightarrow> unat (w + 1) = Suc (unat w)"
  by (simp add: unat_word_ariths)

lemma unat_pred_small: "0 < unat (w :: u64) \<Longrightarrow> unat (w - 1) = unat w - 1"
  by (metis unat_gt_0 unat_minus_one)

lemma state_take_counters:
  assumes "sem_in w < sem_capacity w"
  shows "sem_capacity (state_take w) = sem_capacity w" "sem_in (state_take w) = Suc (sem_in w)"
proof -
  obtain c n where cn: "unpack w = (c, n)" by (cases "unpack w")
  have c: "unat c < 2 ^ 32" and n: "unat n < 2 ^ 32" "unat n < unat c"
    using unpack_fst_bound [of w] unpack_snd_bound [of w] assms cn
    by (simp_all add: sem_capacity_def sem_in_def)
  have "unat (n + 1) = Suc (unat n)" by (rule unat_Suc_small [OF n(1)])
  with c n have "unat (n + 1) < 2 ^ 32" by linarith
  with c n cn show "sem_capacity (state_take w) = sem_capacity w"
    "sem_in (state_take w) = Suc (sem_in w)"
    using \<open>unat (n + 1) = Suc (unat n)\<close>
    by (simp_all add: state_take_def sem_counters_pack) (simp_all add: sem_capacity_def sem_in_def)
qed

lemma state_give_counters:
  assumes "0 < sem_in w"
  shows "sem_capacity (state_give w) = sem_capacity w" "sem_in (state_give w) = sem_in w - 1"
proof -
  obtain c n where cn: "unpack w = (c, n)" by (cases "unpack w")
  have c: "unat c < 2 ^ 32" and n: "unat n < 2 ^ 32" "0 < unat n"
    using unpack_fst_bound [of w] unpack_snd_bound [of w] assms cn
    by (simp_all add: sem_in_def)
  have p: "unat (n - 1) = unat n - 1" by (rule unat_pred_small [OF n(2)])
  with n have "unat (n - 1) < 2 ^ 32" by linarith
  with c cn p show "sem_capacity (state_give w) = sem_capacity w"
    "sem_in (state_give w) = sem_in w - 1"
    by (simp_all add: state_give_def sem_counters_pack) (simp_all add: sem_capacity_def sem_in_def)
qed

interpretation packed: permit_counter sem_capacity sem_in state_take state_give
  by unfold_locales (simp_all add: state_take_counters state_give_counters)

text \<open>The comparisons of the code, on the two counters.\<close>

lemma acquire_load_iff:
  "acquire_step AcqLoad s =
     Some (if sem_capacity (sem_state s) \<le> sem_in (sem_state s) then AcqSelect
           else AcqCAS (sem_state s), s)"
  by (simp add: Let_def case_prod_unfold sem_capacity_def sem_in_def word_le_nat_alt)

lemma release_load_iff:
  "release_step RelLoad s =
     Some (if sem_in (sem_state s) = 0 then RelPanic else RelCAS (sem_state s), s)"
  by (simp add: Let_def case_prod_unfold sem_in_def unat_eq_zero)

lemma release_cas_iff:
  assumes "0 < sem_in old"
  shows "release_step (RelCAS old) s =
     Some (if sem_state s = old
           then (if sem_in old \<le> sem_capacity old then RelSend else RelOk,
                 s\<lparr>sem_state := state_give old\<rparr>)
           else (RelLoad, s))"
proof -
  have "snd (unpack old) - 1 < fst (unpack old) \<longleftrightarrow> sem_in old \<le> sem_capacity old"
    using assms unat_pred_small [of "snd (unpack old)"]
    by (auto simp: word_less_nat_alt sem_in_def sem_capacity_def)
  then show ?thesis by (simp add: case_prod_unfold)
qed

subsection \<open>Construction\<close>

lemma poke_facts [simp]:
  "sem_state (poke s) = sem_state s" "sem_queue_cap (poke s) = sem_queue_cap s"
  "sem_queue s \<le> sem_queue_cap s \<Longrightarrow> sem_queue (poke s) = min (sem_queue_cap s) (sem_queue s + 1)"
  by (auto simp: poke_def)

lemma pokes_facts:
  "sem_state (pokes n s) = sem_state s \<and> sem_queue_cap (pokes n s) = sem_queue_cap s"
  by (induction n arbitrary: s) auto

lemma pokes_queue:
  "sem_queue s \<le> sem_queue_cap s \<Longrightarrow>
     sem_queue (pokes n s) = min (sem_queue_cap s) (sem_queue s + n)"
proof (induction n arbitrary: s)
  case 0
  then show ?case by simp
next
  case (Suc n)
  then have "sem_queue (pokes n (poke s)) = min (sem_queue_cap s) (sem_queue (poke s) + n)"
    by (simp add: Suc.IH)
  with Suc.prems show ?case by simp
qed

lemma unat_of_int_small:
  "0 \<le> x \<Longrightarrow> x < 2 ^ 32 \<Longrightarrow> unat (word_of_int x :: u64) = nat x"
  by (simp add: unat_eq_nat_uint uint_word_of_int)

lemma unpack_zero [simp]: "unpack 0 = (0, 0)"
  by (simp add: unpack_def)

lemma newSemaphore_facts:
  assumes "0 \<le> m" "0 \<le> c" "c < 2 ^ 32" "newSemaphore m c = Ret s"
  shows "sem_capacity (sem_state s) = nat c" "sem_in (sem_state s) = 0"
    "sem_queue_cap s = nat m" "sem_queue s = min (nat m) (nat c)"
proof -
  let ?s0 = "\<lparr>sem_state = 0, sem_queue = 0, sem_queue_cap = nat m\<rparr>"
  let ?w = "word_of_int c :: u64"
  have w: "unat ?w = nat c" using assms(2,3) by (rule unat_of_int_small)
  have s: "s = updateCapacity ?s0 c" using assms(1,4) by (simp add: newSemaphore_def)
  have "sem_capacity (sem_state s) = nat c \<and> sem_in (sem_state s) = 0 \<and>
      sem_queue_cap s = nat m \<and> sem_queue s = min (nat m) (nat c)"
  proof (cases "?w = 0")
    case True
    with w have "nat c = 0" by simp
    with True s show ?thesis by (simp add: updateCapacity_def sem_capacity_def sem_in_def)
  next
    case False
    then have "0 < ?w" by (simp add: word_gt_0)
    with False s have s': "s = pokes (nat c) (?s0\<lparr>sem_state := pack ?w 0\<rparr>)"
      by (simp add: updateCapacity_def w)
    have "unat ?w < 2 ^ 32" using assms(2,3) w by simp
    with s' show ?thesis by (simp add: pokes_facts pokes_queue sem_counters_pack w)
  qed
  then show "sem_capacity (sem_state s) = nat c" "sem_in (sem_state s) = 0"
    "sem_queue_cap s = nat m" "sem_queue s = min (nat m) (nat c)" by simp_all
qed

section \<open>The semaphore as two counters\<close>

text \<open>
  The same steps on a pair of natural numbers, the capacity and the permits in use. A compare-and-swap
  compares both numbers with those that were loaded.
\<close>

datatype counter_pc =
    CLoad | CSelect | CBlocked | CSwap nat nat | COk
  | GLoad | GSwap nat nat | GSend | GOk | GPanic

fun counter_acquire :: "counter_pc \<Rightarrow> nat \<times> nat \<Rightarrow> (counter_pc \<times> nat \<times> nat) option" where
  "counter_acquire CLoad (cap, used) = Some (if cap \<le> used then CSelect else CSwap cap used, (cap, used))"
| "counter_acquire (CSwap cap0 used0) (cap, used) =
     Some (if cap = cap0 \<and> used = used0 then (COk, (cap, used + 1)) else (CLoad, (cap, used)))"
| "counter_acquire _ x = None"

fun counter_release :: "counter_pc \<Rightarrow> nat \<times> nat \<Rightarrow> (counter_pc \<times> nat \<times> nat) option" where
  "counter_release GLoad (cap, used) = Some (if used = 0 then GPanic else GSwap cap used, (cap, used))"
| "counter_release (GSwap cap0 used0) (cap, used) =
     Some (if cap = cap0 \<and> used = used0 then (if used \<le> cap then GSend else GOk, (cap, used - 1))
           else (GLoad, (cap, used)))"
| "counter_release _ x = None"

fun abs_pc :: "sem_pc \<Rightarrow> counter_pc" where
  "abs_pc AcqLoad = CLoad" | "abs_pc AcqSelect = CSelect" | "abs_pc AcqBlocked = CBlocked"
| "abs_pc (AcqCAS old) = CSwap (sem_capacity old) (sem_in old)" | "abs_pc AcqOk = COk"
| "abs_pc RelLoad = GLoad" | "abs_pc (RelCAS old) = GSwap (sem_capacity old) (sem_in old)"
| "abs_pc RelSend = GSend" | "abs_pc RelOk = GOk" | "abs_pc RelPanic = GPanic"

definition counters :: "semaphore \<Rightarrow> nat \<times> nat" where
  "counters s = (sem_capacity (sem_state s), sem_in (sem_state s))"

definition abs_step :: "(sem_pc \<times> semaphore) option \<Rightarrow> (counter_pc \<times> nat \<times> nat) option" where
  "abs_step res = map_option (\<lambda>(pc, s). (abs_pc pc, counters s)) res"

text \<open>What a goroutine knows of the word it has loaded.\<close>

fun loaded_ok :: "sem_pc \<Rightarrow> bool" where
  "loaded_ok (AcqCAS old) = (sem_in old < sem_capacity old)"
| "loaded_ok (RelCAS old) = (0 < sem_in old)"
| "loaded_ok _ = True"

lemma word_eq_counters: "w = v \<longleftrightarrow> sem_capacity w = sem_capacity v \<and> sem_in w = sem_in v"
  by (metis pack_unpack sem_capacity_def sem_in_def word_unat_eq_iff)

lemma acquire_refines:
  "loaded_ok pc \<Longrightarrow> abs_step (acquire_step pc s) = counter_acquire (abs_pc pc) (counters s)"
  by (cases pc) (auto simp: abs_step_def counters_def acquire_load_iff word_eq_counters [of "sem_state s"]
      state_take_counters simp del: acquire_step.simps(1))

lemma release_refines:
  "loaded_ok pc \<Longrightarrow> abs_step (release_step pc s) = counter_release (abs_pc pc) (counters s)"
  by (cases pc) (auto simp: abs_step_def counters_def release_load_iff release_cas_iff
      word_eq_counters [of "sem_state s"] state_give_counters simp del: release_step.simps(1,2))

lemma loaded_ok_acquire: "acquire_step pc s = Some (pc', s') \<Longrightarrow> loaded_ok pc'"
  by (cases pc) (auto simp: acquire_load_iff simp del: acquire_step.simps(1) split: if_splits)

lemma loaded_ok_release: "loaded_ok pc \<Longrightarrow> release_step pc s = Some (pc', s') \<Longrightarrow> loaded_ok pc'"
  by (cases pc) (auto simp: release_load_iff release_cas_iff simp del: release_step.simps(1,2) split: if_splits)

section \<open>Properties\<close>

text \<open>The packed word is a faithful pair of 32-bit counters: packing what \<open>unpack\<close> returns
  gives the word back, and unpacking a packed pair gives the pair back exactly when both halves
  fit 32 bits (the condition the comment on \<open>pack\<close> leaves to the caller).\<close>

lemma pack_unpack_roundtrip:
  "pack (fst (unpack w)) (snd (unpack w)) = w \<and>
   (unpack (pack l r) = (l, r) \<longleftrightarrow> unat l < 2 ^ 32 \<and> unat r < 2 ^ 32)"
proof -
  have "unat l < 2 ^ 32 \<and> unat r < 2 ^ 32" if "unpack (pack l r) = (l, r)"
    using unpack_fst_bound [of "pack l r"] unpack_snd_bound [of "pack l r"] that by simp
  then show ?thesis using unpack_pack pack_unpack by blast
qed

text \<open>C18: the packed semaphore implements two counters: every atomic step of \<open>acquire\<close> and \<open>release\<close> on the
  64-bit word is the corresponding step on a pair of natural numbers, for whatever word another goroutine
  has published in the meantime, and the steps keep what the next one relies on.\<close>

theorem semaphore_refines_counters:
  assumes "loaded_ok pc"
  shows "abs_step (acquire_step pc s) = counter_acquire (abs_pc pc) (counters s) \<and>
    abs_step (release_step pc s) = counter_release (abs_pc pc) (counters s) \<and>
    (acquire_step pc s = Some (pc', s') \<or> release_step pc s = Some (pc', s') \<longrightarrow> loaded_ok pc')"
  using acquire_refines [OF assms] release_refines [OF assms] loaded_ok_acquire loaded_ok_release [OF assms] by blast

theorem semaphore_refines_counters_witness:
  "abs_step (acquire_step (AcqCAS (pack 3 1)) \<lparr>sem_state = pack 3 1, sem_queue = 0, sem_queue_cap = 1\<rparr>) =
     Some (COk, (3, 2))"
proof -
  have c: "sem_capacity (pack 3 1) = 3" "sem_in (pack 3 1) = 1" by (simp_all add: sem_counters_pack)
  then have "loaded_ok (AcqCAS (pack 3 1))" by simp
  from semaphore_refines_counters [OF this, of "\<lparr>sem_state = pack 3 1, sem_queue = 0, sem_queue_cap = 1\<rparr>"] c
  show ?thesis by (simp add: counters_def)
qed

end
