(* ===== verification/Breaker.thy ===== *)
theory Breaker
  imports Semaphore
begin

text \<open>
  \<open>resolver/internal/throttler/breaker.go\<close>: the admission control in front of a scaled-down
  service. \<open>Maybe\<close> first claims one of \<open>totalSlots\<close> in-flight slots with a compare-and-swap
  loop, then a permit of the semaphore, runs the thunk, and gives both back in reverse order.
  A state of the system is the shared breaker and, for every call of \<open>Maybe\<close>, the position of its
  goroutine and the error of its context; \<open>exec\<close> performs one atomic step of one goroutine (or one
  action of its environment), so a list of events is an interleaving and \<open>reachable\<close> ranges over
  all of them.
\<close>

section \<open>The breaker\<close>

record BreakerParams =
  QueueDepth :: int
  MaxConcurrency :: int
  InitialCapacity :: int

record Breaker =
  inFlight :: int
  totalSlots :: int
  maxConcurrency :: "16 word"
  sem :: semaphore

definition NewBreaker :: "BreakerParams \<Rightarrow> Breaker go" where
  "NewBreaker params =
     (case newSemaphore (MaxConcurrency params) (InitialCapacity params) of
        Panic m \<Rightarrow> Panic m
      | Ret s \<Rightarrow> Ret \<lparr>inFlight = 0,
                     totalSlots = wrap64 (QueueDepth params + MaxConcurrency params),
                     maxConcurrency = word_of_int (MaxConcurrency params),
                     sem = s\<rparr>)"

text \<open>
  Position of a goroutine inside \<open>Maybe\<close>. \<open>Sem AcqOk\<close> runs the thunk; \<open>SlotLoad r\<close> and
  \<open>SlotCAS r cur\<close> are the deferred \<open>releaseInFlightSlot\<close> of a call that will return \<open>r\<close>.
\<close>

datatype pc =
    TryLoad
  | TryCAS int
  | Sem sem_pc
  | SlotLoad "goerr option"
  | SlotCAS "goerr option" int
  | Returned "goerr option"

fun tryAcquireInFlightSlot_step :: "pc \<Rightarrow> Breaker \<Rightarrow> (pc \<times> Breaker) option" where
  "tryAcquireInFlightSlot_step TryLoad b =
     (let cur = inFlight b
      in Some (if cur \<ge> totalSlots b then Returned (Some ErrRequestQueueFull) else TryCAS cur, b))"
| "tryAcquireInFlightSlot_step (TryCAS cur) b =
     Some (if inFlight b = cur then (Sem AcqLoad, b\<lparr>inFlight := wrap64 (cur + 1)\<rparr>)
           else (TryLoad, b))"
| "tryAcquireInFlightSlot_step _ b = None"

text \<open>The loop of \<open>releaseInFlightSlot\<close> returns after its first compare-and-swap, whatever that did.\<close>

fun releaseInFlightSlot_step :: "pc \<Rightarrow> Breaker \<Rightarrow> (pc \<times> Breaker) option" where
  "releaseInFlightSlot_step (SlotLoad r) b = Some (SlotCAS r (inFlight b), b)"
| "releaseInFlightSlot_step (SlotCAS r cur) b =
     Some (Returned r, if inFlight b = cur then b\<lparr>inFlight := wrap64 (cur - 1)\<rparr> else b)"
| "releaseInFlightSlot_step _ b = None"

definition lift_sem :: "Breaker \<Rightarrow> (sem_pc \<times> semaphore) option \<Rightarrow> (pc \<times> Breaker) option" where
  "lift_sem b r = map_option (\<lambda>(p, s). (Sem p, b\<lparr>sem := s\<rparr>)) r"

fun Maybe_step :: "pc \<Rightarrow> Breaker \<Rightarrow> (pc \<times> Breaker) option" where
  "Maybe_step (Sem AcqLoad) b = lift_sem b (acquire_step AcqLoad (sem b))"
| "Maybe_step (Sem (AcqCAS old)) b = lift_sem b (acquire_step (AcqCAS old) (sem b))"
| "Maybe_step (Sem RelLoad) b = lift_sem b (release_step RelLoad (sem b))"
| "Maybe_step (Sem (RelCAS old)) b = lift_sem b (release_step (RelCAS old) (sem b))"
| "Maybe_step (Sem RelOk) b = Some (SlotLoad None, b)"
| "Maybe_step (Sem _) b = None"
| "Maybe_step TryLoad b = tryAcquireInFlightSlot_step TryLoad b"
| "Maybe_step (TryCAS cur) b = tryAcquireInFlightSlot_step (TryCAS cur) b"
| "Maybe_step (SlotLoad r) b = releaseInFlightSlot_step (SlotLoad r) b"
| "Maybe_step (SlotCAS r cur) b = releaseInFlightSlot_step (SlotCAS r cur) b"
| "Maybe_step (Returned r) b = None"

section \<open>Interleaved calls\<close>

record breaker_sys =
  brk :: Breaker
  pcs :: "pc list"
  ctxs :: "goerr option list"

datatype event =
    Spawn                \<comment> \<open>a new call of \<open>Maybe\<close>\<close>
  | Step nat             \<comment> \<open>the next load or compare-and-swap of a goroutine\<close>
  | ThunkDone nat        \<comment> \<open>the thunk returns\<close>
  | Recv nat             \<comment> \<open>\<open>select\<close> takes a buffered token\<close>
  | Park nat             \<comment> \<open>\<open>select\<close> finds nothing ready and parks\<close>
  | CtxBranch nat        \<comment> \<open>\<open>select\<close> takes \<open>ctx.Done()\<close>\<close>
  | Handoff nat nat      \<comment> \<open>a send meets a parked receiver\<close>
  | Buffer nat           \<comment> \<open>a send is buffered\<close>
  | Drop nat             \<comment> \<open>a send takes the default branch\<close>
  | Expire nat goerr     \<comment> \<open>a context is cancelled or its deadline passes\<close>

definition at_pc :: "breaker_sys \<Rightarrow> nat \<Rightarrow> pc \<Rightarrow> bool" where
  "at_pc s i p = (i < length (pcs s) \<and> pcs s ! i = p)"

definition goto :: "breaker_sys \<Rightarrow> nat \<Rightarrow> pc \<Rightarrow> breaker_sys" where
  "goto s i p = s\<lparr>pcs := (pcs s)[i := p]\<rparr>"

definition tokens :: "breaker_sys \<Rightarrow> nat" where
  "tokens s = sem_queue (sem (brk s))"

definition set_tokens :: "breaker_sys \<Rightarrow> nat \<Rightarrow> breaker_sys" where
  "set_tokens s n = s\<lparr>brk := (brk s)\<lparr>sem := (sem (brk s))\<lparr>sem_queue := n\<rparr>\<rparr>\<rparr>"

definition parked :: "breaker_sys \<Rightarrow> bool" where
  "parked s = (Sem AcqBlocked \<in> set (pcs s))"

fun exec :: "breaker_sys \<Rightarrow> event \<Rightarrow> breaker_sys option" where
  "exec s Spawn = Some (s\<lparr>pcs := pcs s @ [TryLoad], ctxs := ctxs s @ [None]\<rparr>)"
| "exec s (Step i) =
     (if i < length (pcs s) then
        (case Maybe_step (pcs s ! i) (brk s) of
           None \<Rightarrow> None
         | Some (p, b) \<Rightarrow> Some (goto (s\<lparr>brk := b\<rparr>) i p))
      else None)"
| "exec s (ThunkDone i) =
     (if at_pc s i (Sem AcqOk) then Some (goto s i (Sem RelLoad)) else None)"
| "exec s (Recv i) =
     (if at_pc s i (Sem AcqSelect) \<and> 0 < tokens s
      then Some (goto (set_tokens s (tokens s - 1)) i (Sem AcqLoad)) else None)"
| "exec s (Park i) =
     (if at_pc s i (Sem AcqSelect) \<and> tokens s = 0 \<and> i < length (ctxs s) \<and> ctxs s ! i = None
      then Some (goto s i (Sem AcqBlocked)) else None)"
| "exec s (CtxBranch i) =
     (if (at_pc s i (Sem AcqSelect) \<or> at_pc s i (Sem AcqBlocked)) \<and> i < length (ctxs s) then
        (case ctxs s ! i of
           None \<Rightarrow> None
         | Some e \<Rightarrow> Some (goto s i (SlotLoad (Some (Wrap ''acquire'' e)))))
      else None)"
| "exec s (Handoff i j) =
     (if at_pc s i (Sem RelSend) \<and> at_pc s j (Sem AcqBlocked)
      then Some (goto (goto s j (Sem AcqLoad)) i (Sem RelOk)) else None)"
| "exec s (Buffer i) =
     (if at_pc s i (Sem RelSend) \<and> \<not> parked s \<and> tokens s < sem_queue_cap (sem (brk s))
      then Some (goto (set_tokens s (tokens s + 1)) i (Sem RelOk)) else None)"
| "exec s (Drop i) =
     (if at_pc s i (Sem RelSend) \<and> \<not> parked s \<and> \<not> tokens s < sem_queue_cap (sem (brk s))
      then Some (goto s i (Sem RelOk)) else None)"
| "exec s (Expire i e) =
     (if i < length (ctxs s) \<and> ctxs s ! i = None \<and> (e = DeadlineExceeded \<or> e = Canceled)
      then Some (s\<lparr>ctxs := (ctxs s)[i := Some e]\<rparr>) else None)"

fun run :: "breaker_sys \<Rightarrow> event list \<Rightarrow> breaker_sys option" where
  "run s [] = Some s"
| "run s (e # es) = (case exec s e of None \<Rightarrow> None | Some t \<Rightarrow> run t es)"

definition init_sys :: "Breaker \<Rightarrow> breaker_sys" where
  "init_sys b = \<lparr>brk = b, pcs = [], ctxs = []\<rparr>"

inductive reachable :: "Breaker \<Rightarrow> breaker_sys \<Rightarrow> bool" for b where
  start: "reachable b (init_sys b)"
| step: "reachable b s \<Longrightarrow> exec s e = Some t \<Longrightarrow> reachable b t"

section \<open>What the goroutines hold\<close>

text \<open>Which positions hold a semaphore permit, and which hold an in-flight slot.\<close>

fun holding :: "pc \<Rightarrow> bool" where
  "holding (Sem AcqOk) = True"
| "holding (Sem RelLoad) = True"
| "holding (Sem (RelCAS old)) = True"
| "holding _ = False"

fun inside :: "pc \<Rightarrow> bool" where
  "inside (Sem p) = True"
| "inside (SlotLoad r) = True"
| "inside (SlotCAS r cur) = True"
| "inside _ = False"

fun waiting :: "pc \<Rightarrow> bool" where
  "waiting (Sem AcqSelect) = True"
| "waiting (Sem AcqBlocked) = True"
| "waiting _ = False"

text \<open>Positions from which a goroutine moves on by itself and then holds, or passes on, a wake-up.\<close>

fun active :: "pc \<Rightarrow> bool" where
  "active (Sem AcqLoad) = True"
| "active (Sem (AcqCAS old)) = True"
| "active (Sem AcqOk) = True"
| "active (Sem RelLoad) = True"
| "active (Sem (RelCAS old)) = True"
| "active (Sem RelSend) = True"
| "active _ = False"

definition num :: "(pc \<Rightarrow> bool) \<Rightarrow> breaker_sys \<Rightarrow> nat" where
  "num P s = length (filter P (pcs s))"

definition in_thunk :: "pc \<Rightarrow> bool" where
  "in_thunk p = (p = Sem AcqOk)"

fun pc_ok :: "int \<Rightarrow> pc \<Rightarrow> bool" where
  "pc_ok T (TryCAS cur) = (cur < T)"
| "pc_ok T (Sem (AcqCAS old)) = (sem_in old < sem_capacity old)"
| "pc_ok T (Sem (RelCAS old)) = (0 < sem_in old)"
| "pc_ok T (Sem RelPanic) = False"
| "pc_ok T _ = True"

text \<open>
  The invariant of the shared breaker, in terms of the number \<open>h\<close> of goroutines that hold a
  permit and the number \<open>k\<close> of those that hold a slot. A slot may leak, so \<open>inFlight\<close> only
  bounds \<open>k\<close> from above.
\<close>

definition core_inv :: "nat \<Rightarrow> int \<Rightarrow> Breaker \<Rightarrow> nat \<Rightarrow> nat \<Rightarrow> bool" where
  "core_inv C T b h k =
     (sem_capacity (sem_state (sem b)) = C \<and> sem_in (sem_state (sem b)) = h \<and> h \<le> C \<and>
      totalSlots b = T \<and> int k \<le> inFlight b \<and> inFlight b \<le> T)"

definition breaker_inv :: "nat \<Rightarrow> int \<Rightarrow> breaker_sys \<Rightarrow> bool" where
  "breaker_inv C T s =
     (core_inv C T (brk s) (num holding s) (num inside s) \<and>
      (\<forall>p \<in> set (pcs s). pc_ok T p) \<and> length (ctxs s) = length (pcs s))"

text \<open>The parameters the program is meant to be started with (no sign or width is lost).\<close>

definition params_ok :: "BreakerParams \<Rightarrow> bool" where
  "params_ok P =
     (0 \<le> QueueDepth P \<and> 0 \<le> MaxConcurrency P \<and> QueueDepth P + MaxConcurrency P < 2 ^ 63 \<and>
      0 \<le> InitialCapacity P \<and> InitialCapacity P < 2 ^ 32)"

definition wake_inv :: "breaker_sys \<Rightarrow> bool" where
  "wake_inv s =
     (0 < sem_queue_cap (sem (brk s)) \<and>
      (parked s \<longrightarrow> tokens s = 0) \<and>
      ((\<exists>p \<in> set (pcs s). waiting p) \<longrightarrow> 0 < tokens s \<or> (\<exists>p \<in> set (pcs s). active p)))"

section \<open>Counting positions\<close>

lemma length_filter_update:
  "i < length xs \<Longrightarrow>
     length (filter P (xs[i := y])) + of_bool (P (xs ! i)) = length (filter P xs) + of_bool (P y)"
proof (induction xs arbitrary: i)
  case Nil
  then show ?case by simp
next
  case (Cons x xs)
  then show ?case by (cases i) auto
qed

lemma length_filter_le: "(\<And>x. P x \<Longrightarrow> Q x) \<Longrightarrow> length (filter P xs) \<le> length (filter Q xs)"
  by (induction xs) auto

lemma num_goto:
  "i < length (pcs s) \<Longrightarrow> num P (goto s i p) + of_bool (P (pcs s ! i)) = num P s + of_bool (P p)"
  by (simp add: num_def goto_def length_filter_update)

lemma num_pos: "i < length (pcs s) \<Longrightarrow> P (pcs s ! i) \<Longrightarrow> 0 < num P s"
  unfolding num_def by (metis filter_empty_conv length_greater_0_conv nth_mem)

lemma num_mono: "(\<And>p. P p \<Longrightarrow> Q p) \<Longrightarrow> num P s \<le> num Q s"
  unfolding num_def by (rule length_filter_le)

lemma goto_simps [simp]:
  "brk (goto s i p) = brk s" "ctxs (goto s i p) = ctxs s"
  "pcs (goto s i p) = (pcs s)[i := p]" "tokens (goto s i p) = tokens s"
  by (simp_all add: goto_def tokens_def)

lemma set_tokens_simps [simp]:
  "pcs (set_tokens s n) = pcs s" "ctxs (set_tokens s n) = ctxs s" "tokens (set_tokens s n) = n"
  "sem_state (sem (brk (set_tokens s n))) = sem_state (sem (brk s))"
  "sem_queue_cap (sem (brk (set_tokens s n))) = sem_queue_cap (sem (brk s))"
  "inFlight (brk (set_tokens s n)) = inFlight (brk s)"
  "totalSlots (brk (set_tokens s n)) = totalSlots (brk s)"
  "num P (set_tokens s n) = num P s"
  by (simp_all add: set_tokens_def tokens_def num_def)

section \<open>The invariant is kept\<close>

lemma core_inv_set_tokens [simp]:
  "core_inv C T (brk (set_tokens s n)) h k = core_inv C T (brk s) h k"
  by (simp add: core_inv_def)

lemma Maybe_step_core:
  assumes "core_inv C T b h k" "pc_ok T p" "Maybe_step p b = Some (p', b')"
    and "holding p \<Longrightarrow> 0 < h" "inside p \<Longrightarrow> 0 < k" "T < 2 ^ 63"
  shows "pc_ok T p' \<and>
    core_inv C T b' (h + of_bool (holding p') - of_bool (holding p))
                    (k + of_bool (inside p') - of_bool (inside p))"
  using assms
proof (induction p b rule: Maybe_step.induct)
  case (1 b)
  then show ?case
    by (auto simp: lift_sem_def acquire_load_iff core_inv_def simp del: acquire_step.simps
        split: if_splits)
next
  case (2 old b)
  then show ?case
    by (auto simp: lift_sem_def core_inv_def packed.cap_take packed.used_take split: if_splits)
next
  case (3 b)
  then show ?case
    by (auto simp: lift_sem_def release_load_iff core_inv_def simp del: release_step.simps
        split: if_splits)
next
  case (4 old b)
  then have "0 < sem_in old" by simp
  with 4 show ?case
    by (auto simp: lift_sem_def release_cas_iff core_inv_def packed.cap_give packed.used_give
        simp del: release_step.simps split: if_splits)
qed (auto simp: core_inv_def wrap64_id Let_def split: if_splits)

text \<open>The same for a step that only moves a goroutine between positions.\<close>

lemma goto_inv:
  assumes inv: "breaker_inv C T s" and i: "i < length (pcs s)"
    and core: "core_inv C T (brk t)
        (num holding s + of_bool (holding p) - of_bool (holding (pcs s ! i)))
        (num inside s + of_bool (inside p) - of_bool (inside (pcs s ! i)))"
    and ok: "pc_ok T p" and t: "pcs t = pcs s" "ctxs t = ctxs s"
  shows "breaker_inv C T (goto t i p)"
proof -
  have "num P (goto t i p) = num P s + of_bool (P p) - of_bool (P (pcs s ! i))" for P
    using num_goto [of i t P p] i t by (simp add: num_def)
  moreover have "\<forall>q \<in> set ((pcs s)[i := p]). pc_ok T q"
    using inv ok set_update_subset_insert [of "pcs s" i p] by (auto simp: breaker_inv_def)
  ultimately show ?thesis using inv core t by (simp add: breaker_inv_def)
qed

lemma goto_same:
  assumes "breaker_inv C T s" "at_pc s i q" "holding p = holding q" "inside p = inside q"
    "pc_ok T p" "pcs t = pcs s" "ctxs t = ctxs s"
    "\<And>h k. core_inv C T (brk t) h k = core_inv C T (brk s) h k"
  shows "breaker_inv C T (goto t i p)"
  using assms by (intro goto_inv [of C T s]) (auto simp: at_pc_def breaker_inv_def)

lemma breaker_inv_Step:
  assumes inv: "breaker_inv C T s" and "exec s (Step i) = Some t" and T: "T < 2 ^ 63"
  shows "breaker_inv C T t"
proof -
  from assms(2) obtain p b where i: "i < length (pcs s)"
    and st: "Maybe_step (pcs s ! i) (brk s) = Some (p, b)" and t: "t = goto (s\<lparr>brk := b\<rparr>) i p"
    by (auto split: if_splits option.splits)
  have core: "core_inv C T (brk s) (num holding s) (num inside s)" and ok: "pc_ok T (pcs s ! i)"
    using inv i by (auto simp: breaker_inv_def)
  have pos: "holding (pcs s ! i) \<Longrightarrow> 0 < num holding s" "inside (pcs s ! i) \<Longrightarrow> 0 < num inside s"
    using num_pos [OF i] by blast+
  show ?thesis unfolding t
    using Maybe_step_core [OF core ok st pos T] by (intro goto_inv [OF inv i]) auto
qed

lemma breaker_inv_exec:
  assumes "breaker_inv C T s" "exec s e = Some t" "T < 2 ^ 63"
  shows "breaker_inv C T t"
proof (cases e)
  case (Step i)
  with assms show ?thesis using breaker_inv_Step by blast
next
  case (CtxBranch i)
  with assms obtain q r where "at_pc s i q" "q = Sem AcqSelect \<or> q = Sem AcqBlocked"
    and t: "t = goto s i (SlotLoad r)"
    by (auto split: if_splits option.splits)
  then show ?thesis unfolding t
    by (intro goto_same [OF assms(1), of i q]) auto
next
  case (Handoff i j)
  with assms have i: "at_pc s i (Sem RelSend)" and j: "at_pc s j (Sem AcqBlocked)"
    and t: "t = goto (goto s j (Sem AcqLoad)) i (Sem RelOk)" by (auto split: if_splits)
  have inv: "breaker_inv C T (goto s j (Sem AcqLoad))"
    by (rule goto_same [OF assms(1) j]) auto
  have "at_pc (goto s j (Sem AcqLoad)) i (Sem RelSend)"
    using i j by (auto simp: at_pc_def nth_list_update)
  then show ?thesis unfolding t by (rule goto_same [OF inv]) auto
next
  case (ThunkDone i)
  with assms show ?thesis
    by (auto split: if_splits intro!: goto_same [of C T s i "Sem AcqOk"])
next
  case (Recv i)
  with assms show ?thesis
    by (auto split: if_splits intro!: goto_same [of C T s i "Sem AcqSelect"])
next
  case (Park i)
  with assms show ?thesis
    by (auto split: if_splits intro!: goto_same [of C T s i "Sem AcqSelect"])
next
  case (Buffer i)
  with assms show ?thesis
    by (auto split: if_splits intro!: goto_same [of C T s i "Sem RelSend"])
next
  case (Drop i)
  with assms show ?thesis
    by (auto split: if_splits intro!: goto_same [of C T s i "Sem RelSend"])
qed (use assms in \<open>auto simp: breaker_inv_def num_def split: if_splits\<close>)

section \<open>No wake-up is lost\<close>

lemma holding_active: "holding p \<Longrightarrow> active p"
  by (induction p rule: holding.induct) auto

lemma ex_update:
  "i < length xs \<Longrightarrow>
     (\<exists>p \<in> set (xs[i := y]). P p) \<longleftrightarrow> P y \<or> (\<exists>j < length xs. j \<noteq> i \<and> P (xs ! j))"
proof -
  assume i: "i < length xs"
  have "(\<exists>p \<in> set (xs[i := y]). P p) \<longleftrightarrow> (\<exists>j < length xs. P (xs[i := y] ! j))"
    by (metis in_set_conv_nth length_list_update)
  then show ?thesis using i by (auto simp: nth_list_update)
qed

lemma Maybe_step_wake:
  assumes "core_inv C T b h k" "pc_ok T p" "Maybe_step p b = Some (p', b')" "0 < C"
    and "holding p \<Longrightarrow> 0 < h"
  shows "p' \<noteq> Sem AcqBlocked \<and> sem_queue (sem b') = sem_queue (sem b) \<and>
    sem_queue_cap (sem b') = sem_queue_cap (sem b) \<and>
    (active p' \<or> \<not> active p \<and> \<not> waiting p' \<or> 0 < h \<and> \<not> holding p)"
  using assms
proof (induction p b rule: Maybe_step.induct)
  case (1 b)
  then show ?case
    by (auto simp: lift_sem_def acquire_load_iff core_inv_def simp del: acquire_step.simps
        split: if_splits)
next
  case (3 b)
  then show ?case
    by (auto simp: lift_sem_def release_load_iff core_inv_def simp del: release_step.simps
        split: if_splits)
next
  case (4 old b)
  then have "0 < sem_in old" by simp
  with 4 show ?case
    by (auto simp: lift_sem_def release_cas_iff core_inv_def
        simp del: release_step.simps split: if_splits)
qed (auto simp: lift_sem_def core_inv_def Let_def split: if_splits)

lemma goto_wake:
  assumes "wake_inv s" "i < length (pcs s)" "pcs t = pcs s" "tokens t = tokens s"
    "sem_queue_cap (sem (brk t)) = sem_queue_cap (sem (brk s))" "p \<noteq> Sem AcqBlocked"
    "active p \<or> \<not> active (pcs s ! i) \<and> \<not> waiting p \<or>
     (\<exists>j < length (pcs s). j \<noteq> i \<and> active (pcs s ! j))"
  shows "wake_inv (goto t i p)"
proof -
  have "parked (goto t i p) \<Longrightarrow> parked s"
    using assms(3,6) set_update_subset_insert [of "pcs s" i p] by (auto simp: parked_def)
  then show ?thesis
    using assms unfolding wake_inv_def goto_simps assms(3,4,5) ex_update [OF assms(2)]
    by (metis in_set_conv_nth)
qed

text \<open>The three kinds of events that need an argument: a step, parking, and handing a token over.\<close>

lemma wake_inv_step:
  assumes w: "wake_inv s" and inv: "breaker_inv C T s" and C: "0 < C" and i: "i < length (pcs s)"
    and st: "Maybe_step (pcs s ! i) (brk s) = Some (p, b)"
  shows "wake_inv (goto (s\<lparr>brk := b\<rparr>) i p)"
proof -
  have core: "core_inv C T (brk s) (num holding s) (num inside s)" and ok: "pc_ok T (pcs s ! i)"
    using inv i by (auto simp: breaker_inv_def)
  have "holding (pcs s ! i) \<Longrightarrow> 0 < num holding s" using num_pos [OF i] by blast
  note m = Maybe_step_wake [OF core ok st C this]
  have "\<exists>j < length (pcs s). j \<noteq> i \<and> active (pcs s ! j)"
    if "0 < num holding s" "\<not> holding (pcs s ! i)"
    using that holding_active unfolding num_def
    by (metis filter_False in_set_conv_nth length_greater_0_conv)
  with m show ?thesis
    by (intro goto_wake [OF w i]) (auto simp: tokens_def)
qed

lemma wake_inv_park:
  assumes w: "wake_inv s" and i: "i < length (pcs s)" "pcs s ! i = Sem AcqSelect" "tokens s = 0"
  shows "wake_inv (goto s i (Sem AcqBlocked))"
proof -
  have "\<exists>p \<in> set (pcs s). waiting p" using i by (metis nth_mem waiting.simps(1))
  with w i have "\<exists>p \<in> set (pcs s). active p" by (auto simp: wake_inv_def)
  then obtain j where "j < length (pcs s)" "active (pcs s ! j)" by (metis in_set_conv_nth)
  moreover from this i have "j \<noteq> i" by auto
  ultimately have "\<exists>j < length (pcs s). j \<noteq> i \<and> active (pcs s ! j)" by blast
  with w i show ?thesis unfolding wake_inv_def goto_simps ex_update [OF i(1)] by simp
qed

lemma wake_inv_handoff:
  assumes w: "wake_inv s" and i: "i < length (pcs s)" "pcs s ! i = Sem RelSend"
    and j: "j < length (pcs s)" "pcs s ! j = Sem AcqBlocked"
  shows "wake_inv (goto (goto s j (Sem AcqLoad)) i (Sem RelOk))"
proof -
  have "j \<noteq> i" using i j by auto
  have "wake_inv (goto s j (Sem AcqLoad))" by (rule goto_wake [OF w j(1)]) auto
  then show ?thesis
  proof (rule goto_wake)
    show "active (Sem RelOk) \<or>
        \<not> active (pcs (goto s j (Sem AcqLoad)) ! i) \<and> \<not> waiting (Sem RelOk) \<or>
        (\<exists>k < length (pcs (goto s j (Sem AcqLoad))). k \<noteq> i \<and>
           active (pcs (goto s j (Sem AcqLoad)) ! k))"
      using \<open>j \<noteq> i\<close> j by (auto intro!: exI [of _ j])
  qed (use i in auto)
qed

lemma wake_inv_exec:
  assumes w: "wake_inv s" and inv: "breaker_inv C T s" and ex: "exec s e = Some t"
    and C: "0 < C"
  shows "wake_inv t"
proof (cases e)
  case (Step i)
  with ex show ?thesis
    by (auto split: if_splits option.splits intro: wake_inv_step [OF w inv C])
next
  case (ThunkDone i)
  with ex show ?thesis by (auto simp: at_pc_def split: if_splits intro!: goto_wake [OF w])
next
  case (Recv i)
  with ex w show ?thesis
    by (auto simp: at_pc_def wake_inv_def parked_def ex_update split: if_splits
        dest!: set_update_subset_insert [THEN subsetD])
next
  case (Park i)
  with ex show ?thesis by (auto simp: at_pc_def split: if_splits intro: wake_inv_park [OF w])
next
  case (CtxBranch i)
  with ex show ?thesis
    by (auto simp: at_pc_def split: if_splits option.splits intro!: goto_wake [OF w])
next
  case (Handoff i j)
  with ex show ?thesis by (auto simp: at_pc_def split: if_splits intro: wake_inv_handoff [OF w])
next
  case (Buffer i)
  with ex w show ?thesis
    by (auto simp: at_pc_def wake_inv_def parked_def split: if_splits
        dest!: set_update_subset_insert [THEN subsetD])
next
  case (Drop i)
  with ex w show ?thesis
    by (auto simp: at_pc_def wake_inv_def parked_def split: if_splits
        dest!: set_update_subset_insert [THEN subsetD])
qed (use ex w in \<open>auto simp: wake_inv_def parked_def tokens_def split: if_splits\<close>)

section \<open>Reachable states\<close>

lemma NewBreaker_facts:
  assumes "params_ok P" "NewBreaker P = Ret b"
  shows "core_inv (nat (InitialCapacity P)) (QueueDepth P + MaxConcurrency P) b 0 0"
    and "sem_queue_cap (sem b) = nat (MaxConcurrency P)" "inFlight b = 0"
    and "totalSlots b = QueueDepth P + MaxConcurrency P"
proof -
  have P: "0 \<le> MaxConcurrency P" "0 \<le> InitialCapacity P" "InitialCapacity P < 2 ^ 32"
    "0 \<le> QueueDepth P" "QueueDepth P + MaxConcurrency P < 2 ^ 63"
    using assms(1) by (simp_all add: params_ok_def)
  from assms(2) obtain s where s: "newSemaphore (MaxConcurrency P) (InitialCapacity P) = Ret s"
    and b: "b = \<lparr>inFlight = 0, totalSlots = wrap64 (QueueDepth P + MaxConcurrency P),
      maxConcurrency = word_of_int (MaxConcurrency P), sem = s\<rparr>"
    by (auto simp: NewBreaker_def split: go.splits)
  note f = newSemaphore_facts [OF P(1,2,3) s]
  show "core_inv (nat (InitialCapacity P)) (QueueDepth P + MaxConcurrency P) b 0 0"
    "sem_queue_cap (sem b) = nat (MaxConcurrency P)" "inFlight b = 0"
    "totalSlots b = QueueDepth P + MaxConcurrency P"
    using b f P by (simp_all add: core_inv_def wrap64_id)
qed

lemma NewBreaker_Ret: "params_ok P \<Longrightarrow> \<exists>b. NewBreaker P = Ret b"
  by (simp add: params_ok_def NewBreaker_def newSemaphore_def)

lemma reachable_breaker_inv:
  assumes "reachable b s" "params_ok P" "NewBreaker P = Ret b"
  shows "breaker_inv (nat (InitialCapacity P)) (QueueDepth P + MaxConcurrency P) s"
  using assms(1)
proof (induction rule: reachable.induct)
  case start
  then show ?case
    using NewBreaker_facts [OF assms(2,3)] by (simp add: breaker_inv_def init_sys_def num_def)
next
  case (step s e t)
  with assms(2) show ?case by (auto intro: breaker_inv_exec simp: params_ok_def)
qed

lemma reachable_wake_inv:
  assumes "reachable b s" "params_ok P" "NewBreaker P = Ret b"
    and "0 < InitialCapacity P" "0 < MaxConcurrency P"
  shows "wake_inv s"
  using assms(1)
proof (induction rule: reachable.induct)
  case start
  then show ?case
    using NewBreaker_facts [OF assms(2,3)] assms(5)
    by (simp add: wake_inv_def init_sys_def parked_def)
next
  case (step s e t)
  show ?case
    by (rule wake_inv_exec [OF step.IH reachable_breaker_inv [OF step.hyps(1) assms(2,3)]
          step.hyps(2)]) (use assms(4) in simp)
qed

lemma run_reachable: "run s es = Some t \<Longrightarrow> reachable b s \<Longrightarrow> reachable b t"
  by (induction es arbitrary: s) (auto split: option.splits intro: reachable.step)

lemma run_append:
  "run s (es @ fs) = (case run s es of None \<Rightarrow> None | Some t \<Rightarrow> run t fs)"
  by (induction es arbitrary: s) (auto split: option.splits)

text \<open>A goroutine that is neither waiting nor finished always has a step of its own.\<close>

definition own_events :: "nat \<Rightarrow> event set" where
  "own_events i = {Step i, ThunkDone i, Buffer i, Drop i} \<union> range (Handoff i)"

lemma active_enabled:
  assumes i: "i < length (pcs s)" "active (pcs s ! i)"
  shows "\<exists>e \<in> own_events i. \<exists>t. exec s e = Some t"
proof (cases "pcs s ! i = Sem RelSend")
  case True
  show ?thesis
  proof (cases "parked s")
    case True
    then obtain j where "at_pc s j (Sem AcqBlocked)"
      by (auto simp: parked_def at_pc_def in_set_conv_nth)
    with \<open>pcs s ! i = Sem RelSend\<close> i have "\<exists>t. exec s (Handoff i j) = Some t"
      by (simp add: at_pc_def)
    moreover have "Handoff i j \<in> own_events i" by (simp add: own_events_def)
    ultimately show ?thesis by blast
  next
    case False
    with \<open>pcs s ! i = Sem RelSend\<close> i
    have "(\<exists>t. exec s (Buffer i) = Some t) \<or> (\<exists>t. exec s (Drop i) = Some t)"
      by (auto simp: at_pc_def)
    moreover have "Buffer i \<in> own_events i" "Drop i \<in> own_events i"
      by (simp_all add: own_events_def)
    ultimately show ?thesis by blast
  qed
next
  case False
  then have "(\<exists>t. exec s (Step i) = Some t) \<or> (\<exists>t. exec s (ThunkDone i) = Some t)"
    using i by (cases "pcs s ! i" rule: active.cases)
      (auto simp: at_pc_def lift_sem_def Let_def split: prod.splits)
  moreover have "Step i \<in> own_events i" "ThunkDone i \<in> own_events i"
    by (simp_all add: own_events_def)
  ultimately show ?thesis by blast
qed

text \<open>A further call gets into its thunk as long as a slot and a permit are free.\<close>

lemma enter_one:
  assumes core: "core_inv C T (brk s) h k" and lt: "h < C" "inFlight (brk s) < T" "T < 2 ^ 63"
    and pos: "0 \<le> inFlight (brk s)"
  shows "\<exists>t. run s [Spawn, Step (length (pcs s)), Step (length (pcs s)), Step (length (pcs s)),
      Step (length (pcs s))] = Some t \<and> pcs t = pcs s @ [Sem AcqOk] \<and>
      core_inv C T (brk t) (Suc h) (Suc k) \<and> inFlight (brk t) = inFlight (brk s) + 1"
  using assms
  by (auto simp: core_inv_def lift_sem_def acquire_load_iff Let_def packed.cap_take packed.used_take
      goto_def wrap64_id simp del: acquire_step.simps(1))

lemma enter_many:
  assumes "params_ok P" "NewBreaker P = Ret b"
    and "int k \<le> InitialCapacity P" "int k \<le> QueueDepth P + MaxConcurrency P"
  shows "\<exists>s. reachable b s \<and> pcs s = replicate k (Sem AcqOk) \<and> inFlight (brk s) = int k \<and>
    core_inv (nat (InitialCapacity P)) (QueueDepth P + MaxConcurrency P) (brk s) k k"
  using assms(3,4)
proof (induction k)
  case 0
  have "reachable b (init_sys b)" by (rule reachable.start)
  then show ?case
    using NewBreaker_facts [OF assms(1,2)] by (auto simp: init_sys_def intro!: exI [of _ "init_sys b"])
next
  case (Suc k)
  then obtain s where s: "reachable b s" "pcs s = replicate k (Sem AcqOk)" "inFlight (brk s) = int k"
    "core_inv (nat (InitialCapacity P)) (QueueDepth P + MaxConcurrency P) (brk s) k k"
    by force
  have lt: "k < nat (InitialCapacity P)" "inFlight (brk s) < QueueDepth P + MaxConcurrency P"
    "QueueDepth P + MaxConcurrency P < 2 ^ 63" "0 \<le> inFlight (brk s)"
    using assms(1) s(3) Suc.prems by (simp_all add: params_ok_def)
  obtain t es where "run s es = Some t" "pcs t = pcs s @ [Sem AcqOk]"
    "core_inv (nat (InitialCapacity P)) (QueueDepth P + MaxConcurrency P) (brk t) (Suc k) (Suc k)"
    "inFlight (brk t) = inFlight (brk s) + 1"
    using enter_one [OF s(4) lt] by blast
  with s show ?case
    by (auto simp: replicate_append_same intro: run_reachable intro!: exI [of _ t])
qed

section \<open>Properties\<close>

text \<open>C2: under every interleaving of any number of calls, at most \<open>InitialCapacity\<close> thunks run at
  the same time, at most \<open>QueueDepth + MaxConcurrency\<close> calls are inside \<open>Maybe\<close>, \<open>inFlight\<close> stays
  between the number of calls inside and that limit (so it neither wraps nor goes negative), and
  \<open>release\<close> never panics.\<close>

theorem breaker_limits:
  assumes "params_ok P" "NewBreaker P = Ret b" "reachable b s"
  shows "int (num in_thunk s) \<le> InitialCapacity P \<and>
    int (num inside s) \<le> inFlight (brk s) \<and>
    inFlight (brk s) \<le> QueueDepth P + MaxConcurrency P \<and>
    Sem RelPanic \<notin> set (pcs s)"
proof -
  have inv: "breaker_inv (nat (InitialCapacity P)) (QueueDepth P + MaxConcurrency P) s"
    using assms by (blast intro: reachable_breaker_inv)
  have "num in_thunk s \<le> num holding s" by (rule num_mono) (auto simp: in_thunk_def)
  with inv assms(1) show ?thesis
    by (auto simp: breaker_inv_def core_inv_def params_ok_def)
qed

theorem breaker_limits_witness:
  "\<exists>b s. NewBreaker \<lparr>QueueDepth = 1, MaxConcurrency = 1, InitialCapacity = 2\<rparr> = Ret b \<and>
     reachable b s \<and> int (num in_thunk s) \<le> 2 \<and> int (num inside s) \<le> inFlight (brk s) \<and>
     inFlight (brk s) \<le> 2 \<and> Sem RelPanic \<notin> set (pcs s)"
proof -
  let ?P = "\<lparr>QueueDepth = 1, MaxConcurrency = 1, InitialCapacity = 2\<rparr>"
  have P: "params_ok ?P" by (simp add: params_ok_def)
  obtain b where b: "NewBreaker ?P = Ret b" using NewBreaker_Ret [OF P] by blast
  note r = reachable.start [of b]
  show ?thesis using b r breaker_limits [OF P b r] by auto
qed

text \<open>No wake-up is lost. Whenever a call is parked in (or arrives at) the semaphore's
  \<open>select\<close>, a token is buffered or some other call is on its way to pass one on and has an enabled
  step of its own, so the system never stops with waiting calls and free permits.\<close>

lemma no_lost_wakeup:
  assumes "params_ok P" "NewBreaker P = Ret b" "0 < InitialCapacity P" "0 < MaxConcurrency P"
    and "reachable b s" "\<exists>p \<in> set (pcs s). waiting p"
  shows "(\<not> parked s \<and> 0 < tokens s) \<or>
    (\<exists>i < length (pcs s). active (pcs s ! i) \<and> (\<exists>e \<in> own_events i. \<exists>t. exec s e = Some t))"
proof -
  have w: "wake_inv s" using assms by (blast intro: reachable_wake_inv)
  show ?thesis
  proof (cases "\<exists>p \<in> set (pcs s). active p")
    case True
    then obtain i where "i < length (pcs s)" "active (pcs s ! i)" by (metis in_set_conv_nth)
    then show ?thesis using active_enabled by blast
  next
    case False
    with w assms(6) show ?thesis by (auto simp: wake_inv_def)
  qed
qed

text \<open>A parked call: two goroutines, one permit and no buffered token left.\<close>

lemma no_lost_wakeup_example:
  "\<exists>b s. NewBreaker \<lparr>QueueDepth = 1, MaxConcurrency = 1, InitialCapacity = 1\<rparr> = Ret b \<and>
     reachable b s \<and> parked s \<and> (\<exists>i < length (pcs s). active (pcs s ! i) \<and>
       (\<exists>e \<in> own_events i. \<exists>t. exec s e = Some t))"
proof -
  let ?P = "\<lparr>QueueDepth = 1, MaxConcurrency = 1, InitialCapacity = 1\<rparr>"
  let ?es = "[Spawn, Step 0, Step 0, Step 0, Step 0, Spawn, Step 1, Step 1, Step 1, Recv 1,
    Step 1, Park 1]"
  have P: "params_ok ?P" by (simp add: params_ok_def)
  obtain b where b: "NewBreaker ?P = Ret b" using NewBreaker_Ret [OF P] by blast
  have "(case NewBreaker ?P of Ret b \<Rightarrow> map_option pcs (run (init_sys b) ?es) | _ \<Rightarrow> None) =
      Some [Sem AcqOk, Sem AcqBlocked]"
    by code_simp
  with b obtain s where s: "run (init_sys b) ?es = Some s" "pcs s = [Sem AcqOk, Sem AcqBlocked]"
    by auto
  have r: "reachable b s" using s(1) reachable.start by (rule run_reachable)
  have pk: "parked s" "\<exists>p \<in> set (pcs s). waiting p" using s(2) by (auto simp: parked_def)
  show ?thesis using b r pk no_lost_wakeup [OF P b _ _ r pk(2)] by auto
qed

text \<open>The limit on concurrent thunks is attained: every number of calls up to the smaller of
  \<open>InitialCapacity\<close> and \<open>QueueDepth + MaxConcurrency\<close> can run its thunk at the same time, so
  \<open>MaxConcurrency\<close> alone does not bound the concurrency. With the default configuration of
  \<open>resolver/cmd/main.go\<close> (queue 100, concurrency 10, initial capacity 100), 100 thunks can run
  together, as the witness shows.\<close>

lemma concurrency_limit_attained:
  assumes "params_ok P" "NewBreaker P = Ret b"
    and "int k \<le> InitialCapacity P" "int k \<le> QueueDepth P + MaxConcurrency P"
  shows "\<exists>s. reachable b s \<and> num in_thunk s = k"
proof -
  obtain s where "reachable b s" "pcs s = replicate k (Sem AcqOk)"
    using enter_many [OF assms] by blast
  then show ?thesis by (auto simp: num_def in_thunk_def intro!: exI [of _ s])
qed

lemma concurrency_limit_attained_example:
  "\<exists>b s. NewBreaker \<lparr>QueueDepth = 100, MaxConcurrency = 10, InitialCapacity = 100\<rparr> = Ret b \<and>
     reachable b s \<and> num in_thunk s = 100"
proof -
  let ?P = "\<lparr>QueueDepth = 100, MaxConcurrency = 10, InitialCapacity = 100\<rparr>"
  have P: "params_ok ?P" by (simp add: params_ok_def)
  obtain b where b: "NewBreaker ?P = Ret b" using NewBreaker_Ret [OF P] by blast
  show ?thesis using b concurrency_limit_attained [OF P b, of 100] by auto
qed

text \<open>C37: \<open>releaseInFlightSlot\<close> leaks a slot when two calls finish together, because its
  compare-and-swap is not retried. With two slots there is an interleaving in which two calls
  return without error but \<open>inFlight\<close> stays at 1, and in which afterwards a call is refused with
  \<open>ErrRequestQueueFull\<close> although a single other call is inside.\<close>

theorem inflight_slot_leaks:
  "\<exists>b s. NewBreaker \<lparr>QueueDepth = 1, MaxConcurrency = 1, InitialCapacity = 2\<rparr> = Ret b \<and>
     totalSlots b = 2 \<and> reachable b s \<and> pcs s = [Returned None, Returned None] \<and>
     inFlight (brk s) = 1 \<and>
     (\<exists>t. reachable b t \<and>
        pcs t = [Returned None, Returned None, Sem AcqOk, Returned (Some ErrRequestQueueFull)])"
proof -
  let ?P = "\<lparr>QueueDepth = 1, MaxConcurrency = 1, InitialCapacity = 2\<rparr>"
  let ?es = "[Spawn, Spawn, Step 0, Step 0, Step 0, Step 0, Step 1, Step 1, Step 1, Step 1,
    ThunkDone 0, ThunkDone 1, Step 0, Step 0, Drop 0, Step 1, Step 1, Drop 1,
    Step 0, Step 1, Step 0, Step 1, Step 0, Step 1]"
  let ?fs = "[Spawn, Step 2, Step 2, Step 2, Step 2, Spawn, Step 3]"
  have P: "params_ok ?P" by (simp add: params_ok_def)
  obtain b where b: "NewBreaker ?P = Ret b" using NewBreaker_Ret [OF P] by blast
  have "(case NewBreaker ?P of
      Ret b \<Rightarrow> map_option (\<lambda>s. (pcs s, inFlight (brk s))) (run (init_sys b) ?es) | _ \<Rightarrow> None) =
      Some ([Returned None, Returned None], 1)"
    by code_simp
  with b obtain s where s: "run (init_sys b) ?es = Some s" "pcs s = [Returned None, Returned None]"
    "inFlight (brk s) = 1" by auto
  have "(case NewBreaker ?P of Ret b \<Rightarrow> map_option pcs (run (init_sys b) (?es @ ?fs)) | _ \<Rightarrow> None) =
      Some [Returned None, Returned None, Sem AcqOk, Returned (Some ErrRequestQueueFull)]"
    by code_simp
  with b obtain t where t: "run (init_sys b) (?es @ ?fs) = Some t"
    "pcs t = [Returned None, Returned None, Sem AcqOk, Returned (Some ErrRequestQueueFull)]" by auto
  have "reachable b s" "reachable b t"
    using run_reachable [OF s(1) reachable.start] run_reachable [OF t(1) reachable.start] .
  with b s t NewBreaker_facts(4) [OF P b] show ?thesis by auto
qed

end
