(* ===== verification/Throttler.thy ===== *)
theory Throttler
  imports Utils Breaker
begin

text \<open>
  \<open>resolver/internal/throttler/throttler.go\<close> and the readiness check of
  \<open>pkg/k8shelper/ops.go\<close>: a request is retried until the private service has a ready endpoint,
  then handed to \<open>resolve\<close> once. Time is explicit. What the rest of the world does during attempt
  \<open>n\<close> is the record \<open>attempt\<close>: the outcome of waiting for the breaker (whose \<open>Maybe\<close> is the subject
  of \<open>Breaker\<close>), the answer of the API server and the time the attempt takes. \<open>Try_loop\<close> is the
  loop of \<open>Try\<close>; \<open>None\<close> would mean that it never returns. \<open>try_spec\<close> is the specification it
  refines. The callbacks act on a state of the caller's choice.
\<close>

section \<open>Readiness of a service\<close>

record Endpoint =
  Ready :: "bool option"

type_synonym slices = "Endpoint list list"

text \<open>The client's \<open>List\<close> is a parameter: namespace and label selector to slices.\<close>

definition CheckIfServiceEndpointSliceActive ::
  "(string \<Rightarrow> string \<Rightarrow> slices result) \<Rightarrow> string \<Rightarrow> string \<Rightarrow> bool result" where
  "CheckIfServiceEndpointSliceActive List ns svc =
     (case List ns (''kubernetes.io/service-name='' @ svc) of
        Inl err \<Rightarrow> Inl (Wrap ''CheckIfServiceEndpointSliceActive - GET'' err)
      | Inr endpointSlices \<Rightarrow>
          Inr (list_ex (list_ex (\<lambda>endpoint. Ready endpoint = Some True)) endpointSlices))"

section \<open>The throttler\<close>

record Throttler =
  th_breaker :: Breaker
  th_retryDuration :: int
  TrafficReEnableDuration :: int
  serviceReadyMap :: "string \<rightharpoonup> bool"
  queueSizeMap :: "string \<rightharpoonup> int"
  th_timers :: "(int \<times> string) list"

record Params =
  QueueRetryDuration :: int
  P_TrafficReEnableDuration :: int
  P_Breaker :: BreakerParams

definition NewThrottler :: "Params \<Rightarrow> Throttler go" where
  "NewThrottler param =
     (case NewBreaker (P_Breaker param) of
        Panic m \<Rightarrow> Panic m
      | Ret b \<Rightarrow> Ret \<lparr>th_breaker = b, th_retryDuration = QueueRetryDuration param,
                     TrafficReEnableDuration = P_TrafficReEnableDuration param,
                     serviceReadyMap = Map.empty, queueSizeMap = Map.empty, th_timers = []\<rparr>)"

definition svc_key :: "string \<Rightarrow> string \<Rightarrow> string" where
  "svc_key namespace service = namespace @ ''/'' @ service"

definition GetQueueSize :: "Throttler \<Rightarrow> string \<Rightarrow> string \<Rightarrow> int" where
  "GetQueueSize t namespace service =
     (case queueSizeMap t (svc_key namespace service) of Some n \<Rightarrow> n | None \<Rightarrow> 0)"

definition storeQueueSize :: "Throttler \<Rightarrow> string \<Rightarrow> string \<Rightarrow> int \<Rightarrow> Throttler" where
  "storeQueueSize t namespace service n =
     t\<lparr>queueSizeMap := (queueSizeMap t)(svc_key namespace service \<mapsto> n)\<rparr>"

definition incrementQueueSize :: "Throttler \<Rightarrow> string \<Rightarrow> string \<Rightarrow> Throttler" where
  "incrementQueueSize t namespace service =
     storeQueueSize t namespace service (wrap64 (GetQueueSize t namespace service + 1))"

definition decrementQueueSize :: "Throttler \<Rightarrow> string \<Rightarrow> string \<Rightarrow> Throttler" where
  "decrementQueueSize t namespace service =
     storeQueueSize t namespace service (wrap64 (GetQueueSize t namespace service - 1))"

text \<open>The timers that are due delete their entry of the readiness cache.\<close>

definition expire_ready :: "int \<Rightarrow> Throttler \<Rightarrow> Throttler" where
  "expire_ready now t =
     t\<lparr>serviceReadyMap :=
          serviceReadyMap t |` (- snd ` set (filter (\<lambda>(due, k). due \<le> now) (th_timers t))),
       th_timers := filter (\<lambda>(due, k). \<not> due \<le> now) (th_timers t)\<rparr>"

definition checkIfServiceReady ::
  "int \<Rightarrow> (string \<Rightarrow> string \<Rightarrow> slices result) \<Rightarrow> Throttler \<Rightarrow> string \<Rightarrow> string \<Rightarrow>
   bool result \<times> Throttler" where
  "checkIfServiceReady now List t namespace service =
     (let key = svc_key namespace service
      in case serviceReadyMap t key of
           Some ready \<Rightarrow> (Inr ready, t)
         | None \<Rightarrow>
             (case CheckIfServiceEndpointSliceActive List namespace service of
                Inl err \<Rightarrow> (Inl (Wrap ''unable to get target active endpoints'' err), t)
              | Inr isPodActive \<Rightarrow>
                  if \<not> isPodActive then (Inl (Err ''no active endpoints found''), t)
                  else (Inr True,
                        t\<lparr>serviceReadyMap := (serviceReadyMap t)(key \<mapsto> True),
                          th_timers := th_timers t @ [(now + TrafficReEnableDuration t, key)]\<rparr>)))"

section \<open>Trying a request\<close>

text \<open>
  \<open>Full\<close>: no slot in the breaker. \<open>CtxDone\<close>: the deadline passes while waiting for the semaphore.
  \<open>Granted w\<close>: the thunk runs after waiting \<open>w\<close>.
\<close>

datatype admission = Full | CtxDone | Granted nat

record attempt =
  admission :: admission
  at_list :: "string \<Rightarrow> string \<Rightarrow> slices result"
  at_work :: nat

type_synonym 's resolver = "int \<Rightarrow> int \<Rightarrow> 's \<Rightarrow> (goerr option \<times> 's) go"

text \<open>
  The thunk: the new values of \<open>tryErr\<close>, \<open>reenqueue\<close> and \<open>tryCount\<close>, the states and the time. The
  resolver is given the try count and the time at which it completes.
\<close>

definition try_thunk ::
  "int \<Rightarrow> Host \<Rightarrow> 's resolver \<Rightarrow> (int \<Rightarrow> 's \<Rightarrow> 's) \<Rightarrow> attempt \<Rightarrow> int \<Rightarrow> int \<Rightarrow> Throttler \<Rightarrow> 's \<Rightarrow>
   (goerr option \<times> bool \<times> int \<times> Throttler \<times> 's \<times> int) go" where
  "try_thunk deadline host resolve tryErrCallback a now tryCount t s =
     (let (chk, t1) = checkIfServiceReady now (at_list a) (expire_ready now t)
                        (Namespace host) (TargetService host);
          now1 = now + int (at_work a)
      in case (case chk of
                 Inl err \<Rightarrow> Ret (Some err, True, tryErrCallback now s)
               | Inr isPodActive \<Rightarrow>
                   if isPodActive then
                     (case resolve tryCount now1 s of
                        Panic m \<Rightarrow> Panic m
                      | Ret (res, s') \<Rightarrow> Ret (map_option (Wrap ''resolve error'') res, False, s'))
                   else Ret (None, True, s)) of
           Panic m \<Rightarrow> Panic m
         | Ret (tryErr, reenqueue, s1) \<Rightarrow>
             if deadline \<le> now1 then
               Ret (Some (Wrap ''context done error'' DeadlineExceeded), False, tryCount, t1, s1, now1)
             else if reenqueue then
               Ret (tryErr, True, tryCount + 1, t1, s1, now1 + th_retryDuration t1)
             else Ret (tryErr, False, tryCount, t1, s1, now1))"

partial_function (option) Try_loop ::
  "int \<Rightarrow> Host \<Rightarrow> 's resolver \<Rightarrow> (int \<Rightarrow> 's \<Rightarrow> 's) \<Rightarrow> (int \<Rightarrow> attempt) \<Rightarrow> int \<Rightarrow> int \<Rightarrow> Throttler \<Rightarrow> 's \<Rightarrow>
   (goerr option \<times> Throttler \<times> 's \<times> int) go option" where
  "Try_loop deadline host resolve tryErrCallback env now tryCount t s =
     (case admission (env tryCount) of
        Full \<Rightarrow> Some (Ret (Some (Wrap ''breaker error'' ErrRequestQueueFull), t, s, now))
      | CtxDone \<Rightarrow> Some (Ret (Some (Wrap ''breaker error'' (Wrap ''acquire'' DeadlineExceeded)),
                            t, s, max now deadline))
      | Granted w \<Rightarrow>
          (case try_thunk deadline host resolve tryErrCallback (env tryCount) (now + int w)
                  tryCount t s of
             Panic m \<Rightarrow> Some (Panic m)
           | Ret (tryErr, reenqueue, tryCount', t', s', now') \<Rightarrow>
               if reenqueue then
                 Try_loop deadline host resolve tryErrCallback env now' tryCount' t' s'
               else Some (Ret (map_option (Wrap ''thunk error'') tryErr, t', s', now'))))"

definition Try ::
  "int \<Rightarrow> Host \<Rightarrow> 's resolver \<Rightarrow> (int \<Rightarrow> 's \<Rightarrow> 's) \<Rightarrow> (int \<Rightarrow> attempt) \<Rightarrow> int \<Rightarrow> Throttler \<Rightarrow> 's \<Rightarrow>
   (goerr option \<times> Throttler \<times> 's \<times> int) go option" where
  "Try deadline host resolve tryErrCallback env now t s =
     map_option
       (\<lambda>r. case r of
          Panic m \<Rightarrow> Panic m
        | Ret (err, t', s', now') \<Rightarrow>
            Ret (err, decrementQueueSize t' (Namespace host) (SourceService host), s', now'))
       (Try_loop deadline host resolve tryErrCallback env now 1
          (incrementQueueSize t (Namespace host) (SourceService host)) s)"

section \<open>The specification of a try\<close>

text \<open>
  What a caller may see: some calls of the error callback, then a refusal, a timeout, or one call of
  the resolver, whose answer is passed on unless the deadline has passed by then.
\<close>

inductive try_spec ::
  "int \<Rightarrow> 's resolver \<Rightarrow> (int \<Rightarrow> 's \<Rightarrow> 's) \<Rightarrow> 's \<Rightarrow> (goerr option \<times> 's \<times> int) go \<Rightarrow> bool"
  for deadline resolve cb where
  full: "try_spec deadline resolve cb s (Ret (Some (Wrap ''breaker error'' ErrRequestQueueFull), s, tm))"
| waited: "deadline \<le> tm \<Longrightarrow> try_spec deadline resolve cb s
    (Ret (Some (Wrap ''breaker error'' (Wrap ''acquire'' DeadlineExceeded)), s, tm))"
| late: "deadline \<le> tm \<Longrightarrow> try_spec deadline resolve cb s
    (Ret (Some (Wrap ''thunk error'' (Wrap ''context done error'' DeadlineExceeded)), s, tm))"
| served: "tm < deadline \<Longrightarrow> resolve n tm s = Ret (res, s') \<Longrightarrow> try_spec deadline resolve cb s
    (Ret (map_option (\<lambda>e. Wrap ''thunk error'' (Wrap ''resolve error'' e)) res, s', tm))"
| served_late: "deadline \<le> tm \<Longrightarrow> resolve n tm s = Ret (res, s') \<Longrightarrow> try_spec deadline resolve cb s
    (Ret (Some (Wrap ''thunk error'' (Wrap ''context done error'' DeadlineExceeded)), s', tm))"
| panicked: "resolve n tm s = Panic m \<Longrightarrow> try_spec deadline resolve cb s (Panic m)"
| retried: "try_spec deadline resolve cb (cb tm s) r \<Longrightarrow> try_spec deadline resolve cb s r"

section \<open>Queue sizes and readiness\<close>

lemma svc_key_inject:
  assumes "CHR ''/'' \<notin> set ns" "CHR ''/'' \<notin> set ns'" "svc_key ns svc = svc_key ns' svc'"
  shows "ns = ns' \<and> svc = svc'"
  using append_sep_inject [of ns "CHR ''/''" svc ns' svc'] assms by (simp add: svc_key_def)

lemma GetQueueSize_store [simp]: "GetQueueSize (storeQueueSize t ns svc n) ns svc = n"
  by (simp add: GetQueueSize_def storeQueueSize_def)

lemma store_sel [simp]:
  "th_retryDuration (storeQueueSize t ns svc n) = th_retryDuration t"
  "serviceReadyMap (storeQueueSize t ns svc n) = serviceReadyMap t"
  "th_timers (storeQueueSize t ns svc n) = th_timers t"
  "th_breaker (storeQueueSize t ns svc n) = th_breaker t"
  by (simp_all add: storeQueueSize_def)

text \<open>
  The load and the store of \<open>incrementQueueSize\<close> are separate: when two requests load the same size
  one increment is lost, and the size is back at its old value as soon as one of the two is
  done, while the other still waits.
\<close>

lemma increment_is_load_store:
  "incrementQueueSize t ns svc = storeQueueSize t ns svc (wrap64 (GetQueueSize t ns svc + 1))"
  by (simp add: incrementQueueSize_def)

lemma increments_lost:
  assumes "n = GetQueueSize t ns svc" "- (2 ^ 63) \<le> n" "n < 2 ^ 63"
    and "t1 = storeQueueSize t ns svc (wrap64 (n + 1))"
    and "t2 = storeQueueSize t1 ns svc (wrap64 (n + 1))"
  shows "GetQueueSize (decrementQueueSize t2 ns svc) ns svc = n"
  using assms by (simp add: decrementQueueSize_def wrap64_wrap64_diff wrap64_id)

text \<open>Only \<open>true\<close> is ever cached.\<close>

definition ready_inv :: "Throttler \<Rightarrow> bool" where
  "ready_inv t = (False \<notin> ran (serviceReadyMap t))"

lemma ready_inv_new: "NewThrottler p = Ret t \<Longrightarrow> ready_inv t"
  by (auto simp: NewThrottler_def ready_inv_def split: go.splits)

lemma ready_invD: "ready_inv t \<Longrightarrow> serviceReadyMap t k = Some b \<Longrightarrow> b"
  by (cases b) (auto simp: ready_inv_def ran_def)

lemma ready_inv_update:
  "ready_inv t \<Longrightarrow> ready_inv (t\<lparr>serviceReadyMap := (serviceReadyMap t)(k \<mapsto> True), th_timers := T\<rparr>)"
  by (auto simp: ready_inv_def ran_def)

lemma ready_inv_expire: "ready_inv t \<Longrightarrow> ready_inv (expire_ready now t)"
  by (auto simp: ready_inv_def expire_ready_def ran_def restrict_map_def)

lemma expire_sel [simp]:
  "th_retryDuration (expire_ready now t) = th_retryDuration t"
  "queueSizeMap (expire_ready now t) = queueSizeMap t"
  by (simp_all add: expire_ready_def)

definition frame :: "Throttler \<Rightarrow> Throttler \<Rightarrow> bool" where
  "frame t t' = (th_retryDuration t' = th_retryDuration t \<and> queueSizeMap t' = queueSizeMap t \<and>
     ready_inv t')"

lemma checkIfServiceReady_cases:
  assumes "ready_inv t"
  obtains (ready) t1 where "checkIfServiceReady now L t ns svc = (Inr True, t1)" "frame t t1"
  | (error) e t1 where "checkIfServiceReady now L t ns svc = (Inl e, t1)" "frame t t1"
proof -
  have "\<exists>x t1. checkIfServiceReady now L t ns svc = (x, t1) \<and> frame t t1 \<and> x \<noteq> Inr False"
    using assms ready_invD [OF assms]
    by (auto simp: checkIfServiceReady_def Let_def frame_def ready_inv_update
        split: option.splits sum.splits if_splits)
  then obtain x t1 where x: "checkIfServiceReady now L t ns svc = (x, t1)" "frame t t1" "x \<noteq> Inr False"
    by blast
  then show thesis using ready error by (cases x) auto
qed

section \<open>The loop\<close>

lemma frame_expire: "ready_inv t \<Longrightarrow> frame (expire_ready now t) t1 \<Longrightarrow> frame t t1"
  by (simp add: frame_def)

lemma try_thunk_cases:
  assumes "ready_inv t"
  obtains (panicked) tm m where
    "try_thunk deadline host resolve cb a now n t s = Panic m" "resolve n tm s = Panic m"
  | (stopped) e t' s' tm where
    "try_thunk deadline host resolve cb a now n t s = Ret (e, False, n, t', s', tm)" "frame t t'" "now \<le> tm"
    "try_spec deadline resolve cb s (Ret (map_option (Wrap ''thunk error'') e, s', tm))"
  | (again) e t' tm where
    "try_thunk deadline host resolve cb a now n t s =
       Ret (Some e, True, n + 1, t', cb now s, tm + th_retryDuration t)" "frame t t'" "now \<le> tm" "tm < deadline"
proof -
  let ?tm = "now + int (at_work a)"
  note def = try_thunk_def [of deadline host resolve cb a now n t s]
  from assms have "ready_inv (expire_ready now t)" by (rule ready_inv_expire)
  then show thesis
  proof (cases rule: checkIfServiceReady_cases
      [of _ now "at_list a" "Namespace host" "TargetService host"])
    case (ready t1)
    then have fr: "frame t t1" using frame_expire [OF assms] by blast
    show ?thesis
    proof (cases "resolve n ?tm s")
      case (Panic m)
      with ready def show ?thesis by (intro panicked) simp_all
    next
      case (Ret x)
      obtain res s' where x: "x = (res, s')" by (cases x)
      show ?thesis
      proof (cases "deadline \<le> ?tm")
        case True
        with ready Ret x def fr show ?thesis
          by (intro stopped [of _ t1 s' ?tm]) (auto intro: try_spec.served_late)
      next
        case False
        then have "try_spec deadline resolve cb s (Ret (map_option (Wrap ''thunk error'')
            (map_option (Wrap ''resolve error'') res), s', ?tm))"
          using try_spec.served [of ?tm deadline resolve n s res s' cb] Ret x
          by (simp add: option.map_comp comp_def)
        with False ready Ret x def fr show ?thesis by (intro stopped [of _ t1 s' ?tm]) auto
      qed
    qed
  next
    case (error e t1)
    then have fr: "frame t t1" using frame_expire [OF assms] by blast
    show ?thesis
    proof (cases "deadline \<le> ?tm")
      case True
      with error def fr show ?thesis
        by (intro stopped [of _ t1 "cb now s" ?tm]) (auto intro: try_spec.retried [OF try_spec.late])
    next
      case False
      with error def fr show ?thesis by (intro again [of e t1 ?tm]) (auto simp: frame_def)
    qed
  qed
qed

definition drop_throttler ::
  "(goerr option \<times> Throttler \<times> 's \<times> int) go \<Rightarrow> (goerr option \<times> 's \<times> int) go" where
  "drop_throttler r = (case r of Panic m \<Rightarrow> Panic m | Ret (e, t, s, tm) \<Rightarrow> Ret (e, s, tm))"

definition throttler_after :: "(goerr option \<times> Throttler \<times> 's \<times> int) go \<Rightarrow> Throttler option" where
  "throttler_after r = (case r of Panic m \<Rightarrow> None | Ret (e, t, s, tm) \<Rightarrow> Some t)"

text \<open>The loop ends, as the specification says, and keeps the queue sizes.\<close>

lemma Try_loop_refines:
  assumes "0 < th_retryDuration t" "ready_inv t"
  shows "\<exists>r. Try_loop deadline host resolve cb env now n t s = Some r \<and>
    try_spec deadline resolve cb s (drop_throttler r) \<and>
    (\<forall>t'. throttler_after r = Some t' \<longrightarrow> frame t t')"
  using assms
proof (induction "nat (deadline - now)" arbitrary: now n t s rule: less_induct)
  case less
  note step = Try_loop.simps [of deadline host resolve cb env now n t s]
  have fr: "frame t t" using less.prems by (simp add: frame_def)
  show ?case
  proof (cases "admission (env n)")
    case Full
    with step fr show ?thesis
      by (auto simp: drop_throttler_def throttler_after_def intro: try_spec.full)
  next
    case CtxDone
    with step fr show ?thesis
      by (auto simp: drop_throttler_def throttler_after_def intro: try_spec.waited)
  next
    case (Granted w)
    from less.prems(2) show ?thesis
    proof (cases rule: try_thunk_cases [of _ deadline host resolve cb "env n" "now + int w" n s])
      case (panicked tm m)
      with Granted step show ?thesis
        by (auto simp: drop_throttler_def throttler_after_def intro: try_spec.panicked)
    next
      case (stopped e t' s' tm)
      with Granted step show ?thesis
        by (auto simp: drop_throttler_def throttler_after_def)
    next
      case (again e t' tm)
      let ?now = "tm + th_retryDuration t"
      have "nat (deadline - ?now) < nat (deadline - now)" using again less.prems(1) by simp
      from less.hyps [OF this, of t' "n + 1" "cb (now + int w) s"] again(2) less.prems(1)
      obtain r where r: "Try_loop deadline host resolve cb env ?now (n + 1) t' (cb (now + int w) s) = Some r"
        "try_spec deadline resolve cb (cb (now + int w) s) (drop_throttler r)"
        "\<forall>t''. throttler_after r = Some t'' \<longrightarrow> frame t' t''"
        by (auto simp: frame_def)
      have "Try_loop deadline host resolve cb env now n t s = Some r"
        using Granted step again(1) r(1) by simp
      with r(2,3) again(2) show ?thesis by (auto intro: try_spec.retried simp: frame_def)
    qed
  qed
qed

lemma Try_from_loop:
  assumes "Try_loop deadline host resolve cb env now 1
      (incrementQueueSize t (Namespace host) (SourceService host)) s = Some r"
  shows "\<exists>r'. Try deadline host resolve cb env now t s = Some r' \<and> drop_throttler r' = drop_throttler r \<and>
    throttler_after r' = map_option (\<lambda>t. decrementQueueSize t (Namespace host) (SourceService host))
      (throttler_after r)"
  using assms
  by (auto simp: Try_def drop_throttler_def throttler_after_def split: go.splits)

text \<open>What the specification says about the resolver: it is called at most once, at the end.\<close>

lemma try_spec_once:
  assumes "try_spec deadline resolve cb s (Ret (e, s', tm))"
  shows "\<exists>ts. (e \<noteq> None \<and> s' = fold cb ts s) \<or>
    (\<exists>n res. resolve n tm (fold cb ts s) = Ret (res, s') \<and> (e = None \<longleftrightarrow> res = None \<and> tm < deadline))"
  using assms
proof (induction s "Ret (e, s', tm) :: (goerr option \<times> _ \<times> int) go" rule: try_spec.induct)
  case (retried tm' s)
  then obtain ts where "(e \<noteq> None \<and> s' = fold cb ts (cb tm' s)) \<or>
      (\<exists>n res. resolve n tm (fold cb ts (cb tm' s)) = Ret (res, s') \<and>
        (e = None \<longleftrightarrow> res = None \<and> tm < deadline))" by blast
  then show ?case by (intro exI [of _ "tm' # ts"]) simp
next
  case (served n s res)
  then show ?case by (intro exI [of _ "[]"]) auto
next
  case (served_late n s res)
  then show ?case by (intro exI [of _ "[]"]) (auto simp: not_less)
qed (auto intro: exI [of _ "[]"])

text \<open>Errors caused by the deadline can be recognised by \<open>errors.Is\<close>.\<close>

lemma try_spec_deadline:
  assumes "try_spec deadline resolve cb s (Ret (e, s', tm))" "deadline \<le> tm"
    "e \<noteq> Some (Wrap ''breaker error'' ErrRequestQueueFull)"
  shows "\<exists>err. e = Some err \<and> errors_Is err DeadlineExceeded"
  using assms
  by (induction s "Ret (e, s', tm) :: (goerr option \<times> _ \<times> int) go" rule: try_spec.induct) auto

text \<open>\<open>Try\<close> panics only when the resolver does.\<close>

lemma try_spec_panic:
  assumes "try_spec deadline resolve cb s r" "r = Panic m"
  shows "\<exists>n tm s'. resolve n tm s' = Panic m"
  using assms by (induction rule: try_spec.induct) auto

section \<open>The contract of the callbacks\<close>

text \<open>
  What a caller of \<open>Try\<close> may rely on as time passes: a property of its state that time, the error callback
  and the resolver keep holds when \<open>Try\<close> returns.
\<close>

locale try_callbacks =
  fixes resolve :: "'s resolver" and cb :: "int \<Rightarrow> 's \<Rightarrow> 's" and Q :: "int \<Rightarrow> 's \<Rightarrow> bool"
  assumes mono: "Q t s \<Longrightarrow> t \<le> tm \<Longrightarrow> Q tm s"
    and callback: "Q t s \<Longrightarrow> Q t (cb t s)"
    and resolved: "Q t s \<Longrightarrow> resolve n t s = Ret (res, s') \<Longrightarrow> Q t s'"
begin

lemma try_thunk_keeps:
  assumes "Q now s" "ready_inv th" "0 < th_retryDuration th"
    and "try_thunk deadline host resolve cb a now n th s = Ret (e, re, n', th', s', tm)"
  shows "Q tm s' \<and> now \<le> tm \<and> frame th th' \<and> (re \<longrightarrow> now < deadline \<and> now < tm)"
proof -
  let ?tm = "now + int (at_work a)"
  note def = try_thunk_def [of deadline host resolve cb a now n th s]
  from assms(2) have "ready_inv (expire_ready now th)" by (rule ready_inv_expire)
  then show ?thesis
  proof (cases rule: checkIfServiceReady_cases
      [of _ now "at_list a" "Namespace host" "TargetService host"])
    case (ready t1)
    then have fr: "frame th t1" using frame_expire [OF assms(2)] by blast
    obtain res s1 where r: "resolve n ?tm s = Ret (res, s1)"
      using assms(4) ready def by (cases "resolve n ?tm s") auto
    have "Q ?tm s" using mono [OF assms(1)] by simp
    moreover have "s' = s1" "tm = ?tm" "th' = t1" "\<not> re"
      using r ready def assms(4) by (auto simp: Let_def split: if_splits)
    ultimately show ?thesis using fr resolved r by auto
  next
    case (error e1 t1)
    then have fr: "frame th t1" using frame_expire [OF assms(2)] by blast
    with error def assms(4) have "s' = cb now s" "th' = t1"
      "tm = ?tm \<and> \<not> re \<or> tm = ?tm + th_retryDuration th \<and> ?tm < deadline"
      by (auto simp: frame_def Let_def split: if_splits)
    with fr assms(3) mono [OF callback [OF assms(1)], of tm] show ?thesis by auto
  qed
qed

lemma Try_loop_keeps:
  assumes "Q now s" "ready_inv th" "0 < th_retryDuration th"
    and "Try_loop deadline host resolve cb env now n th s = Some (Ret (e, th', s', tm))"
  shows "Q tm s' \<and> now \<le> tm \<and> frame th th'"
  using assms
proof (induction "nat (deadline - now)" arbitrary: now n th s rule: less_induct)
  case less
  note step = Try_loop.simps [of deadline host resolve cb env now n th s]
  have fr: "frame th th" using less.prems by (simp add: frame_def)
  show ?case
  proof (cases "admission (env n)")
    case (Granted w)
    let ?now = "now + int w"
    have q: "Q ?now s" using mono [OF less.prems(1)] by simp
    obtain e1 re n1 th1 s1 now1 where th1:
      "try_thunk deadline host resolve cb (env n) ?now n th s = Ret (e1, re, n1, th1, s1, now1)"
      using Granted step less.prems(4)
      by (cases "try_thunk deadline host resolve cb (env n) ?now n th s") auto
    note k = try_thunk_keeps [OF q less.prems(2,3) th1]
    show ?thesis
    proof (cases re)
      case True
      then have "Try_loop deadline host resolve cb env now1 n1 th1 s1 = Some (Ret (e, th', s', tm))"
        using Granted step th1 less.prems(4) by simp
      moreover have "nat (deadline - now1) < nat (deadline - now)" using k True by auto
      ultimately have "Q tm s' \<and> now1 \<le> tm \<and> frame th1 th'"
        using less.hyps [of now1 s1 th1 n1] k less.prems(3) by (auto simp: frame_def)
      with k show ?thesis by (auto simp: frame_def)
    next
      case False
      then show ?thesis using Granted step th1 less.prems(4) k by auto
    qed
  qed (use step fr less.prems mono [OF less.prems(1), of "max now deadline"] in auto)
qed

lemma Try_keeps:
  assumes "Q now s" "ready_inv th" "0 < th_retryDuration th"
    and "Try deadline host resolve cb env now th s = Some (Ret (e, th', s', tm))"
  shows "Q tm s' \<and> now \<le> tm \<and> ready_inv th' \<and> th_retryDuration th' = th_retryDuration th"
proof -
  let ?th = "incrementQueueSize th (Namespace host) (SourceService host)"
  have sel: "ready_inv ?th" "0 < th_retryDuration ?th"
    using assms(2,3) by (simp_all add: incrementQueueSize_def ready_inv_def)
  from assms(4) obtain r where r: "Try_loop deadline host resolve cb env now 1 ?th s = Some r"
    by (auto simp: Try_def)
  with assms(4) obtain t1 where
    "Try_loop deadline host resolve cb env now 1 ?th s = Some (Ret (e, t1, s', tm))"
    and th': "th' = decrementQueueSize t1 (Namespace host) (SourceService host)"
    by (cases r) (auto simp: Try_def)
  from Try_loop_keeps [OF assms(1) sel this(1)] show ?thesis
    by (simp add: th' decrementQueueSize_def incrementQueueSize_def frame_def ready_inv_def)
qed

end

section \<open>Waiting for the service\<close>

text \<open>An attempt that is admitted, in time, but finds no ready endpoint is followed by the next one.\<close>

definition not_ready :: "attempt \<Rightarrow> string \<Rightarrow> string \<Rightarrow> bool" where
  "not_ready a ns svc =
     (case CheckIfServiceEndpointSliceActive (at_list a) ns svc of Inl e \<Rightarrow> True | Inr b \<Rightarrow> \<not> b)"

lemma expire_None:
  "serviceReadyMap t k = None \<Longrightarrow> serviceReadyMap (expire_ready now t) k = None"
  by (simp add: expire_ready_def restrict_map_def)

lemma Try_loop_wait:
  assumes "admission (env n) = Granted w" "not_ready (env n) (Namespace host) (TargetService host)"
    and "serviceReadyMap t (svc_key (Namespace host) (TargetService host)) = None"
    and "now + int w + int (at_work (env n)) < deadline"
  shows "Try_loop deadline host resolve cb env now n t s =
    Try_loop deadline host resolve cb env
      (now + int w + int (at_work (env n)) + th_retryDuration t) (n + 1)
      (expire_ready (now + int w) t) (cb (now + int w) s)"
  by (subst Try_loop.simps)
    (use assms expire_None [OF assms(3), of "now + int w"] in
      \<open>auto simp: try_thunk_def checkIfServiceReady_def not_ready_def Let_def split: sum.splits\<close>)

lemma Try_loop_serve:
  assumes "admission (env n) = Granted w"
    and "CheckIfServiceEndpointSliceActive (at_list (env n)) (Namespace host) (TargetService host) = Inr True"
    and "serviceReadyMap t (svc_key (Namespace host) (TargetService host)) = None"
    and "now + int w + int (at_work (env n)) < deadline"
    and "resolve n (now + int w + int (at_work (env n))) s = Ret (res, s')"
  shows "\<exists>t'. Try_loop deadline host resolve cb env now n t s =
    Some (Ret (map_option (\<lambda>e. Wrap ''thunk error'' (Wrap ''resolve error'' e)) res, t', s',
      now + int w + int (at_work (env n))))"
  by (subst Try_loop.simps)
    (use assms expire_None [OF assms(3), of "now + int w"] in
      \<open>auto simp: try_thunk_def checkIfServiceReady_def Let_def option.map_comp comp_def\<close>)

lemma Try_loop_late:
  assumes "admission (env n) = Granted w"
    and "CheckIfServiceEndpointSliceActive (at_list (env n)) (Namespace host) (TargetService host) = Inr True"
    and "serviceReadyMap t (svc_key (Namespace host) (TargetService host)) = None"
    and "deadline \<le> now + int w + int (at_work (env n))"
    and "resolve n (now + int w + int (at_work (env n))) s = Ret (res, s')"
  shows "\<exists>t'. Try_loop deadline host resolve cb env now n t s =
    Some (Ret (Some (Wrap ''thunk error'' (Wrap ''context done error'' DeadlineExceeded)), t', s',
      now + int w + int (at_work (env n))))"
  by (subst Try_loop.simps)
    (use assms expire_None [OF assms(3), of "now + int w"] in
      \<open>auto simp: try_thunk_def checkIfServiceReady_def Let_def\<close>)

text \<open>A request whose first attempt finds the service ready.\<close>

definition ready_at_once :: "(int \<Rightarrow> attempt) \<Rightarrow> Host \<Rightarrow> Throttler \<Rightarrow> nat \<Rightarrow> bool" where
  "ready_at_once env host t w =
     (admission (env 1) = Granted w \<and>
      CheckIfServiceEndpointSliceActive (at_list (env 1)) (Namespace host) (TargetService host) = Inr True \<and>
      serviceReadyMap t (svc_key (Namespace host) (TargetService host)) = None)"

lemma Try_first:
  assumes "ready_at_once env host t w" "tm = now + int w + int (at_work (env 1))"
    and "resolve 1 tm s = Ret (res, s')"
  shows "\<exists>t'. Try deadline host resolve cb env now t s =
    Some (Ret (if tm < deadline
               then map_option (\<lambda>e. Wrap ''thunk error'' (Wrap ''resolve error'' e)) res
               else Some (Wrap ''thunk error'' (Wrap ''context done error'' DeadlineExceeded)), t', s', tm))"
proof -
  let ?t = "incrementQueueSize t (Namespace host) (SourceService host)"
  have "serviceReadyMap ?t (svc_key (Namespace host) (TargetService host)) = None"
    using assms(1) by (simp add: ready_at_once_def incrementQueueSize_def)
  then show ?thesis
    using assms Try_loop_serve [of env 1 w host ?t now deadline resolve s res s' cb]
      Try_loop_late [of env 1 w host ?t deadline now resolve s res s' cb]
    by (cases "tm < deadline") (auto simp: ready_at_once_def Try_def)
qed

text \<open>The time and the caller's state when attempt \<open>1 + k\<close> begins, if the attempts before it fail.\<close>

fun waits :: "(int \<Rightarrow> attempt) \<Rightarrow> int \<Rightarrow> nat" where
  "waits env n = (case admission (env n) of Granted w \<Rightarrow> w | _ \<Rightarrow> 0)"

fun attempt_at ::
  "(int \<Rightarrow> 's \<Rightarrow> 's) \<Rightarrow> (int \<Rightarrow> attempt) \<Rightarrow> int \<Rightarrow> int \<Rightarrow> 's \<Rightarrow> nat \<Rightarrow> int \<times> 's" where
  "attempt_at cb env retry now s 0 = (now, s)"
| "attempt_at cb env retry now s (Suc k) =
     (let (tm, s') = attempt_at cb env retry now s k; n = 1 + int k
      in (tm + int (waits env n) + int (at_work (env n)) + retry, cb (tm + int (waits env n)) s'))"

definition unready_attempt ::
  "(int \<Rightarrow> attempt) \<Rightarrow> Host \<Rightarrow> int \<Rightarrow> (nat \<Rightarrow> int) \<Rightarrow> nat \<Rightarrow> bool" where
  "unready_attempt env host deadline start k =
     (let n = 1 + int k in
      (case admission (env n) of Granted w \<Rightarrow> start k + int w + int (at_work (env n)) < deadline
       | _ \<Rightarrow> False) \<and>
      not_ready (env n) (Namespace host) (TargetService host))"

lemma Try_loop_attempts:
  assumes "list_all (unready_attempt env host deadline (\<lambda>k. fst (attempt_at cb env (th_retryDuration t) now s k))) [0..<k]"
    and "serviceReadyMap t (svc_key (Namespace host) (TargetService host)) = None"
  shows "\<exists>t'. serviceReadyMap t' (svc_key (Namespace host) (TargetService host)) = None \<and>
    th_retryDuration t' = th_retryDuration t \<and>
    Try_loop deadline host resolve cb env now 1 t s =
      (case attempt_at cb env (th_retryDuration t) now s k of
         (tm, s') \<Rightarrow> Try_loop deadline host resolve cb env tm (1 + int k) t' s')"
  using assms(1)
proof (induction k)
  case 0
  then show ?case using assms(2) by (intro exI [of _ t]) simp
next
  case (Suc k)
  obtain tm s' where at: "attempt_at cb env (th_retryDuration t) now s k = (tm, s')" by fastforce
  from Suc obtain t' where t': "serviceReadyMap t' (svc_key (Namespace host) (TargetService host)) = None"
    "th_retryDuration t' = th_retryDuration t"
    "Try_loop deadline host resolve cb env now 1 t s = Try_loop deadline host resolve cb env tm (1 + int k) t' s'"
    by (auto simp: at)
  from Suc.prems at have "unready_attempt env host deadline (\<lambda>k. fst (attempt_at cb env (th_retryDuration t) now s k)) k"
    by simp
  then obtain w where w: "admission (env (1 + int k)) = Granted w"
    "tm + int w + int (at_work (env (1 + int k))) < deadline"
    "not_ready (env (1 + int k)) (Namespace host) (TargetService host)"
    by (auto simp: unready_attempt_def Let_def at split: admission.splits)
  show ?case
    using Try_loop_wait [of env "1 + int k" w host t' tm deadline resolve cb s', OF w(1,3) t'(1) w(2)] t' expire_None [OF t'(1)]
    by (intro exI [of _ "expire_ready (tm + int w) t'"]) (simp add: at w(1) algebra_simps)
qed

lemma Try_returns:
  assumes "0 < th_retryDuration t" "ready_inv t"
  shows "\<exists>r. Try deadline host resolve cb env now t s = Some r"
proof -
  let ?t = "incrementQueueSize t (Namespace host) (SourceService host)"
  have "0 < th_retryDuration ?t" "ready_inv ?t"
    using assms by (simp_all add: incrementQueueSize_def ready_inv_def)
  from Try_loop_refines [OF this, of deadline host resolve cb env now 1 s] obtain r where
    "Try_loop deadline host resolve cb env now 1 ?t s = Some r" by blast
  from Try_from_loop [OF this] show ?thesis by blast
qed

lemma Try_panic:
  assumes "0 < th_retryDuration t" "ready_inv t" "Try deadline host resolve cb env now t s = Some (Panic m)"
  shows "\<exists>n tm s'. resolve n tm s' = Panic m"
proof -
  let ?t = "incrementQueueSize t (Namespace host) (SourceService host)"
  have "0 < th_retryDuration ?t" "ready_inv ?t"
    using assms(1,2) by (simp_all add: incrementQueueSize_def ready_inv_def)
  from Try_loop_refines [OF this, of deadline host resolve cb env now 1 s] obtain r where
    r: "Try_loop deadline host resolve cb env now 1 ?t s = Some r"
      "try_spec deadline resolve cb s (drop_throttler r)" by blast
  have "drop_throttler r = Panic m"
    using Try_from_loop [OF r(1)] assms(3) by (auto simp: drop_throttler_def)
  with r(2) show ?thesis using try_spec_panic by metis
qed

lemma Try_once:
  assumes "0 < th_retryDuration t" "ready_inv t"
    and "Try deadline host resolve cb env now t s = Some (Ret (e, t', s', tm))"
  shows "\<exists>ts. (e \<noteq> None \<and> s' = fold cb ts s) \<or>
    (\<exists>n res. resolve n tm (fold cb ts s) = Ret (res, s') \<and> (e = None \<longleftrightarrow> res = None \<and> tm < deadline))"
proof -
  let ?t = "incrementQueueSize t (Namespace host) (SourceService host)"
  have "0 < th_retryDuration ?t" "ready_inv ?t"
    using assms(1,2) by (simp_all add: incrementQueueSize_def ready_inv_def)
  from Try_loop_refines [OF this, of deadline host resolve cb env now 1 s] obtain r where
    r: "Try_loop deadline host resolve cb env now 1 ?t s = Some r"
      "try_spec deadline resolve cb s (drop_throttler r)" by blast
  have "drop_throttler r = Ret (e, s', tm)"
    using Try_from_loop [OF r(1)] assms(3) by (auto simp: drop_throttler_def)
  with r(2) show ?thesis using try_spec_once by simp
qed

text \<open>If no attempt is refused a slot and none finds a ready endpoint, the deadline ends the try.\<close>

definition never_ready :: "(int \<Rightarrow> attempt) \<Rightarrow> Host \<Rightarrow> bool" where
  "never_ready env host =
     (\<forall>n. admission (env n) \<noteq> Full \<and> not_ready (env n) (Namespace host) (TargetService host))"

lemma Try_loop_never_ready:
  assumes "0 < th_retryDuration t" "never_ready env host"
    and "serviceReadyMap t (svc_key (Namespace host) (TargetService host)) = None"
  shows "\<exists>e t' ts tm. Try_loop deadline host resolve cb env now n t s = Some (Ret (Some e, t', fold cb ts s, tm)) \<and>
    errors_Is e DeadlineExceeded"
  using assms(1,3)
proof (induction "nat (deadline - now)" arbitrary: now n t s rule: less_induct)
  case less
  have n: "not_ready (env n) (Namespace host) (TargetService host)" "admission (env n) \<noteq> Full"
    using assms(2) by (auto simp: never_ready_def)
  show ?case
  proof (cases "admission (env n)")
    case Full
    with n(2) show ?thesis by simp
  next
    case CtxDone
    then have "Try_loop deadline host resolve cb env now n t s =
        Some (Ret (Some (Wrap ''breaker error'' (Wrap ''acquire'' DeadlineExceeded)), t, fold cb [] s,
          max now deadline))" by (subst Try_loop.simps) simp
    moreover have "errors_Is (Wrap ''breaker error'' (Wrap ''acquire'' DeadlineExceeded)) DeadlineExceeded"
      by simp
    ultimately show ?thesis by blast
  next
    case (Granted w)
    let ?tm = "now + int w + int (at_work (env n))"
    show ?thesis
    proof (cases "deadline \<le> ?tm")
      case True
      have "\<exists>t'. Try_loop deadline host resolve cb env now n t s =
          Some (Ret (Some (Wrap ''thunk error'' (Wrap ''context done error'' DeadlineExceeded)), t',
            fold cb [now + int w] s, ?tm))"
        by (subst Try_loop.simps)
          (use True Granted n less.prems(2) expire_None [OF less.prems(2), of "now + int w"] in
            \<open>auto simp: try_thunk_def checkIfServiceReady_def not_ready_def Let_def split: sum.splits\<close>)
      moreover have "errors_Is (Wrap ''thunk error'' (Wrap ''context done error'' DeadlineExceeded))
          DeadlineExceeded" by simp
      ultimately show ?thesis by blast
    next
      case False
      then have lt: "?tm < deadline" by simp
      have "nat (deadline - (?tm + th_retryDuration t)) < nat (deadline - now)"
        using lt less.prems(1) by simp
      from less.hyps [OF this, of "expire_ready (now + int w) t" "n + 1" "cb (now + int w) s"]
      obtain e t' ts tm where "Try_loop deadline host resolve cb env (?tm + th_retryDuration t) (n + 1)
          (expire_ready (now + int w) t) (cb (now + int w) s) =
          Some (Ret (Some e, t', fold cb ts (cb (now + int w) s), tm))" "errors_Is e DeadlineExceeded"
        using less.prems expire_None by auto
      then have "Try_loop deadline host resolve cb env now n t s =
          Some (Ret (Some e, t', fold cb ((now + int w) # ts) s, tm))" "errors_Is e DeadlineExceeded"
        using Try_loop_wait [of env n w host t now deadline resolve cb s, OF Granted n(1) less.prems(2) lt]
        by simp_all
      then show ?thesis by blast
    qed
  qed
qed

lemma Try_never_ready:
  assumes "0 < th_retryDuration t" "never_ready env host"
    and "serviceReadyMap t (svc_key (Namespace host) (TargetService host)) = None"
  shows "\<exists>e t' ts tm. Try deadline host resolve cb env now t s = Some (Ret (Some e, t', fold cb ts s, tm)) \<and>
    errors_Is e DeadlineExceeded"
proof -
  let ?t = "incrementQueueSize t (Namespace host) (SourceService host)"
  have "0 < th_retryDuration ?t"
    "serviceReadyMap ?t (svc_key (Namespace host) (TargetService host)) = None"
    using assms by (simp_all add: incrementQueueSize_def)
  from Try_loop_never_ready [OF this(1) assms(2) this(2), of deadline resolve cb now 1 s]
  show ?thesis by (auto simp: Try_def)
qed

section \<open>An example\<close>

text \<open>
  The default configuration, and a service whose endpoint becomes ready between the second and the
  third attempt; the caller's state is the list of try counts the resolver and (as 0) the error
  callback were called with.
\<close>

definition example_params :: Params where
  "example_params = \<lparr>QueueRetryDuration = 5, P_TrafficReEnableDuration = 30,
     P_Breaker = \<lparr>QueueDepth = 100, MaxConcurrency = 10, InitialCapacity = 100\<rparr>\<rparr>"

definition example_host :: Host where
  "example_host = \<lparr>IncomingHost = ''web.shop.svc'', Namespace = ''shop'', SourceService = ''web'',
     TargetService = ''web-pvt'', SourceHost = ''http://web.shop.svc'',
     TargetHost = ''http://web-pvt.shop.svc'', TrafficAllowed = True\<rparr>"

definition example_env :: "int \<Rightarrow> attempt" where
  "example_env n =
     \<lparr>admission = Granted 1,
      at_list = (\<lambda>ns sel. Inr (if n < 3 then [] else [[\<lparr>Ready = Some True\<rparr>]])), at_work = 1\<rparr>"

definition example_resolve :: "int list resolver" where
  "example_resolve n tm s = Ret (None, n # s)"

definition example_callback :: "int \<Rightarrow> int list \<Rightarrow> int list" where
  "example_callback tm s = 0 # s"

lemmas example_defs = example_host_def example_env_def example_resolve_def example_callback_def

lemma NewThrottler_fields:
  "NewThrottler p = Ret t \<Longrightarrow> th_retryDuration t = QueueRetryDuration p \<and>
     serviceReadyMap t = Map.empty \<and> queueSizeMap t = Map.empty"
  by (auto simp: NewThrottler_def split: go.splits)

lemma example_throttler: "\<exists>t. NewThrottler example_params = Ret t"
proof -
  have "(case NewBreaker (P_Breaker example_params) of Ret b \<Rightarrow> True | Panic m \<Rightarrow> False)"
    unfolding example_params_def by code_simp
  then show ?thesis by (auto simp: NewThrottler_def split: go.splits)
qed

section \<open>Properties\<close>

text \<open>C14: with a positive retry duration, \<open>Try\<close> returns whatever the breaker, the API server and
  the resolver do, with a result its specification allows; and the queue size of the service is
  then what it was before.\<close>

theorem Try_refines:
  assumes "0 < th_retryDuration t" "ready_inv t"
    and "- (2 ^ 63) \<le> GetQueueSize t (Namespace host) (SourceService host)"
    and "GetQueueSize t (Namespace host) (SourceService host) < 2 ^ 63"
  shows "\<exists>r. Try deadline host resolve cb env now t s = Some r \<and>
    try_spec deadline resolve cb s (drop_throttler r) \<and>
    (\<forall>t'. throttler_after r = Some t' \<longrightarrow>
       GetQueueSize t' (Namespace host) (SourceService host) =
         GetQueueSize t (Namespace host) (SourceService host))"
proof -
  let ?ns = "Namespace host" and ?svc = "SourceService host"
  let ?t = "incrementQueueSize t ?ns ?svc"
  have "0 < th_retryDuration ?t" "ready_inv ?t"
    using assms(1,2) by (simp_all add: incrementQueueSize_def ready_inv_def)
  from Try_loop_refines [OF this, of deadline host resolve cb env now 1 s] obtain r where
    r: "Try_loop deadline host resolve cb env now 1 ?t s = Some r"
      "try_spec deadline resolve cb s (drop_throttler r)"
      "\<forall>t'. throttler_after r = Some t' \<longrightarrow> frame ?t t'" by blast
  have "GetQueueSize (decrementQueueSize t' ?ns ?svc) ?ns ?svc = GetQueueSize t ?ns ?svc"
    if "frame ?t t'" for t'
  proof -
    have "GetQueueSize t' ?ns ?svc = GetQueueSize ?t ?ns ?svc"
      using that by (simp add: frame_def GetQueueSize_def)
    then show ?thesis
      using assms(3,4)
      by (simp add: decrementQueueSize_def incrementQueueSize_def wrap64_wrap64_diff wrap64_id)
  qed
  with r Try_from_loop [OF r(1)] show ?thesis by auto
qed

theorem Try_refines_witness:
  "\<exists>t r. NewThrottler example_params = Ret t \<and>
     Try 600 example_host example_resolve example_callback example_env 0 t [] = Some r \<and>
     try_spec 600 example_resolve example_callback [] (drop_throttler r)"
proof -
  obtain t where t: "NewThrottler example_params = Ret t" using example_throttler by blast
  note f = NewThrottler_fields [OF t]
  from Try_refines [of t example_host 600 example_resolve example_callback example_env 0 "[]"]
  show ?thesis
    using t f ready_inv_new [OF t] by (auto simp: GetQueueSize_def example_params_def)
qed

text \<open>C15: a request is handed to the resolver at most once, after some number of calls of the error
  callback; \<open>Try\<close> reports success exactly when the resolver did and the deadline had not passed.\<close>

theorem Try_resolves_once:
  assumes "0 < th_retryDuration t" "ready_inv t"
    and "Try deadline host resolve cb env now t s = Some (Ret (e, t', s', tm))"
  shows "\<exists>ts. (e \<noteq> None \<and> s' = fold cb ts s) \<or>
    (\<exists>n res. resolve n tm (fold cb ts s) = Ret (res, s') \<and> (e = None \<longleftrightarrow> res = None \<and> tm < deadline))"
  using Try_once [OF assms] .

theorem Try_resolves_once_witness:
  "\<exists>t t' ts n res. NewThrottler example_params = Ret t \<and>
     Try 600 example_host example_resolve example_callback example_env 0 t [] =
       Some (Ret (None, t', [3, 0, 0], 16)) \<and>
     example_resolve n 16 (fold example_callback ts []) = Ret (res, [3, 0, 0]) \<and> res = None"
proof -
  obtain t where t: "NewThrottler example_params = Ret t" using example_throttler by blast
  note f = NewThrottler_fields [OF t]
  have "\<exists>t'. Try 600 example_host example_resolve example_callback example_env 0 t [] =
      Some (Ret (None, t', [3, 0, 0], 16))"
    using f
    by (simp add: Try_def Try_loop.simps try_thunk_def checkIfServiceReady_def expire_ready_def
        CheckIfServiceEndpointSliceActive_def incrementQueueSize_def storeQueueSize_def
        example_defs example_params_def Let_def restrict_map_def)
  then obtain t' where t': "Try 600 example_host example_resolve example_callback example_env 0 t [] =
      Some (Ret (None, t', [3, 0, 0], 16))" ..
  from Try_resolves_once [OF _ ready_inv_new [OF t] t'] f t t' show ?thesis
    by (simp add: example_params_def)
qed

text \<open>C19: a request that is admitted, finds no ready endpoint in its first attempts and a ready one
  in the next, all before the deadline, is forwarded in that attempt, and its result is that of
  the resolver.\<close>

theorem Try_serves_when_ready:
  assumes "list_all (unready_attempt env host deadline
        (\<lambda>k. fst (attempt_at cb env (th_retryDuration t) now s k))) [0..<k]"
    and "serviceReadyMap t (svc_key (Namespace host) (TargetService host)) = None"
    and "attempt_at cb env (th_retryDuration t) now s k = (start, s1)"
    and "admission (env (1 + int k)) = Granted w"
    and "CheckIfServiceEndpointSliceActive (at_list (env (1 + int k)))
           (Namespace host) (TargetService host) = Inr True"
    and "tm = start + int w + int (at_work (env (1 + int k)))" "tm < deadline"
    and "resolve (1 + int k) tm s1 = Ret (res, s')"
  shows "map_option drop_throttler (Try deadline host resolve cb env now t s) =
    Some (Ret (map_option (\<lambda>e. Wrap ''thunk error'' (Wrap ''resolve error'' e)) res, s', tm))"
proof -
  let ?t = "incrementQueueSize t (Namespace host) (SourceService host)"
  have sel: "th_retryDuration ?t = th_retryDuration t" "serviceReadyMap ?t = serviceReadyMap t"
    by (simp_all add: incrementQueueSize_def)
  from Try_loop_attempts [of env host deadline cb ?t now s k resolve] assms(1-3) obtain t' where
    t': "serviceReadyMap t' (svc_key (Namespace host) (TargetService host)) = None"
      "Try_loop deadline host resolve cb env now 1 ?t s =
        Try_loop deadline host resolve cb env start (1 + int k) t' s1"
    unfolding sel by auto
  from Try_loop_serve [of env "1 + int k" w host t' start deadline resolve s1 res s' cb, OF assms(4,5) t'(1)] assms(6-8) t'(2)
  obtain t'' where "Try_loop deadline host resolve cb env now 1 ?t s =
      Some (Ret (map_option (\<lambda>e. Wrap ''thunk error'' (Wrap ''resolve error'' e)) res, t'', s', tm))"
    by auto
  from Try_from_loop [OF this] show ?thesis by (auto simp: drop_throttler_def)
qed

theorem Try_serves_when_ready_witness:
  "\<exists>t. NewThrottler example_params = Ret t \<and>
     map_option drop_throttler (Try 600 example_host example_resolve example_callback example_env 0 t []) =
       Some (Ret (None, [3, 0, 0], 16))"
proof -
  obtain t where t: "NewThrottler example_params = Ret t" using example_throttler by blast
  note f = NewThrottler_fields [OF t]
  have r: "th_retryDuration t = 5" using f by (simp add: example_params_def)
  have at: "attempt_at example_callback example_env 5 0 [] 2 = (14, [0, 0])"
    by (simp add: numeral_2_eq_2 example_defs Let_def)
  have un: "list_all (unready_attempt example_env example_host 600
      (\<lambda>k. fst (attempt_at example_callback example_env 5 0 [] k))) [0..<2]"
    by (simp add: numeral_2_eq_2 unready_attempt_def not_ready_def CheckIfServiceEndpointSliceActive_def
        example_defs Let_def)
  from Try_serves_when_ready [of example_env example_host 600 example_callback t 0 "[]" 2 14 "[0, 0]" 1
      16 example_resolve None "[3, 0, 0]"]
  show ?thesis
    using t f r at un
    by (simp add: CheckIfServiceEndpointSliceActive_def example_defs)
qed

end
