(* ===== verification/Handler.thy ===== *)
theory Handler
  imports HostManager OperatorClient Throttler
begin

text \<open>
  \<open>resolver/internal/handler/handler.go\<close> and \<open>writer.go\<close>: one HTTP request through the resolver.
  \<open>ResponseWriter\<close> is what \<open>net/http\<close> gives the handler (the first status written wins, a write
  without a status writes 200), \<open>responseWriter\<close> the wrapper of \<open>writer.go\<close>. The reverse proxy of
  \<open>httputil\<close> is modelled as far as the handler can see: the request it sends is the one the
  \<open>Director\<close> made, an error of the transport goes to the error handler, a response is copied, and a
  failed copy panics with \<open>http.ErrAbortHandler\<close>. The parser of URLs, the transport and the Sentry hub
  are parameters in \<open>request_env\<close>, together with the attempts of the throttler. The operations of
  the interfaces \<open>Operator\<close> and \<open>HostManager\<close> are the fields of \<open>Deps\<close>; the lemmas about the
  handler are proved in the locale \<open>resolver\<close>, from the laws of the two interfaces.
  A goroutine started with \<open>go\<close> runs at once. Metrics and log lines are left out.
\<close>

section \<open>Response writers\<close>

record ResponseWriter =
  rw_header :: "string \<rightharpoonup> string"
  rw_status :: "int option"
  rw_body :: string
  rw_broken :: "goerr option"

definition raw_WriteHeader :: "ResponseWriter \<Rightarrow> int \<Rightarrow> ResponseWriter" where
  "raw_WriteHeader w c = (if rw_status w = None then w\<lparr>rw_status := Some c\<rparr> else w)"

definition raw_Write :: "ResponseWriter \<Rightarrow> string \<Rightarrow> (int \<times> goerr option) \<times> ResponseWriter" where
  "raw_Write w b =
     (let w' = raw_WriteHeader w 200
      in case rw_broken w' of
           Some e \<Rightarrow> ((0, Some e), w')
         | None \<Rightarrow> ((int (length b), None), w'\<lparr>rw_body := rw_body w' @ b\<rparr>))"

definition raw_Set :: "ResponseWriter \<Rightarrow> string \<Rightarrow> string \<Rightarrow> ResponseWriter" where
  "raw_Set w k v = w\<lparr>rw_header := (rw_header w)(k \<mapsto> v)\<rparr>"

record responseWriter =
  inner :: ResponseWriter
  statusCode :: int
  body :: string

definition newResponseWriter :: "ResponseWriter \<Rightarrow> responseWriter" where
  "newResponseWriter w = \<lparr>inner = w, statusCode = 0, body = ''''\<rparr>"

definition WriteHeader :: "responseWriter \<Rightarrow> int \<Rightarrow> responseWriter" where
  "WriteHeader rw c = rw\<lparr>statusCode := c, inner := raw_WriteHeader (inner rw) c\<rparr>"

definition Write :: "responseWriter \<Rightarrow> string \<Rightarrow> (int \<times> goerr option) \<times> responseWriter" where
  "Write rw b =
     (case raw_Write (inner rw) b of
        ((res, err), w) \<Rightarrow>
          let rw' = rw\<lparr>body := body rw @ b, inner := w\<rparr>
          in case err of
               Some e \<Rightarrow> ((0, Some (Wrap ''Write'' e)), rw')
             | None \<Rightarrow> ((res, None), rw'))"

definition Header_Set :: "responseWriter \<Rightarrow> string \<Rightarrow> string \<Rightarrow> responseWriter" where
  "Header_Set rw k v = rw\<lparr>inner := raw_Set (inner rw) k v\<rparr>"

definition Header_Get :: "responseWriter \<Rightarrow> string \<Rightarrow> string" where
  "Header_Get rw k = (case rw_header (inner rw) k of None \<Rightarrow> '''' | Some v \<Rightarrow> v)"

text \<open>\<open>http.Error\<close>; the result of its final write is ignored.\<close>

definition http_Error :: "responseWriter \<Rightarrow> string \<Rightarrow> int \<Rightarrow> responseWriter" where
  "http_Error rw msg c =
     snd (Write (WriteHeader (Header_Set (Header_Set rw ''Content-Type'' ''text/plain; charset=utf-8'')
       ''X-Content-Type-Options'' ''nosniff'') c) (msg @ [CHR 0x0A]))"

section \<open>The proxy\<close>

datatype round_trip =
    RT_Response int "(string \<times> string) list" string
  | RT_Error goerr
  | RT_Panic "goerr option"

text \<open>A panic value is an error (\<open>Some\<close>) or something else (\<open>None\<close>).\<close>

datatype ('a) proxied = Done 'a | Panicked "goerr option" 'a

definition req_Header_Get :: "Request \<Rightarrow> string \<Rightarrow> string" where
  "req_Header_Get req k =
     (case Req_Header req k of Some (v # _) \<Rightarrow> v | _ \<Rightarrow> '''')"

definition Director :: "string \<Rightarrow> Request \<Rightarrow> Request" where
  "Director target req =
     (let originalHost = Req_Host req;
          req1 = req\<lparr>Req_URL := target,
                     Req_Header := (Req_Header req)(''X-Forwarded-Host'' \<mapsto> [originalHost])\<rparr>;
          req2 = (if req_Header_Get req1 '':authority'' \<noteq> ''''
                  then req1\<lparr>Req_Header := (Req_Header req1)('':authority'' \<mapsto> [originalHost])\<rparr>
                  else req1)
      in req2\<lparr>Req_Host := originalHost\<rparr>)"

definition proxy_ErrorHandler :: "responseWriter \<Rightarrow> goerr \<Rightarrow> responseWriter" where
  "proxy_ErrorHandler w err =
     (if Header_Get w ''Content-Type'' = '''' then
        snd (Write (WriteHeader (Header_Set w ''Content-Type'' ''text/plain; charset=utf-8'') 502)
          ''Bad Gateway'')
      else w)"

text \<open>\<open>ReverseProxy.ServeHTTP\<close> with the \<open>Director\<close>, the transport and the error handler above.\<close>

definition proxy_ServeHTTP ::
  "(Request \<Rightarrow> round_trip) \<Rightarrow> string \<Rightarrow> responseWriter \<Rightarrow> Request \<Rightarrow> responseWriter proxied" where
  "proxy_ServeHTTP transport targetURL w req =
     (case transport (Director targetURL req) of
        RT_Error err \<Rightarrow> Done (proxy_ErrorHandler w err)
      | RT_Panic v \<Rightarrow> Panicked v w
      | RT_Response status headers content \<Rightarrow>
          (let w1 = WriteHeader (fold (\<lambda>(k, v) w. Header_Set w k v) headers w) status
           in case Write w1 content of
                ((n, Some e), w2) \<Rightarrow> Panicked (Some (Err ''net/http: abort Handler'')) w2
              | ((n, None), w2) \<Rightarrow> Done w2))"

record request_env =
  url_Parse :: "string \<Rightarrow> string result"
  transport :: "Request \<Rightarrow> round_trip"
  capture :: "goerr \<Rightarrow> string option"
  attempts :: "int \<Rightarrow> attempt"

text \<open>The deferred \<open>recover\<close> turns a panic with an error into an error; its type assertion panics
  when the value is something else.\<close>

definition ProxyRequest ::
  "request_env \<Rightarrow> responseWriter \<Rightarrow> Request \<Rightarrow> Host \<Rightarrow> (goerr option \<times> responseWriter) go" where
  "ProxyRequest env w req host =
     (case url_Parse env (TargetHost host @ Req_RequestURI req) of
        Inl err \<Rightarrow> Ret (Some (Wrap ''error parsing target URL'' err), w)
      | Inr targetURL \<Rightarrow>
          (case proxy_ServeHTTP (transport env) targetURL w req of
             Done w' \<Rightarrow> Ret (None, w')
           | Panicked (Some e) w' \<Rightarrow> Ret (Some (Wrap ''panic in ProxyRequest'' e), w')
           | Panicked None w' \<Rightarrow> Panic ''interface conversion: not an error''))"

section \<open>The handler\<close>

record ('m, 'o) Deps =
  dep_GetHost :: "'m \<Rightarrow> Request \<Rightarrow> (Host \<times> goerr option \<times> 'm) go"
  dep_DisableTrafficForHost :: "int \<Rightarrow> 'm \<Rightarrow> string \<Rightarrow> 'm"
  dep_SendIncomingRequestInfo :: "int \<Rightarrow> 'o \<Rightarrow> string \<Rightarrow> string \<Rightarrow> 'o"

record ('m, 'o) Handler =
  throttler :: Throttler
  timeout :: int
  operatorRPC :: 'o
  hostManager :: 'm

definition NewHandler :: "Throttler \<Rightarrow> int \<Rightarrow> 'o \<Rightarrow> 'm \<Rightarrow> ('m, 'o) Handler" where
  "NewHandler t d op m = \<lparr>throttler = t, timeout = d, operatorRPC = op, hostManager = m\<rparr>"

text \<open>What the callbacks of \<open>Try\<close> work on: the response, the host manager and the operator client.\<close>

type_synonym ('m, 'o) tried = "responseWriter \<times> 'm \<times> 'o"

definition handler_resolve ::
  "('m, 'o) Deps \<Rightarrow> request_env \<Rightarrow> Request \<Rightarrow> Host \<Rightarrow> ('m, 'o) tried resolver" where
  "handler_resolve D env req host count tm = (\<lambda>(w, m, op).
     (case ProxyRequest env w req host of
        Panic p \<Rightarrow> Panic p
      | Ret (Some err, w') \<Rightarrow>
          (case capture env err of Some p \<Rightarrow> Panic p | None \<Rightarrow> Ret (Some err, (w', m, op)))
      | Ret (None, w') \<Rightarrow>
          Ret (None, (w', dep_DisableTrafficForHost D tm m (IncomingHost host), op))))"

definition handler_callback :: "('m, 'o) Deps \<Rightarrow> Host \<Rightarrow> int \<Rightarrow> ('m, 'o) tried \<Rightarrow> ('m, 'o) tried" where
  "handler_callback D host tm = (\<lambda>(w, m, op).
     (w, m, dep_SendIncomingRequestInfo D tm op (Namespace host) (SourceService host)))"

definition refuse_traffic :: "responseWriter \<Rightarrow> goerr \<times> responseWriter" where
  "refuse_traffic w =
     (case Write (WriteHeader (Header_Set (Header_Set w ''Connection'' ''close'')
              ''Content-Type'' ''application/json'') 403) ''{\"error\": \"traffic is switched\"}'' of
        ((n, Some err), w') \<Rightarrow> (Wrap ''error writing response'' err, w')
      | ((n, None), w') \<Rightarrow> (Err ''traffic not allowed by resolver'', w'))"

definition handleAnyRequest ::
  "('m, 'o) Deps \<Rightarrow> request_env \<Rightarrow> int \<Rightarrow> ('m, 'o) Handler \<Rightarrow> responseWriter \<Rightarrow> Request \<Rightarrow>
   (Host \<times> goerr option \<times> responseWriter \<times> ('m, 'o) Handler) go option" where
  "handleAnyRequest D env now h w req =
     (case dep_GetHost D (hostManager h) req of
        Panic p \<Rightarrow> Some (Panic p)
      | Ret (host, Some err, m) \<Rightarrow>
          Some (Ret (host, Some (Wrap ''error getting host'' err),
            http_Error w ''Error getting host'' 500, h\<lparr>hostManager := m\<rparr>))
      | Ret (host, None, m) \<Rightarrow>
          if \<not> TrafficAllowed host then
            (case refuse_traffic w of
               (err, w') \<Rightarrow> Some (Ret (host, Some err, w', h\<lparr>hostManager := m\<rparr>)))
          else
            (let op = dep_SendIncomingRequestInfo D now (operatorRPC h) (Namespace host)
                        (SourceService host)
             in case Try (now + timeout h) host (handler_resolve D env req host)
                       (handler_callback D host) (attempts env) now (throttler h) (w, m, op) of
                  None \<Rightarrow> None
                | Some (Panic p) \<Rightarrow> Some (Panic p)
                | Some (Ret (tryErr, t', (w', m', op'), tm)) \<Rightarrow>
                    let h' = h\<lparr>throttler := t', hostManager := m', operatorRPC := op'\<rparr>
                    in case tryErr of
                         None \<Rightarrow> Some (Ret (host, None, w', h'))
                       | Some err \<Rightarrow>
                           if errors_Is err DeadlineExceeded then
                             Some (Ret (host, Some (Wrap ''throttler try error'' err),
                               http_Error w' ''request timeout'' 408, h'))
                           else
                             Some (Ret (host, Some (Wrap ''throttler try error'' err),
                               WriteHeader w' 500, h'))))"

text \<open>\<open>ServeHTTP\<close>: the response the client gets, and the status and error the histogram records.\<close>

definition ServeHTTP ::
  "('m, 'o) Deps \<Rightarrow> request_env \<Rightarrow> int \<Rightarrow> ('m, 'o) Handler \<Rightarrow> ResponseWriter \<Rightarrow> Request \<Rightarrow>
   (ResponseWriter \<times> int \<times> goerr option \<times> ('m, 'o) Handler) go option" where
  "ServeHTTP D env now h w req =
     map_option
       (\<lambda>r. case r of
          Panic p \<Rightarrow> Panic p
        | Ret (host, err, cw, h') \<Rightarrow> Ret (inner cw, statusCode cw, err, h'))
       (handleAnyRequest D env now h (newResponseWriter w) req)"

definition GetQueueStatus ::
  "('m, 'o) Handler \<Rightarrow> ResponseWriter \<Rightarrow> string \<Rightarrow> string \<Rightarrow> ResponseWriter" where
  "GetQueueStatus h w namespace service =
     (let queueSize = GetQueueSize (throttler h) namespace service;
          response = (if queueSize > 0 then ''{\"queueStatus\":1}'' else ''{\"queueStatus\":0}'')
      in case raw_Write (raw_Set w ''Content-Type'' ''application/json'') (response @ [CHR 0x0A]) of
           ((n, None), w') \<Rightarrow> w'
         | ((n, Some err), w') \<Rightarrow>
             inner (http_Error (newResponseWriter w') ''Internal Server Error'' 500))"

section \<open>What a try leaves behind\<close>

definition tell :: "('m, 'o) Deps \<Rightarrow> Host \<Rightarrow> int list \<Rightarrow> 'o \<Rightarrow> 'o" where
  "tell D host ts op =
     fold (\<lambda>tm op. dep_SendIncomingRequestInfo D tm op (Namespace host) (SourceService host)) ts op"

lemma fold_callback:
  "fold (handler_callback D host) ts (w, m, op) = (w, m, tell D host ts op)"
  by (induction ts arbitrary: op) (auto simp: handler_callback_def tell_def)

lemma handler_resolve_Ret:
  assumes "handler_resolve D env req host n tm (w, m, op) = Ret (res, (w', m', op'))"
  shows "op' = op \<and> ProxyRequest env w req host = Ret (res, w') \<and>
    m' = (if res = None then dep_DisableTrafficForHost D tm m (IncomingHost host) else m)"
  using assms by (auto simp: handler_resolve_def split: go.splits option.splits)

lemma handler_Try:
  assumes "0 < th_retryDuration t" "ready_inv t"
    and "Try deadline host (handler_resolve D env req host) (handler_callback D host) A now t (w, m, op) =
      Some (Ret (e, t', (w', m', op'), tm))"
  shows "\<exists>ts. op' = tell D host ts op \<and>
    ((e \<noteq> None \<and> w' = w \<and> m' = m) \<or>
     (\<exists>res. ProxyRequest env w req host = Ret (res, w') \<and> (e = None \<longleftrightarrow> res = None \<and> tm < deadline) \<and>
        m' = (if res = None then dep_DisableTrafficForHost D tm m (IncomingHost host) else m)))"
proof -
  let ?f = "\<lambda>ts. fold (handler_callback D host) ts (w, m, op)"
  from Try_once [OF assms] obtain ts where
    "(e \<noteq> None \<and> (w', m', op') = ?f ts) \<or>
     (\<exists>n res. handler_resolve D env req host n tm (?f ts) = Ret (res, (w', m', op')) \<and>
        (e = None \<longleftrightarrow> res = None \<and> tm < deadline))" by blast
  then consider (gave_up) "e \<noteq> None" "(w', m', op') = ?f ts"
    | (resolved) n res where "handler_resolve D env req host n tm (?f ts) = Ret (res, (w', m', op'))"
        "e = None \<longleftrightarrow> res = None \<and> tm < deadline" by blast
  then show ?thesis
  proof cases
    case gave_up
    then show ?thesis unfolding fold_callback by (intro exI [of _ ts]) simp
  next
    case resolved
    from handler_resolve_Ret [OF resolved(1) [unfolded fold_callback]] resolved(2)
    show ?thesis by (intro exI [of _ ts]) blast
  qed
qed

section \<open>The handler on top of its interfaces\<close>

locale resolver =
  hm: host_manager "dep_GetHost D" "dep_DisableTrafficForHost D" inv +
  op: operator "dep_SendIncomingRequestInfo D" told
  for D :: "('m, 'o) Deps" and inv :: "'m \<Rightarrow> bool" and told :: "'o \<Rightarrow> string \<Rightarrow> bool"
begin

lemma told_tell:
  "told (tell D host ts (dep_SendIncomingRequestInfo D now op (Namespace host) (SourceService host)))
     (SourceService host)"
  unfolding tell_def by (intro op.sends_keep op.send_tells)

lemma handle_tells:
  assumes "0 < th_retryDuration (throttler h)" "ready_inv (throttler h)"
    and "dep_GetHost D (hostManager h) req = Ret (host, None, m)" "TrafficAllowed host"
    and "handleAnyRequest D env now h w req = Some (Ret (host', e, w', h'))"
  shows "told (operatorRPC h') (SourceService host)"
proof -
  let ?op = "dep_SendIncomingRequestInfo D now (operatorRPC h) (Namespace host) (SourceService host)"
  from assms(3-5) obtain tryErr t' w1 m' tm where
    "Try (now + timeout h) host (handler_resolve D env req host) (handler_callback D host)
      (attempts env) now (throttler h) (w, m, ?op) = Some (Ret (tryErr, t', (w1, m', operatorRPC h'), tm))"
    by (auto simp: handleAnyRequest_def Let_def split: option.splits go.splits if_splits)
  from handler_Try [OF assms(1,2) this] show ?thesis using told_tell by auto
qed

lemma handle_success:
  assumes "0 < th_retryDuration (throttler h)" "ready_inv (throttler h)"
    and "handleAnyRequest D env now h w req = Some (Ret (host, None, w', h'))"
  obtains m tm where "dep_GetHost D (hostManager h) req = Ret (host, None, m)" "TrafficAllowed host"
    "ProxyRequest env w req host = Ret (None, w')"
    "hostManager h' = dep_DisableTrafficForHost D tm m (IncomingHost host)"
proof -
  from assms(3) obtain m t' op' tm where
    g: "dep_GetHost D (hostManager h) req = Ret (host, None, m)" "TrafficAllowed host"
    and t: "Try (now + timeout h) host (handler_resolve D env req host) (handler_callback D host)
      (attempts env) now (throttler h)
      (w, m, dep_SendIncomingRequestInfo D now (operatorRPC h) (Namespace host) (SourceService host)) =
        Some (Ret (None, t', (w', hostManager h', op'), tm))"
    by (auto simp: handleAnyRequest_def Let_def split: option.splits go.splits if_splits prod.splits)
  from handler_Try [OF assms(1,2) t] have "ProxyRequest env w req host = Ret (None, w')"
    "hostManager h' = dep_DisableTrafficForHost D tm m (IncomingHost host)" by auto
  with g that show thesis by blast
qed

lemma handle_then_refused:
  assumes "0 < th_retryDuration (throttler h)" "ready_inv (throttler h)" "inv (hostManager h)"
    and "handleAnyRequest D env now h w req = Some (Ret (host, None, w', h'))"
  shows "handleAnyRequest D env2 now2 h' w2 req =
    Some (Ret (host\<lparr>TrafficAllowed := False\<rparr>, Some (fst (refuse_traffic w2)), snd (refuse_traffic w2), h'))"
proof -
  from assms(1,2,4) obtain m tm where
    g: "dep_GetHost D (hostManager h) req = Ret (host, None, m)"
    and h': "hostManager h' = dep_DisableTrafficForHost D tm m (IncomingHost host)"
    by (rule handle_success)
  have "dep_GetHost D (hostManager h') req =
      Ret (host\<lparr>TrafficAllowed := False\<rparr>, None, hostManager h')"
    using hm.get_disabled [OF assms(3) g] h' by simp
  then show ?thesis by (simp add: handleAnyRequest_def split: prod.splits)
qed

end

definition resolver_deps :: "(HostManager, Client) Deps" where
  "resolver_deps =
     \<lparr>dep_GetHost = GetHost, dep_DisableTrafficForHost = DisableTrafficForHost,
      dep_SendIncomingRequestInfo = (\<lambda>now. SendIncomingRequestInfo_enter now None)\<rparr>"

lemma resolver_deps_sel [simp]:
  "dep_GetHost resolver_deps = GetHost"
  "dep_DisableTrafficForHost resolver_deps = DisableTrafficForHost"
  "dep_SendIncomingRequestInfo resolver_deps = (\<lambda>now. SendIncomingRequestInfo_enter now None)"
  by (simp_all add: resolver_deps_def)

interpretation rs: resolver resolver_deps hm_inv told
  unfolding resolver_def resolver_deps_sel
  by (intro conjI hm.host_manager_axioms rpc.operator_axioms)

section \<open>What a request leaves behind\<close>

text \<open>The time at which the handling of a request ends.\<close>

definition request_end ::
  "('m, 'o) Deps \<Rightarrow> request_env \<Rightarrow> int \<Rightarrow> ('m, 'o) Handler \<Rightarrow> responseWriter \<Rightarrow> Request \<Rightarrow> int" where
  "request_end D env now h w req =
     (case dep_GetHost D (hostManager h) req of
        Ret (host, None, m) \<Rightarrow>
          if \<not> TrafficAllowed host then now
          else
            (case Try (now + timeout h) host (handler_resolve D env req host) (handler_callback D host)
                    (attempts env) now (throttler h)
                    (w, m, dep_SendIncomingRequestInfo D now (operatorRPC h) (Namespace host)
                             (SourceService host)) of
               Some (Ret (tryErr, t', s', tm)) \<Rightarrow> tm
             | _ \<Rightarrow> now)
      | _ \<Rightarrow> now)"

text \<open>The state the callbacks of a request work on, at a time.\<close>

definition tried_inv :: "int \<Rightarrow> string \<Rightarrow> int \<Rightarrow> int \<Rightarrow> (HostManager, Client) tried \<Rightarrow> bool" where
  "tried_inv reEnable header retry t = (\<lambda>(w, m, op). hm_reach reEnable header m \<and> oc_inv retry t op)"

interpretation hc: try_callbacks "handler_resolve resolver_deps env req host"
  "handler_callback resolver_deps host" "tried_inv reEnable header retry"
proof unfold_locales
  show "tried_inv reEnable header retry tm s" if "tried_inv reEnable header retry t s" "t \<le> tm" for t tm s
    using that oc_inv_mono by (auto simp: tried_inv_def)
  show "tried_inv reEnable header retry t (handler_callback resolver_deps host t s)"
    if "tried_inv reEnable header retry t s" for t s
    using that oc_inv_enter by (auto simp: tried_inv_def handler_callback_def)
  show "tried_inv reEnable header retry t s'" if "tried_inv reEnable header retry t s"
    "handler_resolve resolver_deps env req host n t s = Ret (res, s')" for t s s' n res
    using that hm_reach.disable
    by (auto simp: tried_inv_def handler_resolve_def split: go.splits option.splits)
qed

definition handler_inv :: "int \<Rightarrow> string \<Rightarrow> int \<Rightarrow> int \<Rightarrow> int \<Rightarrow> (HostManager, Client) Handler \<Rightarrow> bool" where
  "handler_inv reEnable header retry queueRetry t h =
     (hm_reach reEnable header (hostManager h) \<and> oc_inv retry t (operatorRPC h) \<and>
      ready_inv (throttler h) \<and> th_retryDuration (throttler h) = queueRetry)"

lemma handle_keeps:
  assumes "handler_inv reEnable header retry queueRetry t h" "t \<le> now" "0 < queueRetry"
    and "handleAnyRequest resolver_deps env now h w req = Some (Ret (host, e, w', h'))"
  shows "handler_inv reEnable header retry queueRetry (request_end resolver_deps env now h w req) h' \<and>
    now \<le> request_end resolver_deps env now h w req \<and> timeout h' = timeout h"
proof -
  note inv = assms(1) [unfolded handler_inv_def]
  have op: "oc_inv retry now (operatorRPC h)" using inv oc_inv_mono assms(2) by blast
  obtain host1 e1 m where g: "GetHost (hostManager h) req = Ret (host1, e1, m)"
    using assms(4) by (auto simp: handleAnyRequest_def split: go.splits)
  have m: "hm_reach reEnable header m" using inv hm_reach.get [OF _ g] by blast
  show ?thesis
  proof (cases "e1 = None \<and> TrafficAllowed host1")
    case False
    then have "h' = h\<lparr>hostManager := m\<rparr>" "request_end resolver_deps env now h w req = now"
      using assms(4) g by (auto simp: handleAnyRequest_def request_end_def split: option.splits prod.splits)
    with inv op m show ?thesis by (simp add: handler_inv_def)
  next
    case True
    let ?op = "SendIncomingRequestInfo_enter now None (operatorRPC h) (Namespace host1) (SourceService host1)"
    from assms(4) g True obtain tryErr t' w1 m1 op1 tm where tried: "Try (now + timeout h) host1
        (handler_resolve resolver_deps env req host1) (handler_callback resolver_deps host1)
        (attempts env) now (throttler h) (w, m, ?op) = Some (Ret (tryErr, t', (w1, m1, op1), tm))"
      and h': "h' = h\<lparr>throttler := t', hostManager := m1, operatorRPC := op1\<rparr>"
      by (auto simp: handleAnyRequest_def Let_def split: option.splits go.splits if_splits)
    have q: "tried_inv reEnable header retry now (w, m, ?op)"
      using m oc_inv_enter [OF op] by (simp add: tried_inv_def)
    have th: "ready_inv (throttler h)" "0 < th_retryDuration (throttler h)" using inv assms(3) by auto
    have "request_end resolver_deps env now h w req = tm"
      using g True tried by (simp add: request_end_def)
    with hc.Try_keeps [OF q th tried] h' inv show ?thesis by (simp add: handler_inv_def tried_inv_def)
  qed
qed

section \<open>Properties\<close>

definition fresh_writer :: "ResponseWriter \<Rightarrow> bool" where
  "fresh_writer w = (rw_status w = None \<and> rw_broken w = None \<and> rw_header w ''Content-Type'' = None)"

lemmas writer_defs =
  Write_def WriteHeader_def raw_Write_def raw_WriteHeader_def Header_Set_def raw_Set_def
  newResponseWriter_def http_Error_def Let_def

lemma handle_returns:
  assumes "0 < th_retryDuration (throttler h)" "ready_inv (throttler h)"
  shows "handleAnyRequest D env now h w req \<noteq> None"
proof
  assume none: "handleAnyRequest D env now h w req = None"
  obtain host e m where g: "dep_GetHost D (hostManager h) req = Ret (host, e, m)"
    using none by (auto simp: handleAnyRequest_def split: go.splits)
  then have "e = None" "TrafficAllowed host"
    using none by (auto simp: handleAnyRequest_def split: option.splits if_splits prod.splits)
  with g none Try_returns [OF assms, of "now + timeout h" host "handler_resolve D env req host"
      "handler_callback D host" "attempts env" now "(w, m, dep_SendIncomingRequestInfo D now (operatorRPC h)
        (Namespace host) (SourceService host))"]
  show False
    by (auto simp: handleAnyRequest_def Let_def split: option.splits go.splits if_splits prod.splits)
qed

text \<open>
  What the outside owes the handler for it not to panic: a transport that panics, if at all, with an error,
  a Sentry client that does not, and headers that have a value, as \<open>net/http\<close> makes them.
\<close>

definition quiet_env :: "request_env \<Rightarrow> bool" where
  "quiet_env env = ((\<forall>req. transport env req \<noteq> RT_Panic None) \<and> (\<forall>e. capture env e = None))"

lemma ProxyRequest_no_panic: "quiet_env env \<Longrightarrow> ProxyRequest env w req host \<noteq> Panic m"
  by (auto simp: ProxyRequest_def proxy_ServeHTTP_def quiet_env_def Let_def
      split: sum.splits round_trip.splits prod.splits option.splits proxied.splits)

lemma handler_resolve_no_panic: "quiet_env env \<Longrightarrow> handler_resolve D env req host n tm s \<noteq> Panic m"
  using ProxyRequest_no_panic [of env]
  by (cases s) (auto simp: handler_resolve_def quiet_env_def split: go.splits option.splits)

lemma handle_no_panic:
  assumes "0 < th_retryDuration (throttler h)" "ready_inv (throttler h)" "quiet_env env"
    and "dep_GetHost D (hostManager h) req \<noteq> Panic m"
  shows "handleAnyRequest D env now h w req \<noteq> Some (Panic m)"
proof
  assume p: "handleAnyRequest D env now h w req = Some (Panic m)"
  then obtain host e k where "dep_GetHost D (hostManager h) req = Ret (host, e, k)"
    using assms(4) by (auto simp: handleAnyRequest_def split: go.splits)
  with p obtain s where "Try (now + timeout h) host (handler_resolve D env req host) (handler_callback D host)
      (attempts env) now (throttler h) s = Some (Panic m)"
    by (auto simp: handleAnyRequest_def Let_def split: option.splits go.splits if_splits prod.splits)
  from Try_panic [OF assms(1,2) this] show False using handler_resolve_no_panic [OF assms(3)] by metis
qed

lemma GetHost_no_panic: "(\<And>k. Req_Header req k \<noteq> Some []) \<Longrightarrow> GetHost hm req \<noteq> Panic m"
  by (auto simp: GetHost_def incomingHost_of_def Let_def split: option.splits list.splits prod.splits)

lemma ServeHTTP_Ret:
  "ServeHTTP D env now h w req = Some (Ret (cw, code, e, h')) \<longleftrightarrow>
     (\<exists>host rw. handleAnyRequest D env now h (newResponseWriter w) req = Some (Ret (host, e, rw, h')) \<and>
        cw = inner rw \<and> code = statusCode rw)"
proof (cases "handleAnyRequest D env now h (newResponseWriter w) req")
  case None
  then show ?thesis by (simp add: ServeHTTP_def)
next
  case (Some r)
  then show ?thesis by (cases r) (auto simp: ServeHTTP_def)
qed

lemma handle_served:
  assumes "GetHost (hostManager h) req = Ret (host, None, m)" "TrafficAllowed host"
    and "ready_at_once (attempts env) host (throttler h) wt"
    and "tm = now + int wt + int (at_work (attempts env 1))" "tm < now + timeout h"
    and "ProxyRequest env w req host = Ret (None, w')"
  shows "\<exists>h'. handleAnyRequest resolver_deps env now h w req = Some (Ret (host, None, w', h')) \<and>
    hostManager h' = DisableTrafficForHost tm m (IncomingHost host)"
proof -
  let ?op = "SendIncomingRequestInfo_enter now None (operatorRPC h) (Namespace host) (SourceService host)"
  have "handler_resolve resolver_deps env req host 1 tm (w, m, ?op) =
      Ret (None, (w', DisableTrafficForHost tm m (IncomingHost host), ?op))"
    using assms(6) by (simp add: handler_resolve_def)
  from Try_first [of "attempts env" host "throttler h" wt tm now "handler_resolve resolver_deps env req host"
      "(w, m, ?op)", OF assms(3,4) this, of "now + timeout h" "handler_callback resolver_deps host"]
  show ?thesis
    using assms(1,2,5) by (auto simp: handleAnyRequest_def Let_def)
qed

text \<open>A resolver with the default configuration, and the environment of a request to it.\<close>

definition example_handler :: "Throttler \<Rightarrow> (HostManager, Client) Handler" where
  "example_handler t = NewHandler t 600 (NewOperatorClient 30) (NewHostManager 30 ''Host'')"

definition example_request_env :: "bool \<Rightarrow> nat \<Rightarrow> round_trip \<Rightarrow> request_env" where
  "example_request_env ready work rt =
     \<lparr>url_Parse = Inr, transport = (\<lambda>req. rt), capture = (\<lambda>err. None),
      attempts = (\<lambda>n. \<lparr>admission = Granted 0, at_list = (\<lambda>ns sel. Inr [[\<lparr>Ready = Some ready\<rparr>]]),
                      at_work = work\<rparr>)\<rparr>"

definition empty_writer :: ResponseWriter where
  "empty_writer = \<lparr>rw_header = Map.empty, rw_status = None, rw_body = [], rw_broken = None\<rparr>"

lemma fresh_empty [simp]: "fresh_writer empty_writer"
  by (simp add: fresh_writer_def empty_writer_def)

lemma example_handler_sel [simp]:
  "throttler (example_handler t) = t" "timeout (example_handler t) = 600"
  "hostManager (example_handler t) = NewHostManager 30 ''Host''"
  by (simp_all add: example_handler_def NewHandler_def)

definition example_manager :: HostManager where
  "example_manager = (NewHostManager 30 ''Host'')
     \<lparr>hosts := (hosts (NewHostManager 30 ''Host''))(''web.shop'' \<mapsto> web_shop)\<rparr>"

lemma example_handler_lookup:
  "GetHost (hostManager (example_handler t)) (get_request ''web.shop'') = Ret (web_shop, None, example_manager)"
  using example_lookup by (simp add: example_manager_def)

lemma rw_body_empty [simp]: "rw_body empty_writer = []"
  by (simp add: empty_writer_def)

lemma example_throttler_ok:
  obtains t where "NewThrottler example_params = Ret t" "th_retryDuration t = 5"
    "serviceReadyMap t = Map.empty" "ready_inv t"
  using example_throttler NewThrottler_fields ready_inv_new by (force simp: example_params_def)

lemma web_shop_sel [simp]: "TrafficAllowed web_shop" "IncomingHost web_shop = ''web.shop''" "SourceService web_shop = ''web''"
  by (simp_all add: web_shop_def)

lemma example_ready_at_once:
  "serviceReadyMap t = Map.empty \<Longrightarrow>
   ready_at_once (attempts (example_request_env True work rt)) host t 0"
  by (simp add: ready_at_once_def example_request_env_def CheckIfServiceEndpointSliceActive_def)





text \<open>A request whose service never has a ready endpoint, and which is never refused a slot,
  gets the status 408, and traffic for its host stays on.\<close>

lemma never_ready_times_out:
  assumes "0 < th_retryDuration (throttler h)" "fresh_writer w"
    and "GetHost (hostManager h) req = Ret (host, None, m)" "TrafficAllowed host"
    and "never_ready (attempts env) host"
    and "serviceReadyMap (throttler h) (svc_key (Namespace host) (TargetService host)) = None"
  shows "\<exists>cw e h'. ServeHTTP resolver_deps env now h w req = Some (Ret (cw, 408, Some e, h')) \<and>
    rw_status cw = Some 408 \<and> hostManager h' = m"
proof -
  let ?op = "SendIncomingRequestInfo_enter now None (operatorRPC h) (Namespace host) (SourceService host)"
  from Try_never_ready [OF assms(1,5,6), of "now + timeout h" "handler_resolve resolver_deps env req host"
      "handler_callback resolver_deps host" now "(newResponseWriter w, m, ?op)"]
  obtain e t' ts tm where
    "Try (now + timeout h) host (handler_resolve resolver_deps env req host)
      (handler_callback resolver_deps host) (attempts env) now (throttler h) (newResponseWriter w, m, ?op) =
      Some (Ret (Some e, t', (newResponseWriter w, m, tell resolver_deps host ts ?op), tm))"
    "errors_Is e DeadlineExceeded"
    unfolding fold_callback by blast
  then show ?thesis
    using assms(2-4)
    by (simp add: ServeHTTP_def handleAnyRequest_def writer_defs fresh_writer_def)
qed

lemma never_ready_times_out_example:
  "\<exists>t cw e h'. NewThrottler example_params = Ret t \<and>
     ServeHTTP resolver_deps (example_request_env False 1 (RT_Error Canceled)) 0 (example_handler t)
       empty_writer (get_request ''web.shop'') = Some (Ret (cw, 408, Some e, h')) \<and> rw_status cw = Some 408"
proof -
  obtain t where t: "NewThrottler example_params = Ret t" "th_retryDuration t = 5"
    "serviceReadyMap t = Map.empty" "ready_inv t" by (rule example_throttler_ok)
  let ?env = "example_request_env False 1 (RT_Error Canceled)"
  have "never_ready (attempts ?env) web_shop"
    by (simp add: never_ready_def not_ready_def example_request_env_def CheckIfServiceEndpointSliceActive_def)
  from never_ready_times_out [OF _ fresh_empty example_handler_lookup web_shop_sel(1) this, of t 0] t
  show ?thesis by auto
qed

text \<open>An error of the transport towards a ready service is answered with 502 but counts as
  success: the request has no error, and traffic for the host is switched off.\<close>

lemma bad_gateway_switches_traffic:
  assumes "fresh_writer w" "GetHost (hostManager h) req = Ret (host, None, m)" "TrafficAllowed host"
    and "ready_at_once (attempts env) host (throttler h) wt"
    and "now + int wt + int (at_work (attempts env 1)) < now + timeout h"
    and "url_Parse env (TargetHost host @ Req_RequestURI req) = Inr url"
    and "transport env (Director url req) = RT_Error err"
  shows "\<exists>cw h'. ServeHTTP resolver_deps env now h w req = Some (Ret (cw, 502, None, h')) \<and>
    rw_status cw = Some 502 \<and> rw_body cw = rw_body w @ ''Bad Gateway'' \<and>
    hostManager h' = DisableTrafficForHost (now + int wt + int (at_work (attempts env 1))) m (IncomingHost host)"
proof -
  let ?op = "SendIncomingRequestInfo_enter now None (operatorRPC h) (Namespace host) (SourceService host)"
  let ?tm = "now + int wt + int (at_work (attempts env 1))"
  define cw where "cw = proxy_ErrorHandler (newResponseWriter w) err"
  have "handler_resolve resolver_deps env req host 1 ?tm (newResponseWriter w, m, ?op) =
      Ret (None, (cw, DisableTrafficForHost ?tm m (IncomingHost host), ?op))"
    using assms(6,7) by (simp add: handler_resolve_def ProxyRequest_def proxy_ServeHTTP_def cw_def)
  from Try_first [of "attempts env" host "throttler h" wt ?tm now "handler_resolve resolver_deps env req host"
      "(newResponseWriter w, m, ?op)", OF assms(4) refl this, of "now + timeout h" "handler_callback resolver_deps host"]
  show ?thesis
    using assms(1-3,5)
    by (auto simp: ServeHTTP_def handleAnyRequest_def Let_def cw_def proxy_ErrorHandler_def
        Header_Get_def writer_defs fresh_writer_def)
qed

lemma bad_gateway_switches_traffic_example:
  "\<exists>t cw h'. NewThrottler example_params = Ret t \<and>
     ServeHTTP resolver_deps (example_request_env True 1 (RT_Error ErrTimeoutDialing)) 0 (example_handler t)
       empty_writer (get_request ''web.shop'') = Some (Ret (cw, 502, None, h')) \<and> rw_body cw = ''Bad Gateway''"
proof -
  obtain t where t: "NewThrottler example_params = Ret t" "th_retryDuration t = 5"
    "serviceReadyMap t = Map.empty" "ready_inv t" by (rule example_throttler_ok)
  let ?env = "example_request_env True 1 (RT_Error ErrTimeoutDialing)"
  have "at_work (attempts ?env 1) = 1" "url_Parse ?env = Inr" "transport ?env = (\<lambda>req. RT_Error ErrTimeoutDialing)"
    by (simp_all add: example_request_env_def)
  with bad_gateway_switches_traffic [OF fresh_empty example_handler_lookup web_shop_sel(1),
      of ?env t 0 0 _ ErrTimeoutDialing] t example_ready_at_once [OF t(3)]
  show ?thesis by auto
qed

text \<open>An answer of the service that arrives after the deadline has been copied to the client
  when the handler adds the text of a timeout to it; the client sees the status of the service,
  the histogram 408.\<close>

lemma late_answer_reported_as_timeout:
  assumes "fresh_writer w" "GetHost (hostManager h) req = Ret (host, None, m)" "TrafficAllowed host"
    and "ready_at_once (attempts env) host (throttler h) wt"
    and "now + timeout h \<le> now + int wt + int (at_work (attempts env 1))"
    and "url_Parse env (TargetHost host @ Req_RequestURI req) = Inr url"
    and "transport env (Director url req) = RT_Response status [] content"
  shows "\<exists>cw e h'. ServeHTTP resolver_deps env now h w req = Some (Ret (cw, 408, Some e, h')) \<and>
    rw_status cw = Some status \<and> rw_body cw = rw_body w @ content @ ''request timeout'' @ [CHR 0x0A]"
proof -
  let ?op = "SendIncomingRequestInfo_enter now None (operatorRPC h) (Namespace host) (SourceService host)"
  let ?tm = "now + int wt + int (at_work (attempts env 1))"
  define cw where "cw = snd (Write (WriteHeader (newResponseWriter w) status) content)"
  have "handler_resolve resolver_deps env req host 1 ?tm (newResponseWriter w, m, ?op) =
      Ret (None, (cw, DisableTrafficForHost ?tm m (IncomingHost host), ?op))"
    using assms(1,6,7)
    by (simp add: handler_resolve_def ProxyRequest_def proxy_ServeHTTP_def cw_def writer_defs fresh_writer_def)
  from Try_first [of "attempts env" host "throttler h" wt ?tm now "handler_resolve resolver_deps env req host"
      "(newResponseWriter w, m, ?op)", OF assms(4) refl this, of "now + timeout h" "handler_callback resolver_deps host"]
  show ?thesis
    using assms(1-3,5)
    by (auto simp: ServeHTTP_def handleAnyRequest_def Let_def cw_def writer_defs fresh_writer_def)
qed

lemma late_answer_reported_as_timeout_example:
  "\<exists>t cw e h'. NewThrottler example_params = Ret t \<and>
     ServeHTTP resolver_deps (example_request_env True 700 (RT_Response 200 [] ''hi'')) 0 (example_handler t)
       empty_writer (get_request ''web.shop'') = Some (Ret (cw, 408, Some e, h')) \<and> rw_status cw = Some 200 \<and>
     rw_body cw = ''hirequest timeout'' @ [CHR 0x0A]"
proof -
  obtain t where t: "NewThrottler example_params = Ret t" "th_retryDuration t = 5"
    "serviceReadyMap t = Map.empty" "ready_inv t" by (rule example_throttler_ok)
  let ?env = "example_request_env True 700 (RT_Response 200 [] ''hi'')"
  have "at_work (attempts ?env 1) = 700" "url_Parse ?env = Inr" "transport ?env = (\<lambda>req. RT_Response 200 [] ''hi'')"
    by (simp_all add: example_request_env_def)
  with late_answer_reported_as_timeout [OF fresh_empty example_handler_lookup web_shop_sel(1),
      of ?env t 0 0 _ 200 "''hi''"] t example_ready_at_once [OF t(3)]
  show ?thesis by auto
qed

text \<open>The queue status tells whether the recorded queue size of the service is positive.\<close>

lemma GetQueueStatus_reports:
  assumes "fresh_writer w"
  shows "rw_status (GetQueueStatus h w ns svc) = Some 200 \<and>
    rw_body (GetQueueStatus h w ns svc) = rw_body w @
      (if GetQueueSize (throttler h) ns svc > 0 then ''{\"queueStatus\":1}'' else ''{\"queueStatus\":0}'') @ [CHR 0x0A]"
  using assms by (simp add: GetQueueStatus_def writer_defs fresh_writer_def)

lemma GetQueueStatus_reports_example:
  "\<exists>t. NewThrottler example_params = Ret t \<and>
     rw_body (GetQueueStatus (example_handler t) empty_writer ''shop'' ''web'') = ''{\"queueStatus\":0}'' @ [CHR 0x0A]"
proof -
  obtain t where t: "NewThrottler example_params = Ret t" using example_throttler by blast
  with GetQueueStatus_reports [OF fresh_empty, of "example_handler t" "''shop''" "''web''"] NewThrottler_fields [OF t]
  show ?thesis by (simp add: GetQueueSize_def)
qed

end
