(* ===== verification/Transport.thy ===== *)
theory Transport
  imports HostManager
begin

text \<open>
  \<open>resolver/internal/throttler/transport.go\<close>: the choice between the two transports and the dialer
  that retries timeouts. \<open>wait.Backoff.Step\<close>, the dialers of \<open>net\<close> and \<open>tls\<close>,
  \<open>http.DefaultTransport\<close> and the round trips of the two transports are parameters; what is needed of \<open>Step\<close> is its documented effect on \<open>Steps\<close> (\<open>counts_steps\<close>).
  \<open>dial n timeout\<close> is the result of the \<open>n\<close>-th dial. The loop returns its result and the number of
  dials; \<open>None\<close> would mean that it never returns.
\<close>

record Backoff =
  Duration :: int
  Steps :: int

datatype 'c dialed = Conn 'c | Timeout goerr | Failed goerr

partial_function (option) dial_loop ::
  "(Backoff \<Rightarrow> int \<times> Backoff) \<Rightarrow> (nat \<Rightarrow> int \<Rightarrow> 'c dialed) \<Rightarrow> int \<Rightarrow> Backoff \<Rightarrow> nat \<Rightarrow> ('c result \<times> nat) option" where
  "dial_loop Step dial dialerTimeout bo n =
     (case dial n dialerTimeout of
        Conn c \<Rightarrow> Some (Inr c, Suc n)
      | Failed err \<Rightarrow> Some (Inl (Wrap ''dialBackOffHelper'' err), Suc n)
      | Timeout err \<Rightarrow>
          if Steps bo < 1 then Some (Inl (Wrap '''' ErrTimeoutDialing), Suc n)
          else (case Step bo of (d, bo') \<Rightarrow> dial_loop Step dial d bo' (Suc n)))"

definition dialBackOffHelper ::
  "(Backoff \<Rightarrow> int \<times> Backoff) \<Rightarrow> (nat \<Rightarrow> int \<Rightarrow> 'c dialed) \<Rightarrow> Backoff \<Rightarrow> ('c result \<times> nat) option" where
  "dialBackOffHelper Step dial bo = dial_loop Step dial (Duration bo) bo 0"

text \<open>\<open>backOffTemplate\<close>: 50 ms, 15 steps.\<close>

definition backOffTemplate :: Backoff where
  "backOffTemplate = \<lparr>Duration = 50 * 1000000, Steps = 15\<rparr>"

definition NewBackoffDialer ::
  "(Backoff \<Rightarrow> int \<times> Backoff) \<Rightarrow> Backoff \<Rightarrow> (nat \<Rightarrow> int \<Rightarrow> 'c dialed) \<Rightarrow> ('c result \<times> nat) option" where
  "NewBackoffDialer Step backoffConfig dial = dialBackOffHelper Step dial backoffConfig"

text \<open>\<open>DialWithBackOff\<close> is the dialer both transports are given.\<close>

definition DialWithBackOff ::
  "(Backoff \<Rightarrow> int \<times> Backoff) \<Rightarrow> (nat \<Rightarrow> int \<Rightarrow> 'c dialed) \<Rightarrow> ('c result \<times> nat) option" where
  "DialWithBackOff Step = NewBackoffDialer Step backOffTemplate"

section \<open>The two transports\<close>

text \<open>
  The fields the code sets; the clone of \<open>http.DefaultTransport\<close> has more, which are kept. What a
  transport does with a request is its own \<open>RoundTrip\<close>, a parameter.
\<close>

record 'd http_Transport =
  DialContext :: 'd
  DisableKeepAlives :: bool
  DisableCompression :: bool
  MaxIdleConns :: int
  MaxIdleConnsPerHost :: int
  ForceAttemptHTTP2 :: bool

record 'd http2_Transport =
  AllowHTTP :: bool
  H2_DisableCompression :: bool
  DialTLS :: 'd

definition newHTTPTransport ::
  "('d, 'x) http_Transport_scheme \<Rightarrow> 'd \<Rightarrow> bool \<Rightarrow> bool \<Rightarrow> int \<Rightarrow> int \<Rightarrow> ('d, 'x) http_Transport_scheme" where
  "newHTTPTransport DefaultTransport dialer disableKeepAlives disableCompression maxIdle maxIdlePerHost =
     DefaultTransport
       \<lparr>DialContext := dialer, DisableKeepAlives := disableKeepAlives, MaxIdleConns := maxIdle,
        MaxIdleConnsPerHost := maxIdlePerHost, ForceAttemptHTTP2 := False,
        DisableCompression := disableCompression\<rparr>"

definition newH2CTransport :: "'d \<Rightarrow> bool \<Rightarrow> 'd http2_Transport" where
  "newH2CTransport dialer disableCompression =
     \<lparr>AllowHTTP = True, H2_DisableCompression = disableCompression, DialTLS = dialer\<rparr>"

definition NewProxyAutoTransport ::
  "(('d, 'x) http_Transport_scheme \<Rightarrow> Request \<Rightarrow> 'r) \<Rightarrow> ('d http2_Transport \<Rightarrow> Request \<Rightarrow> 'r) \<Rightarrow>
   ('d, 'x) http_Transport_scheme \<Rightarrow> 'd \<Rightarrow> int \<Rightarrow> int \<Rightarrow> Request \<Rightarrow> 'r" where
  "NewProxyAutoTransport RoundTrip1 RoundTrip2 DefaultTransport dialer maxIdleProxyConns
       maxIdleProxyConnsPerHost =
     (let v1 = newHTTPTransport DefaultTransport dialer False True maxIdleProxyConns maxIdleProxyConnsPerHost;
          v2 = newH2CTransport dialer True
      in (\<lambda>r. if Req_ProtoMajor r = 2 then RoundTrip2 v2 r else RoundTrip1 v1 r))"

definition counts_steps :: "(Backoff \<Rightarrow> int \<times> Backoff) \<Rightarrow> bool" where
  "counts_steps Step = (\<forall>bo. 1 \<le> Steps bo \<longrightarrow> Steps (snd (Step bo)) = Steps bo - 1)"

definition times_out :: "'c dialed \<Rightarrow> bool" where
  "times_out r = (case r of Timeout e \<Rightarrow> True | _ \<Rightarrow> False)"

lemma dial_loop_connects:
  assumes "counts_steps Step" "int k \<le> max 0 (Steps bo)"
    and "\<And>i d. i < k \<Longrightarrow> times_out (dial (n + i) d)" "\<And>d. dial (n + k) d = Conn c"
  shows "dial_loop Step dial d bo n = Some (Inr c, Suc (n + k))"
  using assms(2-)
proof (induction k arbitrary: n d bo)
  case 0
  then show ?case by (subst dial_loop.simps) simp
next
  case (Suc k)
  obtain e where e: "dial n d = Timeout e" using Suc.prems(2) [of 0 d] by (auto simp: times_out_def split: dialed.splits)
  obtain d' bo' where s: "Step bo = (d', bo')" by fastforce
  have pos: "1 \<le> Steps bo" using Suc.prems(1) by auto
  then have "Steps bo' = Steps bo - 1" using assms(1) s by (auto simp: counts_steps_def dest: spec [of _ bo])
  moreover have "times_out (dial (Suc n + i) d)" if "i < k" for i d
    using Suc.prems(2) [of "Suc i" d] that by simp
  moreover have "dial (Suc n + k) d = Conn c" for d using Suc.prems(3) [of d] by simp
  ultimately have "dial_loop Step dial d' bo' (Suc n) = Some (Inr c, Suc (Suc n + k))"
    using Suc.prems(1) pos by (intro Suc.IH) auto
  then show ?case using e s pos by (subst dial_loop.simps) simp
qed

lemma dial_loop_gives_up:
  assumes "counts_steps Step" "\<And>i d. times_out (dial i d)"
  shows "dial_loop Step dial d bo n = Some (Inl (Wrap '''' ErrTimeoutDialing), n + Suc (nat (Steps bo)))"
proof (induction "nat (Steps bo)" arbitrary: n d bo)
  case 0
  obtain e where "dial n d = Timeout e" using assms(2) [of n d] by (auto simp: times_out_def split: dialed.splits)
  with 0 show ?case by (subst dial_loop.simps) simp
next
  case (Suc k)
  obtain e where e: "dial n d = Timeout e" using assms(2) [of n d] by (auto simp: times_out_def split: dialed.splits)
  obtain d' bo' where s: "Step bo = (d', bo')" by fastforce
  have "Steps bo' = Steps bo - 1" using Suc.hyps(2) assms(1) s by (auto simp: counts_steps_def dest: spec [of _ bo])
  then have k: "k = nat (Steps bo')" using Suc.hyps(2) by simp
  show ?case using e s Suc.hyps(1) [OF k, of d' "Suc n"] Suc.hyps(2) k by (subst dial_loop.simps) simp
qed



text \<open>
  A transport that answers what its dialer answers gives up, for either protocol, after sixteen dials
  when all of them time out.
\<close>

lemma proxy_transport_dials_bounded:
  assumes "counts_steps Step" "\<forall>i d. times_out (dial i d)"
  shows "NewProxyAutoTransport (\<lambda>v1 r. DialContext v1) (\<lambda>v2 r. DialTLS v2) base (DialWithBackOff Step dial)
      maxIdle maxIdlePerHost r = Some (Inl (Wrap '''' ErrTimeoutDialing), 16)"
  using dial_loop_gives_up [OF assms(1), of dial "Duration backOffTemplate" backOffTemplate 0] assms(2)
  by (simp add: NewProxyAutoTransport_def newHTTPTransport_def newH2CTransport_def DialWithBackOff_def
      NewBackoffDialer_def dialBackOffHelper_def backOffTemplate_def)

end
