(* ===== verification/BufferPool.thy ===== *)
theory BufferPool
  imports Prelude
begin

text \<open>
  The buffer pool of \<open>resolver/internal/handler/handler.go\<close>, which lends the reverse proxy the buffers it
  copies answers with. A buffer is its address and its length; \<open>sync.Pool\<close> may give any of the buffers it
  holds, or \<open>nil\<close>, and may drop buffers at any time. \<open>bp_next\<close> is the next free address of the allocator.
\<close>

type_synonym buffer = "nat \<times> nat"

record bufferPool =
  pool :: "buffer list"
  bp_next :: nat

definition NewBufferPool :: "nat \<Rightarrow> bufferPool" where
  "NewBufferPool free = \<lparr>pool = [], bp_next = free\<rparr>"

text \<open>\<open>sync.Pool.Get\<close>: the runtime chooses.\<close>

definition pool_Get :: "nat option \<Rightarrow> bufferPool \<Rightarrow> buffer option \<times> bufferPool" where
  "pool_Get choice b =
     (case choice of
        None \<Rightarrow> (None, b)
      | Some i \<Rightarrow>
          if i < length (pool b)
          then (Some (pool b ! i), b\<lparr>pool := take i (pool b) @ drop (Suc i) (pool b)\<rparr>)
          else (None, b))"

definition bufferPool_Get :: "nat option \<Rightarrow> bufferPool \<Rightarrow> buffer \<times> bufferPool" where
  "bufferPool_Get choice b =
     (case pool_Get choice b of
        (None, b') \<Rightarrow> ((bp_next b', 32 * 1024), b'\<lparr>bp_next := Suc (bp_next b')\<rparr>)
      | (Some buf, b') \<Rightarrow> (buf, b'))"

definition bufferPool_Put :: "bufferPool \<Rightarrow> buffer \<Rightarrow> bufferPool" where
  "bufferPool_Put b buf = b\<lparr>pool := buf # pool b\<rparr>"

section \<open>Lending buffers\<close>

text \<open>
  The pool and the buffers that are lent: every borrower gives back what it was given, once. The
  garbage collector drops buffers of the pool.
\<close>

inductive bp_reach :: "bufferPool \<Rightarrow> buffer list \<Rightarrow> bool" where
  new: "bp_reach (NewBufferPool free) []"
| get: "bp_reach b lent \<Longrightarrow> bufferPool_Get choice b = (buf, b') \<Longrightarrow> bp_reach b' (buf # lent)"
| put: "bp_reach b (xs @ buf # ys) \<Longrightarrow> bp_reach (bufferPool_Put b buf) (xs @ ys)"
| gc: "bp_reach b lent \<Longrightarrow> bp_reach (b\<lparr>pool := filter keep (pool b)\<rparr>) lent"

definition bp_inv :: "bufferPool \<Rightarrow> buffer list \<Rightarrow> bool" where
  "bp_inv b lent =
     (distinct (map fst (pool b @ lent)) \<and>
      (\<forall>buf \<in> set (pool b @ lent). fst buf < bp_next b \<and> snd buf = 32 * 1024))"

lemma bp_inv_Get:
  assumes "bp_inv b lent" "bufferPool_Get choice b = (buf, b')"
  shows "bp_inv b' (buf # lent)"
proof -
  consider (fresh) "buf = (bp_next b, 32 * 1024)" "b' = b\<lparr>bp_next := Suc (bp_next b)\<rparr>"
    | (pooled) xs ys where "pool b = xs @ buf # ys" "b' = b\<lparr>pool := xs @ ys\<rparr>"
    using assms(2) id_take_nth_drop [of _ "pool b"]
    by (auto simp: bufferPool_Get_def pool_Get_def split: option.splits if_splits)
  then show ?thesis
  proof cases
    case fresh
    moreover have "bp_next b \<notin> fst ` set (pool b @ lent)"
    proof
      assume "bp_next b \<in> fst ` set (pool b @ lent)"
      then obtain x where "x \<in> set (pool b @ lent)" "bp_next b = fst x" by (rule imageE)
      with assms(1) show False unfolding bp_inv_def by (metis less_irrefl)
    qed
    ultimately show ?thesis using assms(1) by (auto simp: bp_inv_def less_Suc_eq)
  next
    case pooled
    with assms(1) show ?thesis by (auto simp: bp_inv_def)
  qed
qed

lemma bp_reach_inv: "bp_reach b lent \<Longrightarrow> bp_inv b lent"
proof (induction rule: bp_reach.induct)
  case (get b lent choice buf b')
  then show ?case by (blast intro: bp_inv_Get)
next
  case (put b xs buf ys)
  then show ?case by (auto simp: bp_inv_def bufferPool_Put_def)
next
  case (gc b lent keep)
  then show ?case by (auto simp: bp_inv_def distinct_map_filter)
qed (simp add: bp_inv_def NewBufferPool_def)

text \<open>No two borrowers ever hold the same buffer, and every buffer has the size the reverse proxy uses.\<close>

lemma buffers_not_shared:
  assumes "bp_reach b lent" "bufferPool_Get choice b = (buf, b')"
  shows "fst buf \<notin> fst ` set lent \<and> snd buf = 32768"
  using bp_inv_Get [OF bp_reach_inv [OF assms(1)] assms(2)] by (auto simp: bp_inv_def)

lemma buffers_not_shared_example:
  "bufferPool_Get (Some 0) (bufferPool_Put (NewBufferPool 1) (0, 32768)) = ((0, 32768), NewBufferPool 1) \<and>
   bufferPool_Get (Some 0) (NewBufferPool 1) = ((1, 32768), NewBufferPool 2)"
  by (simp add: NewBufferPool_def bufferPool_Get_def pool_Get_def bufferPool_Put_def)

end
