(* ===== verification/Mux.thy ===== *)
theory Mux
  imports Prelude
begin

text \<open>
  \<open>http.ServeMux\<close> as far as the two programs use it: patterns that are a single slash, which match every
  path, and patterns without a trailing slash, which match one. Except for \<open>CONNECT\<close>, the path is cleaned
  first, and a request whose path was not clean is redirected with status 301. \<open>Redirect\<close> carries the
  cleaned path; \<open>NoRoute\<close> is the answer 404.
\<close>

datatype 'h routed = Route 'h | Redirect string | NoRoute | BadRequest

text \<open>What a server does with a request: \<open>Handled\<close> is the result of the handler.\<close>

datatype 'r answered = Handled 'r | Moved string | StatusOnly int

text \<open>\<open>path.Clean\<close> on a rooted path, by its components.\<close>

definition clean_step :: "string \<Rightarrow> string list \<Rightarrow> string list" where
  "clean_step c acc =
     (if c = '''' \<or> c = ''.'' then acc else if c = ''..'' then butlast acc else acc @ [c])"

definition clean_parts :: "string \<Rightarrow> string list" where
  "clean_parts p = fold clean_step (Split p (CHR ''/'')) []"

definition path_Clean :: "string \<Rightarrow> string" where
  "path_Clean p = ''/'' @ Join (clean_parts p) ''/''"

definition cleanPath :: "string \<Rightarrow> string" where
  "cleanPath p =
     (if p = '''' then ''/''
      else
        let p1 = (if hd p \<noteq> CHR ''/'' then ''/'' @ p else p); np = path_Clean p1
        in if last p1 = CHR ''/'' \<and> np \<noteq> ''/'' then np @ ''/'' else np)"

fun match_pattern :: "(string \<times> 'h) list \<Rightarrow> string \<Rightarrow> 'h option" where
  "match_pattern [] path = None"
| "match_pattern ((pattern, h) # routes) path =
     (if pattern = path then Some h
      else case match_pattern routes path of
             Some h' \<Rightarrow> Some h'
           | None \<Rightarrow> if pattern = ''/'' then Some h else None)"

definition mux_Handler :: "(string \<times> 'h) list \<Rightarrow> string \<Rightarrow> string \<Rightarrow> 'h routed" where
  "mux_Handler routes reqMethod path =
     (let p = (if reqMethod = ''CONNECT'' then path else cleanPath path)
      in if p \<noteq> path then Redirect p
         else (case match_pattern routes p of Some h \<Rightarrow> Route h | None \<Rightarrow> NoRoute))"

text \<open>A request for \<open>*\<close> is refused before it is routed.\<close>

definition mux_ServeHTTP :: "(string \<times> 'h) list \<Rightarrow> string \<Rightarrow> string \<Rightarrow> string \<Rightarrow> 'h routed" where
  "mux_ServeHTTP routes requestURI reqMethod path =
     (if requestURI = ''*'' then BadRequest else mux_Handler routes reqMethod path)"

section \<open>Cleaning twice is cleaning once\<close>

definition clean_name :: "string \<Rightarrow> bool" where
  "clean_name c = (c \<noteq> '''' \<and> c \<noteq> ''.'' \<and> c \<noteq> ''..'' \<and> CHR ''/'' \<notin> set c)"

lemma fold_clean_names: "list_all clean_name cs \<Longrightarrow> fold clean_step cs acc = acc @ cs"
  by (induction cs arbitrary: acc) (auto simp: clean_step_def clean_name_def)

lemma clean_step_keeps:
  "CHR ''/'' \<notin> set c \<Longrightarrow> list_all clean_name acc \<Longrightarrow> list_all clean_name (clean_step c acc)"
  by (auto simp: clean_step_def clean_name_def list_all_iff dest: in_set_butlastD)

lemma fold_clean_keeps:
  "(\<And>c. c \<in> set cs \<Longrightarrow> CHR ''/'' \<notin> set c) \<Longrightarrow> list_all clean_name acc \<Longrightarrow>
   list_all clean_name (fold clean_step cs acc)"
  by (induction cs arbitrary: acc) (simp_all add: clean_step_keeps)

lemma clean_parts_names: "list_all clean_name (clean_parts p)"
  unfolding clean_parts_def by (rule fold_clean_keeps) (auto dest: Split_parts_free)

lemma clean_step_empty [simp]: "clean_step [] acc = acc"
  by (simp add: clean_step_def)

lemma Split_slash: "Split (CHR ''/'' # s) (CHR ''/'') = [] # Split s (CHR ''/'')"
  by simp

lemma Split_Join_names:
  assumes "list_all clean_name cs" "cs \<noteq> []"
  shows "Split (Join cs ''/'') (CHR ''/'') = cs"
  using Split_Join [OF assms(2), of "CHR ''/''"] assms(1) by (auto simp: list_all_iff clean_name_def)

lemma clean_parts_Join: "list_all clean_name cs \<Longrightarrow> clean_parts (''/'' @ Join cs ''/'') = cs"
  by (cases "cs = []") (simp_all add: clean_parts_def Split_Join_names fold_clean_names)

lemma Split_snoc: "Split (s @ [c]) c = Split s c @ [[]]"
  by (induction s) (auto split: list.splits)

lemma clean_parts_snoc: "clean_parts (p @ ''/'') = clean_parts p"
  by (simp add: clean_parts_def Split_snoc)

lemma Join_names_ne: "list_all clean_name cs \<Longrightarrow> cs \<noteq> [] \<Longrightarrow> Join cs ''/'' \<noteq> ''''"
  by (cases cs rule: remdups_adj.cases) (auto simp: clean_name_def)

lemma last_Join_name:
  assumes "list_all clean_name cs" "cs \<noteq> []"
  shows "last (''/'' @ Join cs ''/'') \<noteq> CHR ''/''"
  using assms
proof (induction cs)
  case Nil
  then show ?case by simp
next
  case (Cons c cs)
  show ?case
  proof (cases "cs = []")
    case True
    with Cons.prems show ?thesis by (auto simp: clean_name_def dest: last_in_set)
  next
    case False
    have ne: "Join cs ''/'' \<noteq> ''''"
      using Join_names_ne False Cons.prems by simp
    with Cons False show ?thesis by (simp add: Join_Cons)
  qed
qed

lemma cleanPath_cases:
  obtains (root) "cleanPath p = ''/''"
  | (plain) cs where "list_all clean_name cs" "cs \<noteq> []" "cleanPath p = ''/'' @ Join cs ''/''"
  | (slash) cs where "list_all clean_name cs" "cs \<noteq> []" "cleanPath p = (''/'' @ Join cs ''/'') @ ''/''"
proof (cases "p = ''''")
  case True
  then show thesis using root by (simp add: cleanPath_def)
next
  case False
  let ?p1 = "if hd p \<noteq> CHR ''/'' then ''/'' @ p else p"
  let ?cs = "clean_parts ?p1"
  have names: "list_all clean_name ?cs" by (rule clean_parts_names)
  have np: "path_Clean ?p1 = ''/'' @ Join ?cs ''/''" by (simp add: path_Clean_def)
  have c: "cleanPath p = (if last ?p1 = CHR ''/'' \<and> path_Clean ?p1 \<noteq> ''/'' then path_Clean ?p1 @ ''/'' else path_Clean ?p1)"
    using False by (simp add: cleanPath_def Let_def)
  show thesis
  proof (cases "?cs = []")
    case True
    then show thesis using root c np by simp
  next
    case nonempty: False
    show thesis
    proof (cases "last ?p1 = CHR ''/''")
      case True
      have "Join ?cs ''/'' \<noteq> ''''"
        by (rule Join_names_ne [OF names nonempty])
      then show thesis using slash [OF names nonempty] c np True by simp
    next
      case False
      then show thesis using plain [OF names nonempty] c np by simp
    qed
  qed
qed

lemma path_Clean_names: "list_all clean_name cs \<Longrightarrow> path_Clean (''/'' @ Join cs ''/'') = ''/'' @ Join cs ''/''"
  using clean_parts_Join [of cs] by (simp add: path_Clean_def)

lemma path_Clean_names_slash:
  "list_all clean_name cs \<Longrightarrow> path_Clean ((''/'' @ Join cs ''/'') @ ''/'') = ''/'' @ Join cs ''/''"
  using clean_parts_Join [of cs] clean_parts_snoc [of "''/'' @ Join cs ''/''"] by (simp add: path_Clean_def)

lemma cleanPath_idem: "cleanPath (cleanPath p) = cleanPath p"
proof (cases rule: cleanPath_cases [of p])
  case root
  then show ?thesis by (simp add: cleanPath_def path_Clean_def clean_parts_def)
next
  case (plain cs)
  have "last (''/'' @ Join cs ''/'') \<noteq> CHR ''/''" by (rule last_Join_name [OF plain(1,2)])
  then show ?thesis
    using path_Clean_names [OF plain(1)] unfolding plain(3) by (simp add: cleanPath_def Let_def)
next
  case (slash cs)
  then show ?thesis
    using path_Clean_names_slash [OF slash(1)] Join_names_ne [OF slash(1,2)]
    unfolding slash(3) by (simp add: cleanPath_def Let_def)
qed

end
