(* ===== verification/Logger.thy ===== *)
theory Logger
  imports Utils
begin

text \<open>
  \<open>pkg/logger/logger.go\<close>: the choice of the configuration of the zap logger and the core that reports
  errors to Sentry. zap's configurations, its cores and the Sentry client are parameters; a core is given
  by the operations \<open>zapcore.Core\<close> asks for. \<open>CustomCore\<close> embeds a core and overrides \<open>Check\<close> and \<open>Write\<close>
  only, so every other operation, \<open>With\<close> among them, is the embedded core's. The lemmas say what reaches
  Sentry and that every entry reaches the embedded core; \<open>with_fields_silences\<close> shows that a logger made by
  \<open>With\<close> has lost the reporting.
\<close>

section \<open>Configurations\<close>

record EncoderConfig =
  TimeKey :: string
  EncodeLevel :: string
  EncodeTime :: string
  EncodeDuration :: string
  StacktraceKey :: string

record zap_Config =
  cfg_Level :: int
  Development :: bool
  Encoding :: string
  cfg_EncoderConfig :: EncoderConfig
  OutputPaths :: "string list"
  ErrorOutputPaths :: "string list"

text \<open>The levels of zap, in order.\<close>

definition DebugLevel :: int where "DebugLevel = -1"
definition ErrorLevel :: int where "ErrorLevel = 2"

text \<open>What zap provides: its preset configurations and the logger built from one.\<close>

record 'b zap =
  NewProductionEncoderConfig :: EncoderConfig
  NewDevelopmentEncoderConfig :: EncoderConfig
  NewProductionConfig :: zap_Config
  Build :: "zap_Config \<Rightarrow> 'b result"

definition logger_config :: "'b zap \<Rightarrow> string \<Rightarrow> zap_Config" where
  "logger_config Z env =
     (if env = ''prod'' then
        (let encoderCfg = (NewProductionEncoderConfig Z)
               \<lparr>TimeKey := ''timestamp'', EncodeTime := ''ISO8601TimeEncoder''\<rparr>
         in (NewProductionConfig Z)\<lparr>cfg_EncoderConfig := encoderCfg\<rparr>)
      else
        (let encoderCfg = (NewDevelopmentEncoderConfig Z)
               \<lparr>EncodeLevel := ''CapitalColorLevelEncoder'', EncodeTime := ''ISO8601TimeEncoder'',
                EncodeDuration := ''StringDurationEncoder'', StacktraceKey := ''''\<rparr>
         in \<lparr>cfg_Level = DebugLevel, Development = True, Encoding = ''console'',
             cfg_EncoderConfig = encoderCfg, OutputPaths = [''stdout''], ErrorOutputPaths = [''stderr'']\<rparr>))"

text \<open>A logger is given by its core.\<close>

datatype 'b core = Core 'b | CustomCore 'b

definition NewLogger :: "'b zap \<Rightarrow> string \<Rightarrow> bool \<Rightarrow> 'b core result" where
  "NewLogger Z env sentryEnabled =
     (case Build Z (logger_config Z env) of
        Inl err \<Rightarrow> Inl (Wrap ''error creating logger'' err)
      | Inr b \<Rightarrow> if sentryEnabled then Inr (CustomCore b) else Inr (Core b))"

section \<open>Entries and fields\<close>

datatype field_type =
    StringType | Int64Type | Int32Type | Int16Type | Int8Type | ErrorType | OtherType

text \<open>\<open>Interface\<close> holds the text of the error if the dynamic value of the field is one.\<close>

record Field =
  Key :: string
  Type :: field_type
  Integer :: int
  Str :: string
  Interface :: "string option"

record Entry =
  Level :: int
  Message :: string

datatype cvalue = CString string | CInt int

text \<open>
  The loop over the fields: the context of the event and the first error. The type assertion on an
  \<open>ErrorType\<close> field panics if its value is not an error.
\<close>

fun convert_fields ::
  "Field list \<Rightarrow> (string \<rightharpoonup> cvalue) \<Rightarrow> string option \<Rightarrow> ((string \<rightharpoonup> cvalue) \<times> string option) go" where
  "convert_fields [] context err = Ret (context, err)"
| "convert_fields (field # flds) context err =
     (case Type field of
        ErrorType \<Rightarrow>
          (case Interface field of
             None \<Rightarrow> Panic ''interface conversion: not an error''
           | Some fieldErr \<Rightarrow>
               convert_fields flds (context(Key field \<mapsto> CString fieldErr))
                 (if err = None then Some fieldErr else err))
      | StringType \<Rightarrow> convert_fields flds (context(Key field \<mapsto> CString (Str field))) err
      | OtherType \<Rightarrow> convert_fields flds (context(Key field \<mapsto> CString (Str field))) err
      | _ \<Rightarrow> convert_fields flds (context(Key field \<mapsto> CInt (Integer field))) err)"

section \<open>The core\<close>

record sentry_event =
  ev_Message :: string
  ev_Context :: "string \<rightharpoonup> cvalue"
  exception_Type :: string
  exception_Value :: string
  exception_Frames :: nat

record 'b core_ops =
  Enabled :: "'b \<Rightarrow> int \<Rightarrow> bool"
  core_With :: "'b \<Rightarrow> Field list \<Rightarrow> 'b"
  core_Write :: "'b \<Rightarrow> Entry \<Rightarrow> Field list \<Rightarrow> goerr option \<times> 'b"

definition Check :: "'b core_ops \<Rightarrow> 'b \<Rightarrow> Entry \<Rightarrow> 'b core list \<Rightarrow> 'b core list" where
  "Check ops b entry checked = (if Enabled ops b (Level entry) then checked @ [CustomCore b] else checked)"

text \<open>
  \<open>Write\<close>. \<open>frames\<close> is the number of frames of \<open>sentry.NewStacktrace()\<close>, of which the last four are cut
  off; \<open>sent\<close> are the events captured so far.
\<close>

definition custom_Write ::
  "'b core_ops \<Rightarrow> nat \<Rightarrow> 'b \<Rightarrow> sentry_event list \<Rightarrow> Entry \<Rightarrow> Field list \<Rightarrow> (goerr option \<times> 'b \<times> sentry_event list) go" where
  "custom_Write ops frames b sent entry flds =
     (case (if Level entry \<ge> ErrorLevel then
              (case convert_fields flds Map.empty None of
                 Panic m \<Rightarrow> Panic m
               | Ret (context, err) \<Rightarrow>
                   if frames < 4 then Panic ''slice bounds out of range''
                   else Ret (sent @ [\<lparr>ev_Message = Message entry, ev_Context = context,
                                      exception_Type = Message entry,
                                      exception_Value = (case err of Some e \<Rightarrow> e | None \<Rightarrow> Message entry),
                                      exception_Frames = frames - 4\<rparr>]))
            else Ret sent) of
        Panic m \<Rightarrow> Panic m
      | Ret sent' \<Rightarrow>
          (case core_Write ops b entry flds of
             (Some err, b') \<Rightarrow> Ret (Some (Wrap ''failed to write entry'' err), b', sent')
           | (None, b') \<Rightarrow> Ret (None, b', sent')))"

text \<open>
  Logging through a core, and \<open>Logger.With\<close>: without fields the logger itself, otherwise one whose core is
  what the core's \<open>With\<close> returns. For \<open>CustomCore\<close> that is the promoted method of the embedded core.
\<close>

definition write_entry ::
  "'b core_ops \<Rightarrow> nat \<Rightarrow> 'b core \<Rightarrow> sentry_event list \<Rightarrow> Entry \<Rightarrow> Field list \<Rightarrow> (goerr option \<times> sentry_event list) go" where
  "write_entry ops frames c sent entry flds =
     (case c of
        Core b \<Rightarrow> Ret (fst (core_Write ops b entry flds), sent)
      | CustomCore b \<Rightarrow>
          (case custom_Write ops frames b sent entry flds of
             Panic m \<Rightarrow> Panic m | Ret (e, b', sent') \<Rightarrow> Ret (e, sent')))"

definition promoted_With :: "'b core_ops \<Rightarrow> 'b core \<Rightarrow> Field list \<Rightarrow> 'b core" where
  "promoted_With ops c flds =
     (case c of Core b \<Rightarrow> Core (core_With ops b flds) | CustomCore b \<Rightarrow> Core (core_With ops b flds))"

definition logger_With :: "'b core_ops \<Rightarrow> 'b core \<Rightarrow> Field list \<Rightarrow> 'b core" where
  "logger_With ops c flds = (if length flds = 0 then c else promoted_With ops c flds)"

section \<open>Lemmas\<close>

definition well_typed_field :: "Field \<Rightarrow> bool" where
  "well_typed_field f = (Type f = ErrorType \<longrightarrow> Interface f \<noteq> None)"

text \<open>The value a field contributes to the context: only strings, signed integers and errors carry theirs.\<close>

definition field_value :: "Field \<Rightarrow> cvalue" where
  "field_value f =
     (case Type f of
        ErrorType \<Rightarrow> CString (the (Interface f))
      | StringType \<Rightarrow> CString (Str f)
      | OtherType \<Rightarrow> CString (Str f)
      | _ \<Rightarrow> CInt (Integer f))"

definition first_error :: "Field list \<Rightarrow> string option" where
  "first_error fs = (case filter (\<lambda>f. Type f = ErrorType) fs of [] \<Rightarrow> None | f # _ \<Rightarrow> Interface f)"

lemma convert_fields_spec:
  "list_all well_typed_field fs \<Longrightarrow> convert_fields fs ctx err =
    Ret (ctx ++ map_of (rev (map (\<lambda>f. (Key f, field_value f)) fs)),
         case err of Some e \<Rightarrow> Some e | None \<Rightarrow> first_error fs)"
proof (induction fs arbitrary: ctx err)
  case Nil
  then show ?case by (simp add: first_error_def split: option.splits)
next
  case (Cons f fs)
  let ?ctx = "ctx(Key f \<mapsto> field_value f)"
  have fs: "list_all well_typed_field fs" using Cons.prems by simp
  have ctx: "?ctx ++ map_of (rev (map (\<lambda>f. (Key f, field_value f)) fs)) =
      ctx ++ map_of (rev (map (\<lambda>f. (Key f, field_value f)) (f # fs)))" by simp
  show ?case
  proof (cases "Type f = ErrorType")
    case True
    with Cons.prems obtain e where e: "Interface f = Some e" by (auto simp: well_typed_field_def)
    with True have "convert_fields (f # fs) ctx err = convert_fields fs ?ctx (if err = None then Some e else err)"
      by (simp add: field_value_def)
    moreover have "first_error (f # fs) = Some e" using True e by (simp add: first_error_def)
    ultimately show ?thesis unfolding Cons.IH [OF fs] ctx by (cases err) simp_all
  next
    case False
    then have "convert_fields (f # fs) ctx err = convert_fields fs ?ctx err"
      by (cases "Type f") (simp_all add: field_value_def)
    moreover have "first_error (f # fs) = first_error fs" using False by (simp add: first_error_def)
    ultimately show ?thesis unfolding Cons.IH [OF fs] ctx by (cases err) simp_all
  qed
qed

text \<open>What a value of another type leaves in the context is the string of the field, which zap leaves empty.\<close>

lemma other_fields_lost: "Type f = OtherType \<Longrightarrow> Str f = '''' \<Longrightarrow> field_value f = CString ''''"
  by (simp add: field_value_def)

lemma custom_Write_spec:
  assumes "list_all well_typed_field fs" "4 \<le> frames"
  shows "\<exists>e b'. custom_Write ops frames b sent entry fs = Ret (e, b',
      sent @ (if ErrorLevel \<le> Level entry
              then [\<lparr>ev_Message = Message entry, ev_Context = map_of (rev (map (\<lambda>f. (Key f, field_value f)) fs)),
                     exception_Type = Message entry,
                     exception_Value = (case first_error fs of Some e \<Rightarrow> e | None \<Rightarrow> Message entry),
                     exception_Frames = frames - 4\<rparr>]
              else [])) \<and>
    b' = snd (core_Write ops b entry fs) \<and> (e = None \<longleftrightarrow> fst (core_Write ops b entry fs) = None)"
  using assms(2) by (simp add: custom_Write_def convert_fields_spec [OF assms(1)] split: prod.splits option.splits)

section \<open>Properties\<close>

text \<open>With the core the program installs, an entry of level error or above sends Sentry one event, with
  the text of the first error among the fields, or the message when there is none, and with every field
  under its key; an entry below that level sends nothing. Either way the entry reaches the embedded core,
  whose error is the one that is returned.\<close>

lemma errors_reach_sentry:
  assumes "NewLogger Z env True = Inr c" "list_all well_typed_field fs" "4 \<le> frames"
  shows "\<exists>b. Build Z (logger_config Z env) = Inr b \<and> c = CustomCore b \<and>
    (\<exists>e b' evs. custom_Write ops frames b sent entry fs = Ret (e, b', sent @ evs) \<and>
       b' = snd (core_Write ops b entry fs) \<and> (e = None \<longleftrightarrow> fst (core_Write ops b entry fs) = None) \<and>
       map (\<lambda>ev. (exception_Value ev, ev_Context ev)) evs =
         (if ErrorLevel \<le> Level entry
          then [(case first_error fs of Some t \<Rightarrow> t | None \<Rightarrow> Message entry,
                 map_of (rev (map (\<lambda>f. (Key f, field_value f)) fs)))]
          else []))"
proof -
  from assms(1) obtain b where b: "Build Z (logger_config Z env) = Inr b" "c = CustomCore b"
    by (auto simp: NewLogger_def split: sum.splits)
  from custom_Write_spec [OF assms(2,3), of ops b sent entry] b show ?thesis by auto
qed

definition example_zap :: "unit zap" where
  "example_zap =
     (let enc = \<lparr>TimeKey = ''ts'', EncodeLevel = '''', EncodeTime = '''', EncodeDuration = '''',
                StacktraceKey = ''stacktrace''\<rparr>
      in \<lparr>NewProductionEncoderConfig = enc, NewDevelopmentEncoderConfig = enc,
          NewProductionConfig = \<lparr>cfg_Level = 0, Development = False, Encoding = ''json'',
            cfg_EncoderConfig = enc, OutputPaths = [''stderr''], ErrorOutputPaths = [''stderr'']\<rparr>,
          Build = (\<lambda>cfg. Inr ())\<rparr>)"

definition example_ops :: "unit core_ops" where
  "example_ops = \<lparr>Enabled = (\<lambda>b l. True), core_With = (\<lambda>b fs. b), core_Write = (\<lambda>b e fs. (None, b))\<rparr>"

definition example_field :: Field where
  "example_field = \<lparr>Key = ''error'', Type = ErrorType, Integer = 0, Str = '''', Interface = Some ''boom''\<rparr>"

lemma errors_reach_sentry_example:
  "\<exists>e b' evs. custom_Write example_ops 9 () [] \<lparr>Level = 2, Message = ''failed''\<rparr> [example_field] = Ret (e, b', evs) \<and>
     map exception_Value evs = [''boom'']"
proof -
  let ?entry = "\<lparr>Level = 2, Message = ''failed''\<rparr>"
  have c: "NewLogger example_zap ''dev'' True = Inr (CustomCore ())"
    by (simp add: NewLogger_def example_zap_def Let_def)
  have f: "list_all well_typed_field [example_field]" by (simp add: well_typed_field_def example_field_def)
  from errors_reach_sentry [OF c f, of 9 example_ops "[]" ?entry] obtain e b' evs where
    "custom_Write example_ops 9 () [] ?entry [example_field] = Ret (e, b', evs)"
    "map (\<lambda>ev. (exception_Value ev, ev_Context ev)) evs =
      [(''boom'', map_of (rev (map (\<lambda>f. (Key f, field_value f)) [example_field])))]"
    by (auto simp: ErrorLevel_def first_error_def example_field_def)
  then show ?thesis by (intro exI [of _ e] exI [of _ b'] exI [of _ evs]) (auto simp: map_eq_Cons_conv)
qed

text \<open>A logger derived with \<open>With\<close> and at least one field no longer reports anything to Sentry, whatever
  the level of the entry, although it was derived from one that does. The handler and the throttler of the
  resolver log through such loggers.\<close>

lemma with_fields_silences:
  assumes "NewLogger Z env True = Inr c" "fs \<noteq> []"
  shows "\<exists>e. write_entry ops frames (logger_With ops c fs) sent entry gs = Ret (e, sent)"
  using assms by (auto simp: NewLogger_def logger_With_def promoted_With_def write_entry_def split: sum.splits)

lemma with_fields_silences_example:
  "\<exists>e. write_entry example_ops 9 (logger_With example_ops (CustomCore ()) [example_field]) []
     \<lparr>Level = 2, Message = ''failed''\<rparr> [example_field] = Ret (e, [])"
proof -
  have c: "NewLogger example_zap ''dev'' True = Inr (CustomCore ())"
    by (simp add: NewLogger_def example_zap_def Let_def)
  from with_fields_silences [OF c, of "[example_field]"] show ?thesis by simp
qed

end
