(* ===== verification/ResolverMain.thy ===== *)
theory ResolverMain
  imports Handler Transport BufferPool Mux Logger
begin

text \<open>
  \<open>resolver/cmd/main.go\<close>: the configuration, the assembly of the resolver's components from it and the
  routes of its two servers. What \<open>main\<close> gets from outside (the environment variables as read by
  \<open>envconfig\<close>, zap, the configuration and the clients of the cluster, the end of a listener) is a
  parameter. \<open>resolver_reach\<close> are the states of the whole resolver that requests, answers of the
  operator and the passing of time lead to; requests are handled one after the other here (their
  interleaving is the subject of \<open>Breaker\<close>, \<open>OperatorClient\<close> and \<open>HostManager\<close>).
\<close>

section \<open>The configuration\<close>

record config =
  MaxIdleProxyConns :: int
  MaxIdleProxyConnsPerHost :: int
  cfg_ReqTimeout :: int
  cfg_TrafficReEnableDuration :: int
  OperatorRetryDuration :: int
  cfg_QueueRetryDuration :: int
  cfg_QueueSize :: int
  MaxQueueConcurrency :: int
  cfg_InitialCapacity :: int
  HeaderForHost :: string
  SentryDsn :: string
  SentryEnv :: string

text \<open>The values of the \<open>default\<close> tags.\<close>

definition default_config :: config where
  "default_config =
     \<lparr>MaxIdleProxyConns = 1000, MaxIdleProxyConnsPerHost = 100, cfg_ReqTimeout = 600,
      cfg_TrafficReEnableDuration = 30, OperatorRetryDuration = 30, cfg_QueueRetryDuration = 5,
      cfg_QueueSize = 100, MaxQueueConcurrency = 10, cfg_InitialCapacity = 100,
      HeaderForHost = ''Host'', SentryDsn = '''', SentryEnv = ''''\<rparr>"

definition reverseProxyPort :: string where "reverseProxyPort = '':8012''"

definition internalPort :: string where "internalPort = '':8013''"

text \<open>\<open>time.Duration(n) * time.Second\<close>, a product of 64-bit integers.\<close>

definition seconds :: "int \<Rightarrow> int" where
  "seconds n = wrap64 (n * time_Second)"

section \<open>Assembling the resolver\<close>

text \<open>\<open>NewOps\<close> of \<open>pkg/k8shelper/ops.go\<close> ends the process when a client cannot be made.\<close>

definition NewOps :: "goerr option \<Rightarrow> goerr option \<Rightarrow> goerr option" where
  "NewOps kErr dynErr = (case kErr of Some err \<Rightarrow> Some err | None \<Rightarrow> dynErr)"

definition throttler_Params :: "config \<Rightarrow> Params" where
  "throttler_Params env =
     \<lparr>QueueRetryDuration = seconds (cfg_QueueRetryDuration env),
      P_TrafficReEnableDuration = seconds (cfg_TrafficReEnableDuration env),
      P_Breaker = \<lparr>QueueDepth = cfg_QueueSize env, MaxConcurrency = MaxQueueConcurrency env,
                   InitialCapacity = cfg_InitialCapacity env\<rparr>\<rparr>"

definition requestHandler :: "config \<Rightarrow> (HostManager, Client) Handler go" where
  "requestHandler env =
     (let newOperatorRPC = NewOperatorClient (seconds (OperatorRetryDuration env));
          newHostManager = NewHostManager (seconds (cfg_TrafficReEnableDuration env)) (HeaderForHost env)
      in case NewThrottler (throttler_Params env) of
           Panic m \<Rightarrow> Panic m
         | Ret newThrottler \<Rightarrow>
             Ret (NewHandler newThrottler (seconds (cfg_ReqTimeout env)) newOperatorRPC newHostManager))"

text \<open>
  The start: the process exits with a message, panics, or serves. A failing initialisation of Sentry is
  only printed.
\<close>

datatype 'a process = Exit string goerr | Crashed string | Serving 'a | Finished

record 'b main_env =
  envconfig_Process :: "config result"
  main_zap :: "'b zap"
  InClusterConfig :: "goerr option"
  NewForConfig :: "goerr option"
  dynamic_NewForConfig :: "goerr option"

definition main_start :: "'b main_env \<Rightarrow> (HostManager, Client) Handler process" where
  "main_start E =
     (case envconfig_Process E of
        Inl err \<Rightarrow> Exit ''Failed to process env: '' err
      | Inr env \<Rightarrow>
          (let sentryEnabled = (SentryDsn env \<noteq> '''')
           in case NewLogger (main_zap E) ''dev'' sentryEnabled of
                Inl err \<Rightarrow> Exit ''Failed to get logger: '' err
              | Inr logger \<Rightarrow>
                  (case InClusterConfig E of
                     Some err \<Rightarrow> Exit ''Error fetching cluster config'' err
                   | None \<Rightarrow>
                       (case NewOps (NewForConfig E) (dynamic_NewForConfig E) of
                          Some err \<Rightarrow> Exit ''Error connecting with kubernetes'' err
                        | None \<Rightarrow>
                            (case requestHandler env of
                               Panic m \<Rightarrow> Crashed m
                             | Ret h \<Rightarrow> Serving h)))))"

text \<open>The end of a listener: of the proxy, which runs in a goroutine, and of the internal server.\<close>

definition proxy_listener_done :: "goerr option \<Rightarrow> 'a process \<Rightarrow> 'a process" where
  "proxy_listener_done res p =
     (case res of Some err \<Rightarrow> Exit ''ListenAndServe Failed: '' err | None \<Rightarrow> p)"

definition internal_listener_done :: "goerr option \<Rightarrow> 'a process \<Rightarrow> 'a process" where
  "internal_listener_done res p =
     (case res of Some err \<Rightarrow> Exit ''ListenAndServe Failed: '' err | None \<Rightarrow> Finished)"

section \<open>The servers\<close>

datatype endpoint = Proxy | Metrics | QueueStatus

definition reverseProxyServerMux :: "(string \<times> endpoint) list" where
  "reverseProxyServerMux = [(''/'', Proxy)]"

definition internalServeMux :: "(string \<times> endpoint) list" where
  "internalServeMux = [(''/metrics'', Metrics), (''/queue-status'', QueueStatus)]"

definition reverseProxyServer ::
  "request_env \<Rightarrow> int \<Rightarrow> (HostManager, Client) Handler \<Rightarrow> ResponseWriter \<Rightarrow> Request \<Rightarrow> string \<Rightarrow> string \<Rightarrow>
   (ResponseWriter \<times> int \<times> goerr option \<times> (HostManager, Client) Handler) go answered option" where
  "reverseProxyServer env now h w req reqMethod path =
     (case mux_ServeHTTP reverseProxyServerMux (Req_RequestURI req) reqMethod path of
        Route e \<Rightarrow> map_option Handled (ServeHTTP resolver_deps env now h w req)
      | Redirect p \<Rightarrow> Some (Moved p)
      | NoRoute \<Rightarrow> Some (StatusOnly 404)
      | BadRequest \<Rightarrow> Some (StatusOnly 400))"

text \<open>The internal server; \<open>promhttp\<close> answers the requests for the metrics.\<close>

definition internalServer ::
  "(ResponseWriter \<Rightarrow> ResponseWriter) \<Rightarrow> (HostManager, Client) Handler \<Rightarrow> ResponseWriter \<Rightarrow> string \<Rightarrow> string \<Rightarrow>
   string \<Rightarrow> string \<Rightarrow> string \<Rightarrow> ResponseWriter answered" where
  "internalServer promhttp h w requestURI reqMethod path namespace service =
     (case mux_ServeHTTP internalServeMux requestURI reqMethod path of
        Route Metrics \<Rightarrow> Handled (promhttp w)
      | Route e \<Rightarrow> Handled (GetQueueStatus h w namespace service)
      | Redirect p \<Rightarrow> Moved p
      | NoRoute \<Rightarrow> StatusOnly 404
      | BadRequest \<Rightarrow> StatusOnly 400)"

section \<open>The resolver as a whole\<close>

inductive resolver_reach :: "config \<Rightarrow> int \<Rightarrow> (HostManager, Client) Handler \<Rightarrow> bool" for cfg where
  start: "requestHandler cfg = Ret h \<Longrightarrow> resolver_reach cfg t h"
| request: "resolver_reach cfg t h \<Longrightarrow> t \<le> now \<Longrightarrow>
    reverseProxyServer env now h w req reqMethod path = Some (Handled (Ret (w', status, err, h'))) \<Longrightarrow>
    resolver_reach cfg (request_end resolver_deps env now h (newResponseWriter w) req) h'"
| answer: "resolver_reach cfg t h \<Longrightarrow> t \<le> now \<Longrightarrow> (ns, svc) \<in> set (oc_running (operatorRPC h)) \<Longrightarrow>
    resolver_reach cfg now
      (h\<lparr>operatorRPC := SendIncomingRequestInfo_return now a (operatorRPC h) ns svc\<rparr>)"
| tick: "resolver_reach cfg t h \<Longrightarrow> t \<le> now \<Longrightarrow> fire_releases now (operatorRPC h) = Ret c \<Longrightarrow>
    resolver_reach cfg now
      (h\<lparr>operatorRPC := c, hostManager := fire_timers now (hostManager h),
         throttler := expire_ready now (throttler h)\<rparr>)"


lemma requestHandler_eq:
  "requestHandler cfg =
     (case NewBreaker (P_Breaker (throttler_Params cfg)) of
        Panic m \<Rightarrow> Panic m
      | Ret b \<Rightarrow> Ret \<lparr>throttler = \<lparr>th_breaker = b, th_retryDuration = seconds (cfg_QueueRetryDuration cfg),
                     TrafficReEnableDuration = seconds (cfg_TrafficReEnableDuration cfg),
                     serviceReadyMap = Map.empty, queueSizeMap = Map.empty, th_timers = []\<rparr>,
                   timeout = seconds (cfg_ReqTimeout cfg),
                   operatorRPC = NewOperatorClient (seconds (OperatorRetryDuration cfg)),
                   hostManager = NewHostManager (seconds (cfg_TrafficReEnableDuration cfg))
                     (HeaderForHost cfg)\<rparr>)"
  by (simp add: requestHandler_def NewThrottler_def throttler_Params_def NewHandler_def Let_def
      split: go.splits)

lemma requestHandler_starts: "(\<exists>h. requestHandler cfg = Ret h) \<longleftrightarrow> 0 \<le> MaxQueueConcurrency cfg"
  by (simp add: requestHandler_eq NewBreaker_def newSemaphore_def throttler_Params_def)

lemma requestHandler_sel:
  assumes "requestHandler cfg = Ret h"
  shows "th_retryDuration (throttler h) = seconds (cfg_QueueRetryDuration cfg)"
    "TrafficReEnableDuration (throttler h) = seconds (cfg_TrafficReEnableDuration cfg)"
    "timeout h = seconds (cfg_ReqTimeout cfg)"
    "operatorRPC h = NewOperatorClient (seconds (OperatorRetryDuration cfg))"
    "hostManager h = NewHostManager (seconds (cfg_TrafficReEnableDuration cfg)) (HeaderForHost cfg)"
    "ready_inv (throttler h)"
  using assms by (auto simp: requestHandler_eq ready_inv_def split: go.splits)

lemma seconds_exact_iff: "seconds n = n * time_Second \<longleftrightarrow> \<bar>n\<bar> \<le> 9223372036"
proof
  assume "seconds n = n * time_Second"
  with wrap64_range [of "n * time_Second"] show "\<bar>n\<bar> \<le> 9223372036"
    by (simp add: seconds_def time_Second_def abs_le_iff)
next
  assume "\<bar>n\<bar> \<le> 9223372036"
  then show "seconds n = n * time_Second"
    unfolding seconds_def time_Second_def by (intro wrap64_id) (auto simp: abs_le_iff)
qed

lemma seconds_positive: "0 < n \<Longrightarrow> n \<le> 9223372036 \<Longrightarrow> 0 < seconds n"
  using seconds_exact_iff [of n] by (simp add: time_Second_def)

definition resolver_inv :: "config \<Rightarrow> int \<Rightarrow> (HostManager, Client) Handler \<Rightarrow> bool" where
  "resolver_inv cfg t h =
     (handler_inv (seconds (cfg_TrafficReEnableDuration cfg)) (HeaderForHost cfg)
        (seconds (OperatorRetryDuration cfg)) (seconds (cfg_QueueRetryDuration cfg)) t h \<and>
      timeout h = seconds (cfg_ReqTimeout cfg))"

lemma resolver_inv_start: "requestHandler cfg = Ret h \<Longrightarrow> resolver_inv cfg t h"
  by (simp add: resolver_inv_def handler_inv_def requestHandler_sel hm_reach.new oc_inv_new)

lemma reverseProxyServer_handled:
  assumes "reverseProxyServer env now h w req reqMethod path = Some (Handled r)"
  shows "ServeHTTP resolver_deps env now h w req = Some r"
  using assms by (auto simp: reverseProxyServer_def split: routed.splits)

lemma resolver_reach_inv:
  assumes "resolver_reach cfg t h" "0 < seconds (cfg_QueueRetryDuration cfg)"
  shows "resolver_inv cfg t h"
  using assms(1)
proof (induction rule: resolver_reach.induct)
  case (start h t)
  then show ?case by (rule resolver_inv_start)
next
  case (request t h now env w req reqMethod path w' status err h')
  from reverseProxyServer_handled [OF request.hyps(3)] obtain host rw where
    "handleAnyRequest resolver_deps env now h (newResponseWriter w) req = Some (Ret (host, err, rw, h'))"
    by (auto simp: ServeHTTP_Ret)
  from request.IH handle_keeps [OF _ request.hyps(2) assms(2) this] show ?case
    unfolding resolver_inv_def by metis
next
  case (answer t h now ns svc a)
  then show ?case using oc_inv_return by (auto simp: resolver_inv_def handler_inv_def)
next
  case (tick t h now c)
  then show ?case
    using oc_inv_fire hm_reach.fire by (auto simp: resolver_inv_def handler_inv_def ready_inv_expire)
qed

lemma proxy_match: "match_pattern reverseProxyServerMux p = Some Proxy"
  by (simp add: reverseProxyServerMux_def)

lemma proxy_routed:
  "mux_ServeHTTP reverseProxyServerMux uri reqMethod path =
     (if uri = ''*'' then BadRequest
      else if reqMethod = ''CONNECT'' \<or> cleanPath path = path then Route Proxy
      else Redirect (cleanPath path))"
  by (simp add: mux_ServeHTTP_def mux_Handler_def Let_def proxy_match)

section \<open>Properties\<close>


text \<open>C16: in every state the resolver can get into, each request to its proxy port is answered: the handler
  returns without a panic, or the request is redirected or rejected by the routes. The request has a value
  for each of its headers, the transport panics, if at all, with an error, and Sentry does not.\<close>

theorem resolver_always_answers:
  assumes "resolver_reach cfg t h" "0 < cfg_QueueRetryDuration cfg" "cfg_QueueRetryDuration cfg \<le> 9223372036"
    and "quiet_env env" "\<And>k. Req_Header req k \<noteq> Some []"
  shows "(\<exists>w' status err h'. reverseProxyServer env now h w req reqMethod path =
      Some (Handled (Ret (w', status, err, h')))) \<or>
    reverseProxyServer env now h w req reqMethod path \<in> {Some (Moved (cleanPath path)), Some (StatusOnly 400)}"
proof -
  from resolver_reach_inv [OF assms(1) seconds_positive [OF assms(2,3)]]
  have h: "0 < th_retryDuration (throttler h)" "ready_inv (throttler h)"
    using seconds_positive [OF assms(2,3)] by (auto simp: resolver_inv_def handler_inv_def)
  have "handleAnyRequest resolver_deps env now h (newResponseWriter w) req \<noteq> Some (Panic m)" for m
    using handle_no_panic [OF h assms(4), of resolver_deps] GetHost_no_panic [OF assms(5)] by simp
  then obtain x where "handleAnyRequest resolver_deps env now h (newResponseWriter w) req = Some (Ret x)"
    using handle_returns [OF h, of resolver_deps env now "newResponseWriter w" req] by (metis go.exhaust option.exhaust)
  then have "\<exists>w' status err h'. ServeHTTP resolver_deps env now h w req = Some (Ret (w', status, err, h'))"
    by (cases x) (simp add: ServeHTTP_def)
  then show ?thesis by (auto simp: reverseProxyServer_def proxy_routed)
qed

text \<open>C35: each of the five durations is the configured number of seconds exactly when that number is at most
  9223372036 in absolute value; beyond, the product wraps around.\<close>

theorem durations_exact:
  assumes "requestHandler cfg = Ret h"
  shows "(timeout h = cfg_ReqTimeout cfg * time_Second \<longleftrightarrow> \<bar>cfg_ReqTimeout cfg\<bar> \<le> 9223372036) \<and>
    (th_retryDuration (throttler h) = cfg_QueueRetryDuration cfg * time_Second \<longleftrightarrow>
       \<bar>cfg_QueueRetryDuration cfg\<bar> \<le> 9223372036) \<and>
    (TrafficReEnableDuration (throttler h) = cfg_TrafficReEnableDuration cfg * time_Second \<longleftrightarrow>
       \<bar>cfg_TrafficReEnableDuration cfg\<bar> \<le> 9223372036) \<and>
    (trafficReEnableDuration (hostManager h) = cfg_TrafficReEnableDuration cfg * time_Second \<longleftrightarrow>
       \<bar>cfg_TrafficReEnableDuration cfg\<bar> \<le> 9223372036) \<and>
    (retryDuration (operatorRPC h) = OperatorRetryDuration cfg * time_Second \<longleftrightarrow>
       \<bar>OperatorRetryDuration cfg\<bar> \<le> 9223372036)"
  by (simp add: requestHandler_sel [OF assms] seconds_exact_iff NewHostManager_def NewOperatorClient_def)

lemma default_starts: "\<exists>h. requestHandler default_config = Ret h"
  by (simp add: requestHandler_starts default_config_def)

theorem durations_exact_witness:
  "\<exists>h. requestHandler default_config = Ret h \<and> timeout h = 600 * time_Second \<and>
     th_retryDuration (throttler h) = 5 * time_Second \<and> retryDuration (operatorRPC h) = 30 * time_Second"
proof -
  obtain h where h: "requestHandler default_config = Ret h" using default_starts by blast
  from durations_exact [OF h] h show ?thesis by (simp add: default_config_def)
qed

theorem resolver_always_answers_witness:
  "\<exists>h w' status err h'. requestHandler default_config = Ret h \<and>
     reverseProxyServer (example_request_env True 1 (RT_Response 200 [] ''hello'')) 10 h empty_writer
       (get_request ''web.shop.svc'') ''GET'' ''/'' = Some (Handled (Ret (w', status, err, h')))"
proof -
  let ?env = "example_request_env True 1 (RT_Response 200 [] ''hello'')" and ?req = "get_request ''web.shop.svc''"
  obtain h where h: "requestHandler default_config = Ret h" using default_starts by blast
  have q: "quiet_env ?env" "Req_Header ?req k \<noteq> Some []" for k
    by (simp_all add: quiet_env_def example_request_env_def get_request_def)
  have "cleanPath ''/'' = ''/''" by code_simp
  then have "reverseProxyServer ?env 10 h empty_writer ?req ''GET'' ''/'' \<notin>
      {Some (Moved (cleanPath ''/'')), Some (StatusOnly 400)}"
    by (auto simp: reverseProxyServer_def proxy_routed get_request_def)
  with resolver_always_answers [OF resolver_reach.start [OF h] _ _ q, of 10 empty_writer "''GET''" "''/''"] h
  show ?thesis by (auto simp: default_config_def)
qed


lemma proxy_routed_clean:
  "uri \<noteq> ''*'' \<Longrightarrow> mux_ServeHTTP reverseProxyServerMux uri reqMethod (cleanPath path) = Route Proxy"
  by (simp add: proxy_routed cleanPath_idem)

lemma internal_match:
  "match_pattern internalServeMux p = Some e \<longleftrightarrow>
     p = ''/metrics'' \<and> e = Metrics \<or> p = ''/queue-status'' \<and> e = QueueStatus"
  by (auto simp: internalServeMux_def)

lemma internal_clean: "match_pattern internalServeMux p = Some e \<Longrightarrow> cleanPath p = p"
proof -
  have "cleanPath ''/metrics'' = ''/metrics''" "cleanPath ''/queue-status'' = ''/queue-status''"
    by code_simp+
  then show "match_pattern internalServeMux p = Some e \<Longrightarrow> cleanPath p = p" unfolding internal_match by auto
qed

lemma internal_routed:
  "mux_ServeHTTP internalServeMux uri reqMethod path = Route e \<longleftrightarrow>
     uri \<noteq> ''*'' \<and> (path = ''/metrics'' \<and> e = Metrics \<or> path = ''/queue-status'' \<and> e = QueueStatus)"
  unfolding internal_match [symmetric]
  using internal_clean [of path e]
  by (auto simp: mux_ServeHTTP_def mux_Handler_def Let_def split: option.splits)

text \<open>The proxy serves a request whose path is clean and redirects any other, whatever its method unless
  that is \<open>CONNECT\<close>, to the cleaned path, where it is then served; the internal server has its two routes
  and nothing else.\<close>

lemma requests_routed:
  "mux_ServeHTTP reverseProxyServerMux uri reqMethod path =
     (if uri = ''*'' then BadRequest
      else if reqMethod = ''CONNECT'' \<or> cleanPath path = path then Route Proxy
      else Redirect (cleanPath path)) \<and>
   (uri \<noteq> ''*'' \<longrightarrow> mux_ServeHTTP reverseProxyServerMux uri reqMethod (cleanPath path) = Route Proxy) \<and>
   (mux_ServeHTTP internalServeMux uri reqMethod path = Route e \<longleftrightarrow>
     uri \<noteq> ''*'' \<and> (path = ''/metrics'' \<and> e = Metrics \<or> path = ''/queue-status'' \<and> e = QueueStatus))"
  using proxy_routed proxy_routed_clean internal_routed by simp

lemma requests_routed_example:
  "mux_ServeHTTP reverseProxyServerMux ''/a//b'' ''POST'' ''/a//b'' = Redirect ''/a/b'' \<and>
   mux_ServeHTTP reverseProxyServerMux ''/a//b'' ''POST'' ''/a/b'' = Route Proxy"
proof -
  have c: "cleanPath ''/a//b'' = ''/a/b''" by code_simp
  show ?thesis
    using requests_routed [of "''/a//b''" "''POST''" "''/a//b''" Metrics] by (simp add: c)
qed

text \<open>
  The resolver starts exactly when the environment, the logger, the configuration of the cluster and
  the clients are there and the number of concurrent requests is not negative; otherwise it exits with the
  first of these errors or panics.
\<close>

lemma main_starts:
  "(\<exists>h. main_start E = Serving h) \<longleftrightarrow>
     (\<exists>env logger. envconfig_Process E = Inr env \<and>
        NewLogger (main_zap E) ''dev'' (SentryDsn env \<noteq> []) = Inr logger \<and> InClusterConfig E = None \<and>
        NewForConfig E = None \<and> dynamic_NewForConfig E = None \<and> 0 \<le> MaxQueueConcurrency env)"
  unfolding requestHandler_starts [symmetric]
  by (auto simp: main_start_def NewOps_def Let_def split: sum.splits option.splits go.splits)

end
