(* ===== verification/ResolverConcurrent.thy ===== *)
theory ResolverConcurrent
  imports ResolverMain
begin

text \<open>
  The resolver with any number of requests at once. A request is a process whose position is the next access
  to state it shares with others: the cached hosts and the objects behind their pointers, the readiness
  cache, the queue sizes (a load and a store, as \<open>throttler.go\<close> has them), the operator client and the breaker,
  whose calls are those of \<open>Breaker\<close>. \<open>cexec\<close> performs one such access, or an action of the world around
  (an answer of the API server, of the service behind the proxy or of the operator, or the passing of time), so
  a list of events is an interleaving. What a request does with its own response writer is in \<open>Handler\<close>; the
  proxy appears by its error here, and it does not panic.
\<close>

section \<open>State\<close>

datatype outcome = Served | Refused | HostError | TimedOut | ServerError | Crash

datatype rpos =
    AtLoad             \<comment> \<open>\<open>hm.hosts.Load\<close>\<close>
  | AtStore Host       \<comment> \<open>\<open>hm.hosts.Store\<close> of a new host\<close>
  | AtCheck            \<comment> \<open>reads \<open>host.TrafficAllowed\<close>\<close>
  | AtIncLoad | AtIncStore int
  | AtCall             \<comment> \<open>about to call \<open>breaker.Maybe\<close>\<close>
  | InMaybe            \<comment> \<open>in \<open>Maybe\<close>, before the thunk\<close>
  | AtReady            \<comment> \<open>the thunk: \<open>serviceReadyMap.Load\<close>\<close>
  | AtList             \<comment> \<open>waits for the API server\<close>
  | AtCache            \<comment> \<open>\<open>serviceReadyMap.Store\<close>\<close>
  | AtProxy            \<comment> \<open>waits for the proxy\<close>
  | AtDisLoad          \<comment> \<open>\<open>DisableTrafficForHost\<close>: loads the host and tests it\<close>
  | AtDisStore nat     \<comment> \<open>writes the host at this address and starts the timer\<close>
  | AtSelect           \<comment> \<open>\<open>select\<close> on the context\<close>
  | Sleeping int
  | AtThunkEnd
  | AfterThunk         \<comment> \<open>in \<open>Maybe\<close>, after the thunk\<close>
  | AtDecLoad | AtDecStore int
  | Done outcome

record creq =
  cr_req :: Request
  cr_pos :: rpos
  cr_host :: nat
  cr_deadline :: int
  cr_count :: int
  cr_call :: nat
  cr_err :: "goerr option"
  cr_reenqueue :: bool

text \<open>
  \<open>rc_objs\<close> are the host objects by address, \<open>rc_hosts\<close> the map of pointers to them, \<open>rc_pend\<close> the goroutines
  \<open>go SendIncomingRequestInfo\<close> that have not run yet, and \<open>rc_sent\<close> the requests that were given to the proxy.
\<close>

record cresolver =
  rc_now :: int
  rc_objs :: "Host list"
  rc_hosts :: "string \<rightharpoonup> nat"
  rc_timers :: "(int \<times> string) list"
  rc_thr :: Throttler
  rc_oc :: Client
  rc_pend :: "(string \<times> string) list"
  rc_brk :: breaker_sys
  rc_reqs :: "creq list"
  rc_sent :: "nat list"

definition rc_start :: "(HostManager, Client) Handler \<Rightarrow> int \<Rightarrow> cresolver" where
  "rc_start h t =
     \<lparr>rc_now = t, rc_objs = [], rc_hosts = Map.empty, rc_timers = [], rc_thr = throttler h, rc_oc = operatorRPC h,
      rc_pend = [], rc_brk = init_sys (th_breaker (throttler h)), rc_reqs = [], rc_sent = []\<rparr>"

definition new_creq :: "Request \<Rightarrow> creq" where
  "new_creq req =
     \<lparr>cr_req = req, cr_pos = AtLoad, cr_host = 0, cr_deadline = 0, cr_count = 0, cr_call = 0, cr_err = None,
      cr_reenqueue = True\<rparr>"

definition host_of :: "cresolver \<Rightarrow> creq \<Rightarrow> Host" where
  "host_of s r = rc_objs s ! cr_host r"

section \<open>One access of one request\<close>

text \<open>What \<open>handleAnyRequest\<close> does between \<open>GetHost\<close> and \<open>Try\<close>, and how it answers after it.\<close>

definition check_traffic :: "config \<Rightarrow> creq \<Rightarrow> cresolver \<Rightarrow> creq \<times> cresolver" where
  "check_traffic cfg r s =
     (if \<not> TrafficAllowed (host_of s r) then (r\<lparr>cr_pos := Done Refused\<rparr>, s)
      else (r\<lparr>cr_deadline := rc_now s + seconds (cfg_ReqTimeout cfg), cr_pos := AtIncLoad\<rparr>,
            s\<lparr>rc_pend := rc_pend s @ [(Namespace (host_of s r), SourceService (host_of s r))]\<rparr>))"

definition outcome_of :: "goerr option \<Rightarrow> outcome" where
  "outcome_of tryErr =
     (case tryErr of
        None \<Rightarrow> Served
      | Some err \<Rightarrow> if errors_Is err DeadlineExceeded then TimedOut else ServerError)"

text \<open>\<open>GetHost\<close>: the map of hosts is read, and a new host stored.\<close>

fun host_step :: "config \<Rightarrow> creq \<Rightarrow> cresolver \<Rightarrow> rpos \<Rightarrow> (creq \<times> cresolver) option" where
  "host_step cfg r s AtLoad =
     Some (case incomingHost_of (NewHostManager 0 (HeaderForHost cfg)) (cr_req r) of
             Panic m \<Rightarrow> (r\<lparr>cr_pos := Done Crash\<rparr>, s)
           | Ret incomingHost \<Rightarrow>
               (case rc_hosts s incomingHost of
                  Some p \<Rightarrow> (r\<lparr>cr_host := p, cr_pos := AtCheck\<rparr>, s)
                | None \<Rightarrow>
                    (case extractNamespaceAndService incomingHost of
                       (sourceService, namespace, Some err) \<Rightarrow> (r\<lparr>cr_pos := Done HostError\<rparr>, s)
                     | (sourceService, namespace, None) \<Rightarrow>
                         (r\<lparr>cr_pos := AtStore (newHost incomingHost sourceService namespace)\<rparr>, s))))"
| "host_step cfg r s (AtStore host) =
     (let p = length (rc_objs s)
      in Some (r\<lparr>cr_host := p, cr_pos := AtCheck\<rparr>,
               s\<lparr>rc_objs := rc_objs s @ [host], rc_hosts := (rc_hosts s)(IncomingHost host \<mapsto> p)\<rparr>))"
| "host_step cfg r s AtCheck =
     Some (check_traffic cfg r s)"
| "host_step cfg r s _ = None"

text \<open>The queue sizes: a load and a store each.\<close>

fun queue_step :: "creq \<Rightarrow> cresolver \<Rightarrow> rpos \<Rightarrow> (creq \<times> cresolver) option" where
  "queue_step r s AtIncLoad =
     Some (r\<lparr>cr_pos := AtIncStore (GetQueueSize (rc_thr s) (Namespace (host_of s r)) (SourceService (host_of s r)))\<rparr>, s)"
| "queue_step r s (AtIncStore n) =
     Some (r\<lparr>cr_count := 1, cr_reenqueue := True, cr_pos := AtCall\<rparr>,
           s\<lparr>rc_thr := storeQueueSize (rc_thr s) (Namespace (host_of s r)) (SourceService (host_of s r)) (wrap64 (n + 1))\<rparr>)"
| "queue_step r s AtDecLoad =
     Some (r\<lparr>cr_pos := AtDecStore (GetQueueSize (rc_thr s) (Namespace (host_of s r)) (SourceService (host_of s r)))\<rparr>, s)"
| "queue_step r s (AtDecStore n) =
     Some (r\<lparr>cr_pos := Done (outcome_of (cr_err r))\<rparr>,
           s\<lparr>rc_thr := storeQueueSize (rc_thr s) (Namespace (host_of s r)) (SourceService (host_of s r)) (wrap64 (n - 1))\<rparr>)"
| "queue_step r s _ = None"

text \<open>
  The calls of the breaker: a new call, the start of the thunk once the call has a permit, the end of the
  thunk, and the return of \<open>Maybe\<close>.
\<close>

fun maybe_step :: "creq \<Rightarrow> cresolver \<Rightarrow> rpos \<Rightarrow> (creq \<times> cresolver) option" where
  "maybe_step r s AtCall =
     map_option (\<lambda>b. (r\<lparr>cr_err := None, cr_call := length (pcs (rc_brk s)), cr_pos := InMaybe\<rparr>, s\<lparr>rc_brk := b\<rparr>))
       (exec (rc_brk s) Spawn)"
| "maybe_step r s InMaybe =
     (if at_pc (rc_brk s) (cr_call r) (Sem AcqOk) then Some (r\<lparr>cr_pos := AtReady\<rparr>, s)
      else if cr_call r < length (pcs (rc_brk s)) then
        (case pcs (rc_brk s) ! cr_call r of
           Returned (Some e) \<Rightarrow> Some (r\<lparr>cr_err := Some (Wrap ''breaker error'' e), cr_pos := AtDecLoad\<rparr>, s)
         | _ \<Rightarrow> None)
      else None)"
| "maybe_step r s AtThunkEnd =
     map_option (\<lambda>b. (r\<lparr>cr_pos := AfterThunk\<rparr>, s\<lparr>rc_brk := b\<rparr>)) (exec (rc_brk s) (ThunkDone (cr_call r)))"
| "maybe_step r s AfterThunk =
     (if at_pc (rc_brk s) (cr_call r) (Returned None) then
        Some (if cr_reenqueue r then r\<lparr>cr_pos := AtCall\<rparr>
              else r\<lparr>cr_err := map_option (Wrap ''thunk error'') (cr_err r), cr_pos := AtDecLoad\<rparr>, s)
      else None)"
| "maybe_step r s _ = None"

text \<open>\<open>checkIfServiceReady\<close>: the cache is read, and after the answer of the API server written.\<close>

definition ready_load :: "creq \<Rightarrow> cresolver \<Rightarrow> creq" where
  "ready_load r s =
     (case serviceReadyMap (rc_thr s) (svc_key (Namespace (host_of s r)) (TargetService (host_of s r))) of
        Some ready \<Rightarrow> r\<lparr>cr_pos := (if ready then AtProxy else AtSelect)\<rparr>
      | None \<Rightarrow> r\<lparr>cr_pos := AtList\<rparr>)"

definition ready_store :: "creq \<Rightarrow> cresolver \<Rightarrow> creq \<times> cresolver" where
  "ready_store r s =
     (let key = svc_key (Namespace (host_of s r)) (TargetService (host_of s r)); t = rc_thr s
      in (r\<lparr>cr_pos := AtProxy\<rparr>,
          s\<lparr>rc_thr := t\<lparr>serviceReadyMap := (serviceReadyMap t)(key \<mapsto> True),
                       th_timers := th_timers t @ [(rc_now s + TrafficReEnableDuration t, key)]\<rparr>\<rparr>))"

text \<open>\<open>DisableTrafficForHost\<close>: the host is loaded and tested, then written and its timer started.\<close>

definition disable_load :: "creq \<Rightarrow> cresolver \<Rightarrow> creq" where
  "disable_load r s =
     (case rc_hosts s (IncomingHost (host_of s r)) of
        Some p \<Rightarrow> r\<lparr>cr_pos := (if TrafficAllowed (rc_objs s ! p) then AtDisStore p else AtSelect)\<rparr>
      | None \<Rightarrow> r\<lparr>cr_pos := AtSelect\<rparr>)"

definition disable_store :: "config \<Rightarrow> nat \<Rightarrow> creq \<Rightarrow> cresolver \<Rightarrow> creq \<times> cresolver" where
  "disable_store cfg p r s =
     (let hostName = IncomingHost (host_of s r)
      in (r\<lparr>cr_pos := AtSelect\<rparr>,
          s\<lparr>rc_objs := (rc_objs s)[p := (rc_objs s ! p)\<lparr>TrafficAllowed := False\<rparr>],
            rc_hosts := (rc_hosts s)(hostName \<mapsto> p),
            rc_timers := rc_timers s @ [(rc_now s + seconds (cfg_TrafficReEnableDuration cfg), hostName)]\<rparr>))"

text \<open>The \<open>select\<close> at the end of the thunk, with the count of the attempts.\<close>

definition select_done :: "creq \<Rightarrow> cresolver \<Rightarrow> creq" where
  "select_done r s =
     (if cr_deadline r \<le> rc_now s
      then r\<lparr>cr_err := Some (Wrap ''context done error'' DeadlineExceeded), cr_reenqueue := False,
             cr_pos := AtThunkEnd\<rparr>
      else if cr_reenqueue r
      then r\<lparr>cr_count := cr_count r + 1, cr_pos := Sleeping (rc_now s + th_retryDuration (rc_thr s))\<rparr>
      else r\<lparr>cr_pos := AtThunkEnd\<rparr>)"

declare check_traffic_def [simp] ready_load_def [simp] ready_store_def [simp] disable_load_def [simp]
  disable_store_def [simp] select_done_def [simp] outcome_of_def [simp]

fun thunk_step :: "config \<Rightarrow> creq \<Rightarrow> cresolver \<Rightarrow> rpos \<Rightarrow> (creq \<times> cresolver) option" where
  "thunk_step cfg r s AtReady = Some (ready_load r s, s)"
| "thunk_step cfg r s AtCache = Some (ready_store r s)"
| "thunk_step cfg r s AtDisLoad = Some (disable_load r s, s)"
| "thunk_step cfg r s (AtDisStore p) = Some (disable_store cfg p r s)"
| "thunk_step cfg r s AtSelect = Some (select_done r s, s)"
| "thunk_step cfg r s (Sleeping until) =
     (if until \<le> rc_now s then Some (r\<lparr>cr_pos := AtThunkEnd\<rparr>, s) else None)"
| "thunk_step cfg r s _ = None"

fun go_step :: "config \<Rightarrow> creq \<Rightarrow> cresolver \<Rightarrow> (creq \<times> cresolver) option" where
  "go_step cfg r s =
     (case host_step cfg r s (cr_pos r) of
        Some x \<Rightarrow> Some x
      | None \<Rightarrow>
          (case queue_step r s (cr_pos r) of
             Some x \<Rightarrow> Some x
           | None \<Rightarrow> (case maybe_step r s (cr_pos r) of Some x \<Rightarrow> Some x | None \<Rightarrow> thunk_step cfg r s (cr_pos r))))"

section \<open>Events\<close>

datatype cevent =
    Arrive Request
  | Go nat                                  \<comment> \<open>the next access of a request\<close>
  | Brk Breaker.event                       \<comment> \<open>a step inside the breaker\<close>
  | Listed nat "slices result"              \<comment> \<open>the API server answers\<close>
  | Proxied nat "goerr option"              \<comment> \<open>\<open>ProxyRequest\<close> returns\<close>
  | RpcStart nat "goerr option"             \<comment> \<open>a goroutine calls \<open>SendIncomingRequestInfo\<close>\<close>
  | RpcReturn string string rpc_answer
  | Tick int

text \<open>The positions at which a request is inside its thunk, and inside a call of \<open>Maybe\<close>.\<close>

fun thunk_pos :: "rpos \<Rightarrow> bool" where
  "thunk_pos (AtDisStore p) = True"
| "thunk_pos (Sleeping until) = True"
| "thunk_pos p = (p \<in> {AtReady, AtList, AtCache, AtProxy, AtDisLoad, AtSelect, AtThunkEnd})"

definition in_call :: "rpos \<Rightarrow> bool" where
  "in_call p = (thunk_pos p \<or> p = InMaybe \<or> p = AfterThunk)"

text \<open>
  The events of the breaker that are not the doing of a request. The context of a call is done once the
  deadline of its request has passed.
\<close>

fun internal_event :: "cresolver \<Rightarrow> Breaker.event \<Rightarrow> bool" where
  "internal_event s Spawn = False"
| "internal_event s (ThunkDone i) = False"
| "internal_event s (Expire i e) =
     (e = DeadlineExceeded \<and> list_ex (\<lambda>r. in_call (cr_pos r) \<and> cr_call r = i \<and> cr_deadline r \<le> rc_now s) (rc_reqs s))"
| "internal_event s e = True"

definition put_req :: "nat \<Rightarrow> creq \<Rightarrow> cresolver \<Rightarrow> cresolver" where
  "put_req i r s = s\<lparr>rc_reqs := (rc_reqs s)[i := r]\<rparr>"

definition enable_host :: "string \<Rightarrow> cresolver \<Rightarrow> cresolver" where
  "enable_host k s =
     (case rc_hosts s k of
        None \<Rightarrow> s
      | Some p \<Rightarrow> s\<lparr>rc_objs := (rc_objs s)[p := (rc_objs s ! p)\<lparr>TrafficAllowed := True\<rparr>]\<rparr>)"

definition pass_time :: "int \<Rightarrow> cresolver \<Rightarrow> cresolver go" where
  "pass_time t s =
     (case fire_releases t (rc_oc s) of
        Panic m \<Rightarrow> Panic m
      | Ret c \<Rightarrow>
          Ret (fold enable_host (map snd (filter (\<lambda>(due, k). due \<le> t) (rc_timers s)))
                 (s\<lparr>rc_now := t, rc_oc := c, rc_thr := expire_ready t (rc_thr s),
                    rc_timers := filter (\<lambda>(due, k). \<not> due \<le> t) (rc_timers s)\<rparr>)))"

definition listed :: "slices result \<Rightarrow> creq \<Rightarrow> cresolver \<Rightarrow> creq \<times> cresolver" where
  "listed answer r s =
     (let h = host_of s r;
          failed = (\<lambda>err. (r\<lparr>cr_err := Some err, cr_pos := AtSelect\<rparr>,
                           s\<lparr>rc_pend := rc_pend s @ [(Namespace h, SourceService h)]\<rparr>))
      in case CheckIfServiceEndpointSliceActive (\<lambda>ns sel. answer) (Namespace h) (TargetService h) of
           Inl err \<Rightarrow> failed (Wrap ''unable to get target active endpoints'' err)
         | Inr isPodActive \<Rightarrow>
             if \<not> isPodActive then failed (Err ''no active endpoints found'') else (r\<lparr>cr_pos := AtCache\<rparr>, s))"

definition proxied :: "nat \<Rightarrow> goerr option \<Rightarrow> creq \<Rightarrow> cresolver \<Rightarrow> creq \<times> cresolver" where
  "proxied i res r s =
     (r\<lparr>cr_err := map_option (Wrap ''resolve error'') res, cr_reenqueue := False,
        cr_pos := (if res = None then AtDisLoad else AtSelect)\<rparr>,
      s\<lparr>rc_sent := i # rc_sent s\<rparr>)"

fun cexec :: "config \<Rightarrow> cresolver \<Rightarrow> cevent \<Rightarrow> cresolver go option" where
  "cexec cfg s (Arrive req) = Some (Ret (s\<lparr>rc_reqs := rc_reqs s @ [new_creq req]\<rparr>))"
| "cexec cfg s (Go i) =
     (if i < length (rc_reqs s)
      then map_option (\<lambda>(r, s'). Ret (put_req i r s')) (go_step cfg (rc_reqs s ! i) s) else None)"
| "cexec cfg s (Brk e) =
     (if internal_event s e then map_option (\<lambda>b. Ret (s\<lparr>rc_brk := b\<rparr>)) (exec (rc_brk s) e) else None)"
| "cexec cfg s (Listed i answer) =
     (if i < length (rc_reqs s) \<and> cr_pos (rc_reqs s ! i) = AtList
      then Some (case listed answer (rc_reqs s ! i) s of (r, s') \<Rightarrow> Ret (put_req i r s')) else None)"
| "cexec cfg s (Proxied i res) =
     (if i < length (rc_reqs s) \<and> cr_pos (rc_reqs s ! i) = AtProxy
      then Some (case proxied i res (rc_reqs s ! i) s of (r, s') \<Rightarrow> Ret (put_req i r s')) else None)"
| "cexec cfg s (RpcStart k prepErr) =
     (if k < length (rc_pend s)
      then (case rc_pend s ! k of
              (ns, svc) \<Rightarrow>
                Some (Ret (s\<lparr>rc_oc := SendIncomingRequestInfo_enter (rc_now s) prepErr (rc_oc s) ns svc,
                             rc_pend := take k (rc_pend s) @ drop (Suc k) (rc_pend s)\<rparr>)))
      else None)"
| "cexec cfg s (RpcReturn ns svc a) =
     (if (ns, svc) \<in> set (oc_running (rc_oc s))
      then Some (Ret (s\<lparr>rc_oc := SendIncomingRequestInfo_return (rc_now s) a (rc_oc s) ns svc\<rparr>)) else None)"
| "cexec cfg s (Tick t) = (if rc_now s \<le> t then Some (pass_time t s) else None)"

fun crun :: "config \<Rightarrow> cresolver \<Rightarrow> cevent list \<Rightarrow> cresolver option" where
  "crun cfg s [] = Some s"
| "crun cfg s (e # es) = (case cexec cfg s e of Some (Ret t) \<Rightarrow> crun cfg t es | _ \<Rightarrow> None)"

inductive creach :: "config \<Rightarrow> cresolver \<Rightarrow> bool" for cfg where
  start: "requestHandler cfg = Ret h \<Longrightarrow> creach cfg (rc_start h t)"
| step: "creach cfg s \<Longrightarrow> cexec cfg s e = Some (Ret s') \<Longrightarrow> creach cfg s'"

section \<open>Requests and their calls\<close>

text \<open>Where the call of a request is before and after the thunk.\<close>

fun returned :: "pc \<Rightarrow> bool" where
  "returned (Returned r) = True"
| "returned p = False"

fun before_thunk :: "pc \<Rightarrow> bool" where
  "before_thunk TryLoad = True"
| "before_thunk (TryCAS cur) = True"
| "before_thunk (Sem p) = (case p of AcqLoad \<Rightarrow> True | AcqCAS old \<Rightarrow> True | AcqOk \<Rightarrow> True | AcqSelect \<Rightarrow> True
                            | AcqBlocked \<Rightarrow> True | _ \<Rightarrow> False)"
| "before_thunk (SlotLoad r) = (r \<noteq> None)"
| "before_thunk (SlotCAS r cur) = (r \<noteq> None)"
| "before_thunk (Returned r) = (r \<noteq> None)"

definition agrees :: "rpos \<Rightarrow> pc \<Rightarrow> bool" where
  "agrees q p =
     ((thunk_pos q \<longrightarrow> p = Sem AcqOk) \<and> (q = InMaybe \<longrightarrow> before_thunk p) \<and> (q = AfterThunk \<longrightarrow> \<not> before_thunk p))"

definition call_ok :: "breaker_sys \<Rightarrow> creq \<Rightarrow> bool" where
  "call_ok b r =
     (in_call (cr_pos r) \<longrightarrow> cr_call r < length (pcs b) \<and> agrees (cr_pos r) (pcs b ! cr_call r))"

text \<open>Every call belongs to one request, until it returns.\<close>

definition owner :: "nat \<Rightarrow> creq \<Rightarrow> bool" where
  "owner j r = (in_call (cr_pos r) \<and> cr_call r = j)"

definition calls_inv :: "breaker_sys \<Rightarrow> creq list \<Rightarrow> bool" where
  "calls_inv b rs =
     ((\<forall>i < length rs. call_ok b (rs ! i)) \<and>
      (\<forall>i < length rs. \<forall>k < length rs. \<forall>j. owner j (rs ! i) \<longrightarrow> owner j (rs ! k) \<longrightarrow> i = k) \<and>
      (\<forall>j < length (pcs b). returned (pcs b ! j) \<or> (\<exists>i < length rs. owner j (rs ! i))))"

lemma calls_invD:
  assumes "calls_inv b rs"
  shows "i < length rs \<Longrightarrow> call_ok b (rs ! i)"
    and "i < length rs \<Longrightarrow> k < length rs \<Longrightarrow> owner j (rs ! i) \<Longrightarrow> owner j (rs ! k) \<Longrightarrow> i = k"
    and "j < length (pcs b) \<Longrightarrow> returned (pcs b ! j) \<or> (\<exists>i < length rs. owner j (rs ! i))"
  using assms unfolding calls_inv_def by blast+

lemma Maybe_step_agrees:
  "Maybe_step p b = Some (p', b') \<Longrightarrow> p \<noteq> Sem AcqOk \<and> before_thunk p' = before_thunk p \<and> \<not> returned p"
  by (induction p b rule: Maybe_step.induct)
    (auto simp: lift_sem_def Let_def split: if_splits prod.splits)

text \<open>A step inside the breaker respects the positions of all requests.\<close>

lemma exec_moves:
  assumes "exec b e = Some b'" "internal_event s e"
  shows "length (pcs b') = length (pcs b) \<and>
    (pcs b' ! j = pcs b ! j \<or>
     pcs b ! j \<noteq> Sem AcqOk \<and> \<not> returned (pcs b ! j) \<and> before_thunk (pcs b' ! j) = before_thunk (pcs b ! j))"
proof (cases e)
  case (Step i)
  with assms show ?thesis
    by (cases "j < length (pcs b)")
      (auto simp: nth_list_update dest: Maybe_step_agrees split: if_splits option.splits)
qed (use assms in \<open>auto simp: at_pc_def nth_list_update list_update_beyond split: if_splits option.splits\<close>)

lemma exec_agrees:
  assumes "exec b e = Some b'" "internal_event s e"
  shows "length (pcs b') = length (pcs b)"
    and "agrees q (pcs b ! j) \<Longrightarrow> agrees q (pcs b' ! j)"
    and "returned (pcs b ! j) \<Longrightarrow> pcs b' ! j = pcs b ! j"
  using exec_moves [OF assms, of j] by (auto simp: agrees_def)
lemma calls_inv_internal:
  assumes inv: "calls_inv b rs" and ex: "exec b e = Some b'" "internal_event s e"
  shows "calls_inv b' rs"
proof -
  note E = exec_agrees [OF ex]
  have "call_ok b' (rs ! i)" if "i < length rs" for i
    using calls_invD(1) [OF inv that] E(1,2) by (simp add: call_ok_def)
  moreover have "returned (pcs b' ! j) \<or> (\<exists>i < length rs. owner j (rs ! i))" if "j < length (pcs b')" for j
    using calls_invD(3) [OF inv, of j] that E(1,3) by metis
  ultimately show ?thesis using inv unfolding calls_inv_def by blast
qed

text \<open>A request moves on while the breaker stands still.\<close>

definition advance :: "breaker_sys \<Rightarrow> creq \<Rightarrow> creq \<Rightarrow> bool" where
  "advance b r r' =
     (cr_call r' = cr_call r \<and> (in_call (cr_pos r') \<longrightarrow> in_call (cr_pos r)) \<and>
      (call_ok b r \<longrightarrow> call_ok b r' \<and>
         (in_call (cr_pos r) \<and> \<not> in_call (cr_pos r') \<longrightarrow> returned (pcs b ! cr_call r))))"

lemma calls_inv_advance:
  assumes inv: "calls_inv b rs" and i: "i < length rs" and adv: "advance b (rs ! i) r'"
  shows "calls_inv b (rs[i := r'])"
proof -
  let ?rs = "rs[i := r']"
  have old: "owner j (rs ! k)" if "owner j (?rs ! k)" "k < length rs" for j k
    using that adv i by (cases "k = i") (auto simp: owner_def advance_def)
  have ok: "call_ok b (rs ! i)" by (rule calls_invD(1) [OF inv i])
  have "call_ok b (?rs ! k)" if "k < length rs" for k
    using calls_invD(1) [OF inv that] adv ok i by (cases "k = i") (auto simp: advance_def)
  moreover have "k = l" if "k < length rs" "l < length rs" "owner j (?rs ! k)" "owner j (?rs ! l)" for j k l
    using calls_invD(2) [OF inv that(1,2)] old that by blast
  moreover have "returned (pcs b ! j) \<or> (\<exists>k < length rs. owner j (?rs ! k))" if j: "j < length (pcs b)" for j
  proof (cases "owner j (rs ! i)")
    case True
    then have "returned (pcs b ! j) \<or> owner j (?rs ! i)"
      using adv ok i by (auto simp: owner_def advance_def)
    with i show ?thesis by blast
  next
    case False
    then show ?thesis using calls_invD(3) [OF inv j] by (metis nth_list_update_neq)
  qed
  ultimately show ?thesis unfolding calls_inv_def by simp
qed

text \<open>A request arrives, calls \<open>Maybe\<close>, and its thunk ends.\<close>

lemma calls_inv_append:
  assumes inv: "calls_inv b rs" and r: "\<not> in_call (cr_pos r)"
  shows "calls_inv b (rs @ [r])"
proof -
  have own: "owner j ((rs @ [r]) ! k) \<longleftrightarrow> k < length rs \<and> owner j (rs ! k)" if "k \<le> length rs" for j k
    using that r by (auto simp: nth_append owner_def)
  have "call_ok b ((rs @ [r]) ! k)" if "k \<le> length rs" for k
    using calls_invD(1) [OF inv, of k] that r by (auto simp: nth_append call_ok_def)
  moreover have "k = l" if "k \<le> length rs" "l \<le> length rs" "owner j ((rs @ [r]) ! k)" "owner j ((rs @ [r]) ! l)" for j k l
    using calls_invD(2) [OF inv] that own by blast
  moreover have "returned (pcs b ! j) \<or> (\<exists>k \<le> length rs. owner j ((rs @ [r]) ! k))" if "j < length (pcs b)" for j
    using calls_invD(3) [OF inv that] own by (meson less_imp_le)
  ultimately show ?thesis unfolding calls_inv_def by (simp add: less_Suc_eq_le)
qed

lemma calls_inv_spawn:
  assumes inv: "calls_inv b rs" and i: "i < length rs" and ex: "exec b Spawn = Some b'"
    and free: "\<not> in_call (cr_pos (rs ! i))" and r': "cr_pos r' = InMaybe" "cr_call r' = length (pcs b)"
  shows "calls_inv b' (rs[i := r'])"
proof -
  let ?rs = "rs[i := r']"
  have b': "pcs b' = pcs b @ [TryLoad]" using ex by auto
  have low: "cr_call (rs ! k) < length (pcs b)" if "k < length rs" "in_call (cr_pos (rs ! k))" for k
    using calls_invD(1) [OF inv that(1)] that(2) by (simp add: call_ok_def)
  have own: "owner j (?rs ! k) \<longleftrightarrow> (if k = i then j = length (pcs b) else owner j (rs ! k))" if "k < length rs" for j k
    using that i r' by (auto simp: owner_def in_call_def)
  have new: "\<not> owner (length (pcs b)) (rs ! k)" if "k < length rs" for k
    using low [OF that] by (auto simp: owner_def)
  have "call_ok b' (?rs ! k)" if "k < length rs" for k
    using calls_invD(1) [OF inv that] i r' b' low [OF that]
    by (cases "k = i") (auto simp: call_ok_def agrees_def in_call_def nth_append)
  moreover have "k = l" if "k < length rs" "l < length rs" "owner j (?rs ! k)" "owner j (?rs ! l)" for j k l
    using that calls_invD(2) [OF inv that(1,2)] new own [OF that(1)] own [OF that(2)] by (auto split: if_splits)
  moreover have "returned (pcs b' ! j) \<or> (\<exists>k < length rs. owner j (?rs ! k))" if j: "j < length (pcs b')" for j
  proof (cases "j < length (pcs b)")
    case True
    with calls_invD(3) [OF inv True] free show ?thesis by (metis b' nth_append own owner_def)
  next
    case False
    with j b' own [OF i] i show ?thesis by auto
  qed
  ultimately show ?thesis unfolding calls_inv_def by simp
qed

lemma calls_inv_thunk_end:
  assumes inv: "calls_inv b rs" and i: "i < length rs" and pos: "cr_pos (rs ! i) = AtThunkEnd"
    and ex: "exec b (ThunkDone (cr_call (rs ! i))) = Some b'"
    and r': "cr_pos r' = AfterThunk" "cr_call r' = cr_call (rs ! i)"
  shows "calls_inv b' (rs[i := r'])"
proof -
  let ?rs = "rs[i := r']" and ?c = "cr_call (rs ! i)"
  have b': "pcs b' = (pcs b)[?c := Sem RelLoad]" and c: "?c < length (pcs b)"
    using ex by (auto simp: at_pc_def split: if_splits)
  have own: "owner j (?rs ! k) \<longleftrightarrow> owner j (rs ! k)" if "k < length rs" for j k
    using that i pos r' by (cases "k = i") (auto simp: owner_def in_call_def)
  have mine: "owner ?c (rs ! i)" using pos by (simp add: owner_def in_call_def)
  have "call_ok b' (?rs ! k)" if k: "k < length rs" for k
  proof (cases "k = i")
    case True
    with i r' b' c show ?thesis by (simp add: call_ok_def agrees_def)
  next
    case False
    with calls_invD(2) [OF inv k i _ mine] have "\<not> owner ?c (rs ! k)" by blast
    with False calls_invD(1) [OF inv k] b' show ?thesis by (auto simp: call_ok_def owner_def)
  qed
  moreover have "k = l" if "k < length rs" "l < length rs" "owner j (?rs ! k)" "owner j (?rs ! l)" for j k l
    using that calls_invD(2) [OF inv that(1,2)] own by blast
  moreover have "returned (pcs b' ! j) \<or> (\<exists>k < length rs. owner j (?rs ! k))" if "j < length (pcs b')" for j
    using calls_invD(3) [OF inv, of j] that mine i b' own by (metis length_list_update nth_list_update_neq)
  ultimately show ?thesis unfolding calls_inv_def by simp
qed
section \<open>Steps of a request\<close>

text \<open>
  \<open>log_ok\<close> relates a request to the record of what was given to the proxy: a request in the record is past
  the proxy and will not retry, and one that ends well is in the record.
\<close>

fun past_proxy :: "rpos \<Rightarrow> bool" where
  "past_proxy (AtDisStore p) = True"
| "past_proxy (AtDecStore n) = True"
| "past_proxy (Done x) = (x \<in> {Served, TimedOut, ServerError})"
| "past_proxy p = (p \<in> {AtDisLoad, AtSelect, AtThunkEnd, AfterThunk, AtDecLoad})"

fun leaving :: "rpos \<Rightarrow> bool" where
  "leaving (AtDecStore n) = True"
| "leaving p = (p = AtDecLoad)"

definition log_ok :: "bool \<Rightarrow> creq \<Rightarrow> bool" where
  "log_ok sent r =
     ((sent \<longrightarrow> past_proxy (cr_pos r) \<and> \<not> cr_reenqueue r) \<and>
      (cr_err r = None \<and> (\<not> cr_reenqueue r \<or> leaving (cr_pos r)) \<or> cr_pos r = Done Served \<longrightarrow> sent) \<and>
      (cr_pos r = AtCall \<longrightarrow> cr_reenqueue r))"

definition keeps :: "cresolver \<Rightarrow> cresolver \<Rightarrow> bool" where
  "keeps s s' =
     (rc_now s' = rc_now s \<and> rc_oc s' = rc_oc s \<and> rc_brk s' = rc_brk s \<and> rc_reqs s' = rc_reqs s \<and>
      rc_sent s' = rc_sent s \<and> (ready_inv (rc_thr s) \<longrightarrow> ready_inv (rc_thr s')))"

lemma not_in_call [simp]:
  "\<not> in_call AtLoad" "\<not> in_call (AtStore h)" "\<not> in_call AtCheck" "\<not> in_call AtIncLoad" "\<not> in_call (AtIncStore n)"
  "\<not> in_call AtCall" "\<not> in_call AtDecLoad" "\<not> in_call (AtDecStore n)" "\<not> in_call (Done x)"
  by (simp_all add: in_call_def)

lemma in_call_thunk [simp]: "thunk_pos p \<Longrightarrow> in_call p" "in_call InMaybe" "in_call AfterThunk"
  by (simp_all add: in_call_def)

lemma advance_thunk:
  assumes "thunk_pos (cr_pos r)" "thunk_pos (cr_pos r')" "cr_call r' = cr_call r"
  shows "advance b r r'"
  using assms by (auto simp: advance_def call_ok_def agrees_def)

lemma advance_outside:
  assumes "\<not> in_call (cr_pos r)" "\<not> in_call (cr_pos r')" "cr_call r' = cr_call r"
  shows "advance b r r'"
  using assms by (auto simp: advance_def call_ok_def)

lemma ready_inv_store [simp]: "ready_inv (storeQueueSize t ns svc n) = ready_inv t"
  by (simp add: ready_inv_def storeQueueSize_def)

lemma host_step_quiet:
  assumes "host_step cfg r s (cr_pos r) = Some (r', s')"
  shows "advance b r r' \<and> (log_ok x r \<longrightarrow> log_ok x r') \<and> keeps s s'"
  using assms
  by (cases "cr_pos r")
    (auto simp: keeps_def log_ok_def Let_def intro: advance_outside split: go.splits option.splits prod.splits if_splits)

lemma queue_step_quiet:
  assumes "queue_step r s (cr_pos r) = Some (r', s')"
  shows "advance b r r' \<and> (log_ok x r \<longrightarrow> log_ok x r') \<and> keeps s s'"
  using assms
  by (cases "cr_pos r")
    (auto simp: keeps_def log_ok_def intro: advance_outside split: option.splits if_splits)

lemma thunk_step_quiet:
  assumes "thunk_step cfg r s (cr_pos r) = Some (r', s')"
  shows "advance b r r' \<and> (log_ok x r \<longrightarrow> log_ok x r') \<and> keeps s s'"
  using assms
  by (cases "cr_pos r")
    (auto simp: keeps_def log_ok_def Let_def ready_inv_update intro: advance_thunk split: option.splits if_splits)

lemma maybe_step_quiet:
  assumes "maybe_step r s (cr_pos r) = Some (r', s')" "cr_pos r \<noteq> AtCall" "cr_pos r \<noteq> AtThunkEnd"
  shows "advance (rc_brk s) r r' \<and> (log_ok x r \<longrightarrow> log_ok x r') \<and> keeps s s'"
  using assms
  by (cases "cr_pos r")
    (auto simp: keeps_def log_ok_def advance_def call_ok_def agrees_def at_pc_def
      split: option.splits if_splits pc.splits)

lemma go_step_quiet:
  assumes "go_step cfg r s = Some (r', s')" "cr_pos r \<noteq> AtCall" "cr_pos r \<noteq> AtThunkEnd"
  shows "advance (rc_brk s) r r' \<and> (log_ok x r \<longrightarrow> log_ok x r') \<and> keeps s s'"
  using assms host_step_quiet [of cfg r s r' s' "rc_brk s" x] queue_step_quiet [of r s r' s' "rc_brk s" x]
    thunk_step_quiet [of cfg r s r' s' "rc_brk s" x] maybe_step_quiet [of r s r' s' x]
  by (auto split: option.splits)

lemma go_step_call:
  assumes "go_step cfg r s = Some (r', s')" "cr_pos r = AtCall"
  shows "\<exists>b. exec (rc_brk s) Spawn = Some b \<and> r' = r\<lparr>cr_err := None, cr_call := length (pcs (rc_brk s)), cr_pos := InMaybe\<rparr> \<and>
    s' = s\<lparr>rc_brk := b\<rparr>"
  using assms by auto

lemma go_step_thunk_end:
  assumes "go_step cfg r s = Some (r', s')" "cr_pos r = AtThunkEnd"
  shows "\<exists>b. exec (rc_brk s) (ThunkDone (cr_call r)) = Some b \<and> r' = r\<lparr>cr_pos := AfterThunk\<rparr> \<and> s' = s\<lparr>rc_brk := b\<rparr>"
  using assms by (auto simp del: exec.simps split: option.splits)

lemma listed_quiet:
  assumes "listed answer r s = (r', s')" "cr_pos r = AtList"
  shows "advance b r r' \<and> (log_ok x r \<longrightarrow> log_ok x r') \<and> keeps s s'"
  using assms
  by (auto simp: listed_def Let_def keeps_def log_ok_def intro!: advance_thunk split: sum.splits if_splits)

lemma proxied_quiet:
  assumes "proxied i res r s = (r', s')" "cr_pos r = AtProxy"
  shows "advance b r r' \<and> \<not> past_proxy (cr_pos r) \<and> log_ok True r' \<and> s' = s\<lparr>rc_sent := i # rc_sent s\<rparr>"
  using assms by (auto simp: proxied_def log_ok_def intro!: advance_thunk split: if_splits)
section \<open>The invariant\<close>

definition sent_inv :: "cresolver \<Rightarrow> bool" where
  "sent_inv s = 
     (distinct (rc_sent s) \<and> (\<forall>i \<in> set (rc_sent s). i < length (rc_reqs s)) \<and>
      (\<forall>i < length (rc_reqs s). log_ok (i \<in> set (rc_sent s)) (rc_reqs s ! i)))"

definition cinv :: "config \<Rightarrow> cresolver \<Rightarrow> bool" where
  "cinv cfg s =
     ((\<exists>b. NewBreaker (P_Breaker (throttler_Params cfg)) = Ret b \<and> reachable b (rc_brk s)) \<and>
      oc_inv (seconds (OperatorRetryDuration cfg)) (rc_now s) (rc_oc s) \<and>
      ready_inv (rc_thr s) \<and> calls_inv (rc_brk s) (rc_reqs s) \<and> sent_inv s)"

lemma cinv_start: "requestHandler cfg = Ret h \<Longrightarrow> cinv cfg (rc_start h t)"
  by (auto simp: cinv_def rc_start_def requestHandler_eq calls_inv_def sent_inv_def init_sys_def
      oc_inv_new ready_inv_def split: go.splits intro: reachable.start [unfolded init_sys_def])

lemma cinv_reach: "cinv cfg s \<Longrightarrow> exec (rc_brk s) e = Some b \<Longrightarrow>
    \<exists>b0. NewBreaker (P_Breaker (throttler_Params cfg)) = Ret b0 \<and> reachable b0 b"
  unfolding cinv_def by (blast intro: reachable.step)

text \<open>A request that moves on keeps the record of what was forwarded.\<close>

lemma sent_invD:
  assumes "sent_inv s"
  shows "distinct (rc_sent s)" "i \<in> set (rc_sent s) \<Longrightarrow> i < length (rc_reqs s)"
    "i < length (rc_reqs s) \<Longrightarrow> log_ok (i \<in> set (rc_sent s)) (rc_reqs s ! i)"
  using assms by (simp_all add: sent_inv_def)

lemma sent_invI:
  assumes "distinct (rc_sent s)" "\<And>i. i \<in> set (rc_sent s) \<Longrightarrow> i < length (rc_reqs s)"
    and "\<And>i. i < length (rc_reqs s) \<Longrightarrow> log_ok (i \<in> set (rc_sent s)) (rc_reqs s ! i)"
  shows "sent_inv s"
  using assms unfolding sent_inv_def by blast

lemma sent_inv_put:
  assumes "sent_inv s" "rc_reqs s' = rc_reqs s" "rc_sent s' = rc_sent s"
    and log: "\<And>x. log_ok x (rc_reqs s ! i) \<Longrightarrow> log_ok x r'"
  shows "sent_inv (put_req i r' s')"
proof (rule sent_invI)
  fix k assume "k < length (rc_reqs (put_req i r' s'))"
  then have k: "k < length (rc_reqs s)" by (simp add: assms put_req_def)
  with sent_invD(3) [OF assms(1) k] log
  show "log_ok (k \<in> set (rc_sent (put_req i r' s'))) (rc_reqs (put_req i r' s') ! k)"
    by (cases "k = i") (simp_all add: assms put_req_def)
qed (use sent_invD [OF assms(1)] in \<open>simp_all add: assms put_req_def\<close>)

lemma sent_inv_proxied:
  assumes "sent_inv s" "i < length (rc_reqs s)" "\<not> past_proxy (cr_pos (rc_reqs s ! i))" "log_ok True r'"
  shows "sent_inv (put_req i r' (s\<lparr>rc_sent := i # rc_sent s\<rparr>))"
proof (rule sent_invI)
  have new: "i \<notin> set (rc_sent s)" using sent_invD(3) [OF assms(1,2)] assms(3) by (auto simp: log_ok_def)
  let ?s = "put_req i r' (s\<lparr>rc_sent := i # rc_sent s\<rparr>)"
  show "distinct (rc_sent ?s)" using new sent_invD(1) [OF assms(1)] by (simp add: put_req_def)
  show "k < length (rc_reqs ?s)" if "k \<in> set (rc_sent ?s)" for k
    using that assms(2) sent_invD(2) [OF assms(1), of k] by (auto simp: put_req_def)
  show "log_ok (k \<in> set (rc_sent ?s)) (rc_reqs ?s ! k)" if "k < length (rc_reqs ?s)" for k
    using that assms(2,4) sent_invD(3) [OF assms(1), of k] by (cases "k = i") (simp_all add: put_req_def)
qed

lemma sent_inv_arrive:
  assumes "sent_inv s"
  shows "sent_inv (s\<lparr>rc_reqs := rc_reqs s @ [new_creq req]\<rparr>)"
proof (rule sent_invI)
  let ?s = "s\<lparr>rc_reqs := rc_reqs s @ [new_creq req]\<rparr>"
  have new: "length (rc_reqs s) \<notin> set (rc_sent s)" using sent_invD(2) [OF assms] by blast
  show "k < length (rc_reqs ?s)" if "k \<in> set (rc_sent ?s)" for k
    using that sent_invD(2) [OF assms, of k] by simp
  show "log_ok (k \<in> set (rc_sent ?s)) (rc_reqs ?s ! k)" if "k < length (rc_reqs ?s)" for k
    using that new sent_invD(3) [OF assms, of k]
    by (cases "k = length (rc_reqs s)") (simp_all add: nth_append log_ok_def new_creq_def)
qed (use sent_invD(1) [OF assms] in simp)

lemma put_req_sel [simp]:
  "rc_thr (put_req i r s) = rc_thr s" "rc_now (put_req i r s) = rc_now s" "rc_oc (put_req i r s) = rc_oc s" "rc_brk (put_req i r s) = rc_brk s"
  "rc_reqs (put_req i r s) = (rc_reqs s)[i := r]" "rc_sent (put_req i r s) = rc_sent s"
  "rc_objs (put_req i r s) = rc_objs s" "rc_hosts (put_req i r s) = rc_hosts s" "rc_timers (put_req i r s) = rc_timers s"
  by (simp_all add: put_req_def)

lemma cinv_quiet:
  assumes inv: "cinv cfg s" and i: "i < length (rc_reqs s)"
    and q: "advance (rc_brk s) (rc_reqs s ! i) r'" "\<And>x. log_ok x (rc_reqs s ! i) \<Longrightarrow> log_ok x r'" "keeps s s'"
  shows "cinv cfg (put_req i r' s')"
  using inv q(3) calls_inv_advance [OF _ i q(1)] sent_inv_put [of s s' i r'] q(2)
  by (simp add: cinv_def keeps_def)

lemma cinv_go:
  assumes inv: "cinv cfg s" and i: "i < length (rc_reqs s)" and st: "go_step cfg (rc_reqs s ! i) s = Some (r', s')"
  shows "cinv cfg (put_req i r' s')"
proof -
  consider (call) "cr_pos (rc_reqs s ! i) = AtCall" | (leave) "cr_pos (rc_reqs s ! i) = AtThunkEnd"
    | (quiet) "cr_pos (rc_reqs s ! i) \<noteq> AtCall" "cr_pos (rc_reqs s ! i) \<noteq> AtThunkEnd" by blast
  then show ?thesis
  proof cases
    case call
    then obtain b where b: "exec (rc_brk s) Spawn = Some b"
      "r' = (rc_reqs s ! i)\<lparr>cr_err := None, cr_call := length (pcs (rc_brk s)), cr_pos := InMaybe\<rparr>"
      "s' = s\<lparr>rc_brk := b\<rparr>" using go_step_call [OF st] by blast
    have "calls_inv b ((rc_reqs s)[i := r'])"
      using inv call by (intro calls_inv_spawn [OF _ i b(1)]) (simp_all add: cinv_def b)
    moreover have "sent_inv (put_req i r' s')"
      using inv call by (intro sent_inv_put [of s]) (simp_all add: cinv_def b log_ok_def)
    ultimately show ?thesis using inv cinv_reach [OF inv b(1)] by (simp add: cinv_def b(3))
  next
    case leave
    then obtain b where b: "exec (rc_brk s) (ThunkDone (cr_call (rc_reqs s ! i))) = Some b"
      "r' = (rc_reqs s ! i)\<lparr>cr_pos := AfterThunk\<rparr>" "s' = s\<lparr>rc_brk := b\<rparr>" using go_step_thunk_end [OF st] by blast
    have "calls_inv b ((rc_reqs s)[i := r'])"
      using inv by (intro calls_inv_thunk_end [OF _ i leave b(1)]) (simp_all add: cinv_def b(2))
    moreover have "sent_inv (put_req i r' s')"
      using inv by (intro sent_inv_put [of s]) (simp_all add: cinv_def b log_ok_def)
    ultimately show ?thesis using inv cinv_reach [OF inv b(1)] by (simp add: cinv_def b(3))
  next
    case quiet
    then show ?thesis using cinv_quiet [OF inv i] go_step_quiet [OF st] by blast
  qed
qed

lemma enable_host_sel [simp]:
  "rc_thr (enable_host k s) = rc_thr s" "rc_now (enable_host k s) = rc_now s" "rc_oc (enable_host k s) = rc_oc s" "rc_brk (enable_host k s) = rc_brk s"
  "rc_reqs (enable_host k s) = rc_reqs s" "rc_sent (enable_host k s) = rc_sent s" "rc_hosts (enable_host k s) = rc_hosts s"
  "rc_timers (enable_host k s) = rc_timers s" "length (rc_objs (enable_host k s)) = length (rc_objs s)"
  by (simp_all add: enable_host_def split: option.splits)

lemma enable_hosts_sel [simp]:
  "rc_thr (fold enable_host ks s) = rc_thr s" "rc_now (fold enable_host ks s) = rc_now s" "rc_oc (fold enable_host ks s) = rc_oc s"
  "rc_brk (fold enable_host ks s) = rc_brk s" "rc_reqs (fold enable_host ks s) = rc_reqs s"
  "rc_sent (fold enable_host ks s) = rc_sent s" "rc_hosts (fold enable_host ks s) = rc_hosts s"
  "rc_timers (fold enable_host ks s) = rc_timers s" "length (rc_objs (fold enable_host ks s)) = length (rc_objs s)"
  by (induction ks arbitrary: s) simp_all

lemma cinv_tick:
  assumes "cinv cfg s" "rc_now s \<le> t" "pass_time t s = Ret s'"
  shows "cinv cfg s'"
  using assms oc_inv_fire
  by (auto simp: pass_time_def cinv_def sent_inv_def ready_inv_expire split: go.splits)

lemma cinv_arrive: "cinv cfg s \<Longrightarrow> cinv cfg (s\<lparr>rc_reqs := rc_reqs s @ [new_creq req]\<rparr>)"
  using calls_inv_append [of "rc_brk s" "rc_reqs s" "new_creq req"] sent_inv_arrive [of s req]
  by (simp add: cinv_def new_creq_def)

lemma cinv_step:
  assumes inv: "cinv cfg s" and ex: "cexec cfg s e = Some (Ret s')"
  shows "cinv cfg s'"
proof (cases e)
  case (Arrive req)
  with ex cinv_arrive [OF inv, of req] show ?thesis by simp
next
  case (Go i)
  with ex cinv_go [OF inv] show ?thesis by (auto simp del: go_step.simps split: if_splits)
next
  case (Brk e')
  with ex obtain b where b: "exec (rc_brk s) e' = Some b" "internal_event s e'" "s' = s\<lparr>rc_brk := b\<rparr>"
    by (auto split: if_splits)
  show ?thesis
    using inv cinv_reach [OF inv b(1)] calls_inv_internal [OF _ b(1,2)] by (simp add: b(3) cinv_def sent_inv_def)
next
  case (Listed i answer)
  with ex cinv_quiet [OF inv] listed_quiet show ?thesis
    by (fastforce split: if_splits prod.splits)
next
  case (Proxied i res)
  with ex obtain r' t where p: "i < length (rc_reqs s)" "cr_pos (rc_reqs s ! i) = AtProxy"
    "proxied i res (rc_reqs s ! i) s = (r', t)" "s' = put_req i r' t"
    by (auto split: if_splits prod.splits)
  note q = proxied_quiet [OF p(3,2), of "rc_brk s"]
  show ?thesis
    using inv q sent_inv_proxied [of s i r'] calls_inv_advance [of "rc_brk s" "rc_reqs s" i r'] p
    by (simp add: cinv_def)
next
  case (RpcStart k p)
  with ex inv oc_inv_enter show ?thesis
    by (auto simp: cinv_def sent_inv_def split: if_splits prod.splits)
next
  case (RpcReturn ns svc a)
  with ex inv oc_inv_return show ?thesis by (auto simp: cinv_def sent_inv_def split: if_splits)
next
  case (Tick t)
  with ex cinv_tick [OF inv] show ?thesis by (auto split: if_splits)
qed

lemma creach_inv: "creach cfg s \<Longrightarrow> cinv cfg s"
  by (induction rule: creach.induct) (blast intro: cinv_start cinv_step)+

end
