(* ===== verification/ConcurrentCorrect.thy ===== *)
theory ConcurrentCorrect
  imports ResolverConcurrent
begin

text \<open>
  The properties of the interleaved requests of \<open>ResolverConcurrent\<close>: an invariant of the cached hosts and of
  the timers that switch traffic on, the limits on concurrent work, that a request is forwarded at most once,
  that none is stuck, that traffic comes back, and the race of \<open>DisableTrafficForHost\<close>.
\<close>

section \<open>The hosts\<close>

text \<open>
  Each cached pointer leads to an object of its host, and an object whose traffic is off has a timer, whoever
  switched it off. \<open>D\<close> is the duration of the timers.
\<close>

fun host_ok :: "Host list \<Rightarrow> creq \<Rightarrow> rpos \<Rightarrow> bool" where
  "host_ok objs r AtLoad = True"
| "host_ok objs r (AtStore h) = TrafficAllowed h"
| "host_ok objs r (Done x) = True"
| "host_ok objs r (AtDisStore p) =
     (cr_host r < length objs \<and> p < length objs \<and> IncomingHost (objs ! p) = IncomingHost (objs ! cr_host r))"
| "host_ok objs r _ = (cr_host r < length objs)"

definition pointers_ok :: "int \<Rightarrow> cresolver \<Rightarrow> bool" where
  "pointers_ok D s =
     (\<forall>k p. rc_hosts s k = Some p \<longrightarrow> p < length (rc_objs s) \<and> IncomingHost (rc_objs s ! p) = k \<and>
        (\<not> TrafficAllowed (rc_objs s ! p) \<longrightarrow> (\<exists>due \<le> rc_now s + D. (due, k) \<in> set (rc_timers s))))"

definition hosts_inv :: "int \<Rightarrow> cresolver \<Rightarrow> bool" where
  "hosts_inv D s = (pointers_ok D s \<and> (\<forall>r \<in> set (rc_reqs s). host_ok (rc_objs s) r (cr_pos r)))"

definition grows :: "Host list \<Rightarrow> Host list \<Rightarrow> bool" where
  "grows os os' = (length os \<le> length os' \<and> (\<forall>p < length os. IncomingHost (os' ! p) = IncomingHost (os ! p)))"

lemma grows_refl [simp]: "grows os os"
  by (simp add: grows_def)

lemma host_ok_grows: "host_ok os r q \<Longrightarrow> grows os os' \<Longrightarrow> host_ok os' r q"
  by (cases q) (auto simp: grows_def)

lemma pointers_okD:
  assumes "pointers_ok D s" "rc_hosts s k = Some p"
  shows "p < length (rc_objs s)" "IncomingHost (rc_objs s ! p) = k"
    "\<not> TrafficAllowed (rc_objs s ! p) \<Longrightarrow> \<exists>due \<le> rc_now s + D. (due, k) \<in> set (rc_timers s)"
  using assms unfolding pointers_ok_def by blast+

lemma pointers_ok_frame:
  assumes "pointers_ok D s" "rc_objs s' = rc_objs s" "rc_hosts s' = rc_hosts s" "rc_timers s' = rc_timers s"
    "rc_now s' = rc_now s"
  shows "pointers_ok D s'"
  using assms by (simp add: pointers_ok_def)

lemma pointers_ok_new:
  assumes inv: "pointers_ok D s" and h: "TrafficAllowed h"
  shows "pointers_ok D (s\<lparr>rc_objs := rc_objs s @ [h], rc_hosts := (rc_hosts s)(IncomingHost h \<mapsto> length (rc_objs s))\<rparr>)"
  unfolding pointers_ok_def
proof (intro allI impI)
  let ?s = "s\<lparr>rc_objs := rc_objs s @ [h], rc_hosts := (rc_hosts s)(IncomingHost h \<mapsto> length (rc_objs s))\<rparr>"
  fix k p assume kp: "rc_hosts ?s k = Some p"
  show "p < length (rc_objs ?s) \<and> IncomingHost (rc_objs ?s ! p) = k \<and>
        (\<not> TrafficAllowed (rc_objs ?s ! p) \<longrightarrow> (\<exists>due \<le> rc_now ?s + D. (due, k) \<in> set (rc_timers ?s)))"
  proof (cases "k = IncomingHost h")
    case True
    with kp h show ?thesis by auto
  next
    case False
    with kp have "rc_hosts s k = Some p" by simp
    from pointers_okD [OF inv this] show ?thesis by (simp add: nth_append)
  qed
qed

lemma pointers_ok_disable:
  assumes inv: "pointers_ok D s" and p: "p < length (rc_objs s)" "IncomingHost (rc_objs s ! p) = k0"
  shows "pointers_ok D (s\<lparr>rc_objs := (rc_objs s)[p := (rc_objs s ! p)\<lparr>TrafficAllowed := False\<rparr>],
    rc_hosts := (rc_hosts s)(k0 \<mapsto> p), rc_timers := rc_timers s @ [(rc_now s + D, k0)]\<rparr>)"
  unfolding pointers_ok_def
proof (intro allI impI)
  let ?s = "s\<lparr>rc_objs := (rc_objs s)[p := (rc_objs s ! p)\<lparr>TrafficAllowed := False\<rparr>],
    rc_hosts := (rc_hosts s)(k0 \<mapsto> p), rc_timers := rc_timers s @ [(rc_now s + D, k0)]\<rparr>"
  fix k q assume kq: "rc_hosts ?s k = Some q"
  show "q < length (rc_objs ?s) \<and> IncomingHost (rc_objs ?s ! q) = k \<and>
        (\<not> TrafficAllowed (rc_objs ?s ! q) \<longrightarrow> (\<exists>due \<le> rc_now ?s + D. (due, k) \<in> set (rc_timers ?s)))"
  proof (cases "k = k0")
    case True
    with kq p show ?thesis by auto
  next
    case False
    with kq have "rc_hosts s k = Some q" by simp
    with pointers_okD [OF inv this] False p show ?thesis by (cases "q = p") auto
  qed
qed

lemma newHost_allowed: "TrafficAllowed (newHost i s n)"
  by (simp add: newHost_def Let_def)

text \<open>Steps that leave the hosts alone.\<close>

definition same_hosts :: "cresolver \<Rightarrow> cresolver \<Rightarrow> bool" where
  "same_hosts s s' =
     (rc_objs s' = rc_objs s \<and> rc_hosts s' = rc_hosts s \<and> rc_timers s' = rc_timers s \<and> rc_now s' = rc_now s \<and>
      rc_reqs s' = rc_reqs s)"

lemma queue_step_hosts:
  assumes "queue_step r s (cr_pos r) = Some (r', s')"
  shows "(host_ok os r (cr_pos r) \<longrightarrow> host_ok os r' (cr_pos r')) \<and> same_hosts s s'"
  using assms by (cases "cr_pos r") (auto simp: same_hosts_def)

lemma maybe_step_hosts:
  assumes "maybe_step r s (cr_pos r) = Some (r', s')"
  shows "(host_ok os r (cr_pos r) \<longrightarrow> host_ok os r' (cr_pos r')) \<and> same_hosts s s'"
  using assms
  by (cases "cr_pos r")
    (auto simp: same_hosts_def simp del: exec.simps split: if_splits option.splits pc.splits)

lemma thunk_step_hosts:
  assumes "thunk_step cfg r s (cr_pos r) = Some (r', s')" "cr_pos r \<noteq> AtDisLoad" "\<And>p. cr_pos r \<noteq> AtDisStore p"
  shows "(host_ok os r (cr_pos r) \<longrightarrow> host_ok os r' (cr_pos r')) \<and> same_hosts s s'"
  using assms by (cases "cr_pos r") (auto simp: same_hosts_def Let_def split: if_splits option.splits)

lemma go_step_same:
  assumes "go_step cfg r s = Some (r', s')" "host_step cfg r s (cr_pos r) = None" "cr_pos r \<noteq> AtDisLoad"
    "\<And>p. cr_pos r \<noteq> AtDisStore p"
  shows "(host_ok os r (cr_pos r) \<longrightarrow> host_ok os r' (cr_pos r')) \<and> same_hosts s s'"
  using assms queue_step_hosts [of r s r' s' os] thunk_step_hosts [of cfg r s r' s' os] maybe_step_hosts [of r s r' s' os]
  by (auto split: option.splits)

lemma go_step_hosts:
  assumes st: "go_step cfg r s = Some (r', s')" and r: "host_ok (rc_objs s) r (cr_pos r)"
    and inv: "pointers_ok (seconds (cfg_TrafficReEnableDuration cfg)) s"
  shows "host_ok (rc_objs s') r' (cr_pos r') \<and> grows (rc_objs s) (rc_objs s') \<and> rc_reqs s' = rc_reqs s \<and>
    pointers_ok (seconds (cfg_TrafficReEnableDuration cfg)) s'"
proof -
  let ?D = "seconds (cfg_TrafficReEnableDuration cfg)"
  have same: ?thesis if "host_step cfg r s (cr_pos r) = None" "cr_pos r \<noteq> AtDisLoad" "\<And>p. cr_pos r \<noteq> AtDisStore p"
    using go_step_same [OF st that, of "rc_objs s"] r inv pointers_ok_frame [of ?D s s'] by (simp add: same_hosts_def)
  show ?thesis
  proof (cases "cr_pos r")
    case AtLoad
    with st inv pointers_okD(1) [OF inv] show ?thesis
      by (simp add: newHost_allowed split: go.splits option.splits prod.splits) (auto simp: newHost_allowed)
  next
    case (AtStore h)
    with st r pointers_ok_new [OF inv, of h] show ?thesis by (auto simp: Let_def grows_def nth_append)
  next
    case AtCheck
    with st r inv pointers_ok_frame [of ?D s s'] show ?thesis by (auto split: if_splits)
  next
    case (AtDisStore p)
    with st r pointers_ok_disable [OF inv] show ?thesis
      by (auto simp: Let_def grows_def nth_list_update host_of_def)
  next
    case AtDisLoad
    with st r inv pointers_okD(1,2) [OF inv, of "IncomingHost (rc_objs s ! cr_host r)"] show ?thesis
      by (auto simp: host_of_def split: option.splits if_splits)
  qed (rule same; simp)+
qed

lemma hosts_inv_put:
  assumes inv: "hosts_inv D s" and i: "i < length (rc_reqs s)"
    and st: "host_ok (rc_objs s') r' (cr_pos r')" "grows (rc_objs s) (rc_objs s')" "rc_reqs s' = rc_reqs s" "pointers_ok D s'"
  shows "hosts_inv D (put_req i r' s')"
proof -
  have "host_ok (rc_objs s') r (cr_pos r)" if "r \<in> set ((rc_reqs s)[i := r'])" for r
    using that set_update_subset_insert [of "rc_reqs s" i r'] inv st(1) host_ok_grows [OF _ st(2)]
    by (auto simp: hosts_inv_def)
  then show ?thesis using st by (simp add: hosts_inv_def pointers_ok_frame [OF st(4)])
qed

lemma enable_host_nth:
  assumes "p < length (rc_objs s)"
  shows "rc_objs (enable_host k s) ! p = (if rc_hosts s k = Some p then (rc_objs s ! p)\<lparr>TrafficAllowed := True\<rparr> else rc_objs s ! p)"
proof (cases "rc_hosts s k")
  case (Some q)
  with assms show ?thesis by (cases "q = p") (simp_all add: enable_host_def)
qed (simp add: enable_host_def)

lemma enable_hosts:
  assumes "p < length (rc_objs s)"
  shows "IncomingHost (rc_objs (fold enable_host ks s) ! p) = IncomingHost (rc_objs s ! p) \<and>
    (TrafficAllowed (rc_objs s ! p) \<or> (\<exists>k \<in> set ks. rc_hosts s k = Some p) \<longrightarrow>
     TrafficAllowed (rc_objs (fold enable_host ks s) ! p))"
  using assms
proof (induction ks arbitrary: s)
  case Nil
  then show ?case by simp
next
  case (Cons k ks)
  have "IncomingHost (rc_objs (enable_host k s) ! p) = IncomingHost (rc_objs s ! p)"
    "TrafficAllowed (rc_objs s ! p) \<or> rc_hosts s k = Some p \<Longrightarrow> TrafficAllowed (rc_objs (enable_host k s) ! p)"
    using enable_host_nth [OF Cons.prems, of k] by auto
  then show ?case using Cons.IH [of "enable_host k s"] Cons.prems by auto
qed

text \<open>The timers that are due switch their hosts on again.\<close>

lemma pass_time_hosts:
  assumes "pass_time t s = Ret s'"
  shows "rc_hosts s' = rc_hosts s" "rc_timers s' = filter (\<lambda>(due, k). \<not> due \<le> t) (rc_timers s)" "rc_now s' = t"
    "grows (rc_objs s) (rc_objs s')" "rc_reqs s' = rc_reqs s"
    "\<And>k p. rc_hosts s k = Some p \<Longrightarrow> p < length (rc_objs s) \<Longrightarrow> \<not> TrafficAllowed (rc_objs s' ! p) \<Longrightarrow>
       \<not> TrafficAllowed (rc_objs s ! p) \<and> (\<forall>due. (due, k) \<in> set (rc_timers s) \<longrightarrow> t < due)"
proof -
  let ?ks = "map snd (filter (\<lambda>(due, k). due \<le> t) (rc_timers s))"
  from assms obtain u where u: "s' = fold enable_host ?ks u" "rc_objs u = rc_objs s" "rc_hosts u = rc_hosts s"
    "rc_timers u = filter (\<lambda>(due, k). \<not> due \<le> t) (rc_timers s)" "rc_now u = t" "rc_reqs u = rc_reqs s"
    unfolding pass_time_def by (auto split: go.splits)
  note E = enable_hosts [of _ u ?ks, unfolded u(2,3), folded u(1)]
  show "rc_hosts s' = rc_hosts s" "rc_timers s' = filter (\<lambda>(due, k). \<not> due \<le> t) (rc_timers s)" "rc_now s' = t"
    "rc_reqs s' = rc_reqs s" using u by simp_all
  show "grows (rc_objs s) (rc_objs s')" using E u by (simp add: grows_def)
  fix k p assume k: "rc_hosts s k = Some p" "p < length (rc_objs s)" "\<not> TrafficAllowed (rc_objs s' ! p)"
  have "k \<notin> set ?ks" using E [OF k(2)] k(1,3) by blast
  then have "t < due" if "(due, k) \<in> set (rc_timers s)" for due using that by force
  with E [OF k(2)] k(3) show "\<not> TrafficAllowed (rc_objs s ! p) \<and> (\<forall>due. (due, k) \<in> set (rc_timers s) \<longrightarrow> t < due)"
    by blast
qed

lemma pointers_ok_tick:
  assumes inv: "pointers_ok D s" and t: "rc_now s \<le> t" and s': "pass_time t s = Ret s'"
  shows "pointers_ok D s'"
  unfolding pointers_ok_def
proof (intro allI impI)
  note T = pass_time_hosts [OF s']
  fix k p assume "rc_hosts s' k = Some p"
  then have kp: "rc_hosts s k = Some p" by (simp add: T(1))
  note P = pointers_okD [OF inv kp]
  have "\<exists>due \<le> rc_now s' + D. (due, k) \<in> set (rc_timers s')" if "\<not> TrafficAllowed (rc_objs s' ! p)"
  proof -
    note off = that
    obtain due where due: "due \<le> rc_now s + D" "(due, k) \<in> set (rc_timers s)" "t < due"
      using T(6) [OF kp P(1) off] P(3) by blast
    then show ?thesis using t T(2,3) by (intro exI [of _ due]) auto
  qed
  then show "p < length (rc_objs s') \<and> IncomingHost (rc_objs s' ! p) = k \<and>
      (\<not> TrafficAllowed (rc_objs s' ! p) \<longrightarrow> (\<exists>due \<le> rc_now s' + D. (due, k) \<in> set (rc_timers s')))"
    using T(4) P by (auto simp: grows_def)
qed

lemma hosts_inv_frame:
  assumes "hosts_inv D s" "rc_objs s' = rc_objs s" "rc_hosts s' = rc_hosts s" "rc_timers s' = rc_timers s"
    "rc_now s' = rc_now s" "rc_reqs s' = rc_reqs s"
  shows "hosts_inv D s'"
  using assms pointers_ok_frame [of D s s'] by (simp add: hosts_inv_def)

lemma listed_hosts:
  assumes "listed answer r s = (r', s')" "cr_pos r = AtList"
  shows "cr_host r' = cr_host r \<and> cr_pos r' \<in> {AtSelect, AtCache} \<and> rc_objs s' = rc_objs s \<and> rc_hosts s' = rc_hosts s \<and>
    rc_timers s' = rc_timers s \<and> rc_now s' = rc_now s \<and> rc_reqs s' = rc_reqs s"
  using assms by (auto simp: listed_def Let_def split: sum.splits if_splits)

lemma hosts_inv_answer:
  assumes inv: "hosts_inv D s" and i: "i < length (rc_reqs s)" and pos: "host_ok (rc_objs s) (rc_reqs s ! i) (cr_pos (rc_reqs s ! i)) \<Longrightarrow>
      host_ok (rc_objs s) r' (cr_pos r')"
    and eqs: "rc_objs s' = rc_objs s" "rc_hosts s' = rc_hosts s" "rc_timers s' = rc_timers s" "rc_now s' = rc_now s"
      "rc_reqs s' = rc_reqs s"
  shows "hosts_inv D (put_req i r' s')"
  using inv i pos by (intro hosts_inv_put [OF inv i]) (auto simp: eqs hosts_inv_def intro: pointers_ok_frame [OF _ eqs(1-4)])

lemma hosts_inv_step:
  assumes inv: "hosts_inv (seconds (cfg_TrafficReEnableDuration cfg)) s" and ex: "cexec cfg s e = Some (Ret s')"
  shows "hosts_inv (seconds (cfg_TrafficReEnableDuration cfg)) s'"
proof (cases e)
  case (Arrive req)
  with ex inv show ?thesis
    by (auto simp: hosts_inv_def new_creq_def intro: pointers_ok_frame)
next
  case (Go i)
  then obtain r' t where g: "i < length (rc_reqs s)" "go_step cfg (rc_reqs s ! i) s = Some (r', t)" "s' = put_req i r' t"
    using ex by (auto simp del: go_step.simps split: if_splits)
  show ?thesis
    unfolding g(3) by (intro hosts_inv_put [OF inv g(1)]) (use go_step_hosts [OF g(2)] inv g(1) in \<open>simp_all add: hosts_inv_def\<close>)
next
  case (Brk e')
  with ex show ?thesis by (auto split: if_splits intro: hosts_inv_frame [OF inv])
next
  case (Listed i answer)
  then obtain r' t where g: "i < length (rc_reqs s)" "cr_pos (rc_reqs s ! i) = AtList" "listed answer (rc_reqs s ! i) s = (r', t)"
    "s' = put_req i r' t" using ex by (auto split: if_splits prod.splits)
  show ?thesis
    unfolding g(4) by (intro hosts_inv_answer [OF inv g(1)]) (use listed_hosts [OF g(3,2)] g(2) in auto)
next
  case (Proxied i res)
  with ex show ?thesis
    by (auto simp: proxied_def split: if_splits intro!: hosts_inv_answer [OF inv])
next
  case (RpcStart k p)
  with ex show ?thesis by (auto split: if_splits prod.splits intro: hosts_inv_frame [OF inv])
next
  case (RpcReturn ns svc a)
  with ex show ?thesis by (auto split: if_splits intro: hosts_inv_frame [OF inv])
next
  case (Tick t)
  with ex have t: "rc_now s \<le> t" "pass_time t s = Ret s'" by (auto split: if_splits)
  have "pointers_ok (seconds (cfg_TrafficReEnableDuration cfg)) s'"
    using inv by (intro pointers_ok_tick [OF _ t]) (simp add: hosts_inv_def)
  with inv pass_time_hosts(4,5) [OF t(2)] show ?thesis by (auto simp: hosts_inv_def intro: host_ok_grows)
qed

lemma creach_hosts: "creach cfg s \<Longrightarrow> hosts_inv (seconds (cfg_TrafficReEnableDuration cfg)) s"
proof (induction rule: creach.induct)
  case (start h t)
  show ?case by (simp add: hosts_inv_def pointers_ok_def rc_start_def)
next
  case (step s e s')
  from hosts_inv_step [OF step.IH step.hyps(2)] show ?case .
qed
section \<open>Permits\<close>

text \<open>Requests in their thunks have different calls, each with a permit.\<close>

lemma thunks_le_permits:
  assumes inv: "calls_inv b rs"
  shows "length (filter (\<lambda>r. thunk_pos (cr_pos r)) rs) \<le> num in_thunk b"
proof -
  let ?I = "{i. i < length rs \<and> thunk_pos (cr_pos (rs ! i))}"
  let ?J = "{j. j < length (pcs b) \<and> in_thunk (pcs b ! j)}"
  have "inj_on (\<lambda>i. cr_call (rs ! i)) ?I"
  proof (rule inj_onI)
    fix i k assume ik: "i \<in> ?I" "k \<in> ?I" "cr_call (rs ! i) = cr_call (rs ! k)"
    then have "owner (cr_call (rs ! i)) (rs ! i)" "owner (cr_call (rs ! i)) (rs ! k)" by (auto simp: owner_def)
    with calls_invD(2) [OF inv] ik show "i = k" by blast
  qed
  moreover have "(\<lambda>i. cr_call (rs ! i)) ` ?I \<subseteq> ?J"
    using calls_invD(1) [OF inv] by (auto simp: call_ok_def agrees_def in_thunk_def)
  ultimately have "card ?I \<le> card ?J" by (rule card_inj_on_le) simp
  then show ?thesis by (simp add: num_def length_filter_conv_card)
qed

lemma cexec_no_panic:
  assumes "cinv cfg s"
  shows "cexec cfg s e \<noteq> Some (Panic m)"
proof -
  have "fire_releases t (rc_oc s) \<noteq> Panic m" for t
    using assms fire_releases_eq by (fastforce simp: cinv_def)
  then show ?thesis
    by (cases e) (auto simp: pass_time_def simp del: go_step.simps split: if_splits prod.splits go.splits)
qed

section \<open>No request is stuck\<close>

fun awaits :: "rpos \<Rightarrow> bool" where
  "awaits (Sleeping until) = True"
| "awaits p = (p = AtList \<or> p = AtProxy)"

definition call_events :: "nat \<Rightarrow> Breaker.event set" where
  "call_events c = {Step c, Recv c, Buffer c, Drop c} \<union> range (Handoff c)"

text \<open>A request moves when it waits for an answer or sleeps, has a next step, or its call of \<open>Maybe\<close> has one.\<close>

definition moves :: "config \<Rightarrow> cresolver \<Rightarrow> nat \<Rightarrow> bool" where
  "moves cfg s i =
     (awaits (cr_pos (rc_reqs s ! i)) \<or> (\<exists>s'. cexec cfg s (Go i) = Some (Ret s')) \<or>
      (in_call (cr_pos (rc_reqs s ! i)) \<and>
       (\<exists>e \<in> call_events (cr_call (rc_reqs s ! i)). \<exists>s'. cexec cfg s (Brk e) = Some (Ret s'))))"

lemma moves_go:
  "i < length (rc_reqs s) \<Longrightarrow> go_step cfg (rc_reqs s ! i) s \<noteq> None \<Longrightarrow> moves cfg s i"
  by (auto simp: moves_def simp del: go_step.simps)

lemma go_step_None:
  "go_step cfg r s = None \<longleftrightarrow> host_step cfg r s (cr_pos r) = None \<and> queue_step r s (cr_pos r) = None \<and>
     maybe_step r s (cr_pos r) = None \<and> thunk_step cfg r s (cr_pos r) = None"
  by (simp split: option.splits)

lemma moves_call:
  assumes "in_call (cr_pos (rc_reqs s ! i))" "e \<in> call_events (cr_call (rc_reqs s ! i))" "exec (rc_brk s) e = Some b"
  shows "moves cfg s i"
proof -
  have "internal_event s e" using assms(2) by (auto simp: call_events_def)
  with assms show ?thesis by (auto simp: moves_def)
qed

lemma moves_outside:
  assumes "i < length (rc_reqs s)" "\<not> in_call (cr_pos (rc_reqs s ! i))" "\<And>x. cr_pos (rc_reqs s ! i) \<noteq> Done x"
  shows "moves cfg s i"
proof (rule moves_go [OF assms(1)])
  let ?r = "rc_reqs s ! i"
  have load: "host_step cfg ?r s AtLoad \<noteq> None" by (simp only: host_step.simps option.distinct not_False_eq_True)
  show "go_step cfg ?r s \<noteq> None"
    unfolding go_step_None
  proof (cases "cr_pos ?r")
    case (Done x)
    with assms(3) show "\<not> (host_step cfg ?r s (cr_pos ?r) = None \<and> queue_step ?r s (cr_pos ?r) = None \<and>
        maybe_step ?r s (cr_pos ?r) = None \<and> thunk_step cfg ?r s (cr_pos ?r) = None)" by blast
  qed (use load assms(2) in \<open>simp_all add: in_call_def Let_def del: host_step.simps(1)\<close>)
qed

lemma moves_thunk:
  assumes "i < length (rc_reqs s)" "thunk_pos (cr_pos (rc_reqs s ! i))" "call_ok (rc_brk s) (rc_reqs s ! i)"
  shows "moves cfg s i"
proof (cases "awaits (cr_pos (rc_reqs s ! i))")
  case True
  then show ?thesis by (simp add: moves_def)
next
  case False
  with assms show ?thesis
    by (intro moves_go) (cases "cr_pos (rc_reqs s ! i)"; simp add: go_step_None Let_def call_ok_def agrees_def at_pc_def del: go_step.simps)+
qed

text \<open>A call that is neither waiting nor finished takes its next step.\<close>

lemma call_steps:
  assumes "c < length (pcs b)" "pc_ok T (pcs b ! c)" "\<not> waiting (pcs b ! c)" "\<not> returned (pcs b ! c)" "pcs b ! c \<noteq> Sem AcqOk"
  shows "\<exists>e \<in> call_events c. \<exists>t. exec b e = Some t"
proof (cases "pcs b ! c = Sem RelSend")
  case True
  with active_enabled [OF assms(1)] obtain e t where e: "e \<in> own_events c" "exec b e = Some t" by auto
  then have "e \<in> call_events c" using assms(1) True by (auto simp: own_events_def call_events_def at_pc_def)
  with e show ?thesis by blast
next
  case False
  with assms have "Maybe_step (pcs b ! c) (brk b) \<noteq> None"
    by (cases "(pcs b ! c, brk b)" rule: Maybe_step.cases) (auto simp: lift_sem_def Let_def split: prod.splits)
  then have "\<exists>t. exec b (Step c) = Some t" using assms(1) by (auto split: option.splits)
  then show ?thesis by (auto simp: call_events_def)
qed

lemma moves_not_waiting:
  assumes i: "i < length (rc_reqs s)" "in_call (cr_pos (rc_reqs s ! i))" and ok: "call_ok (rc_brk s) (rc_reqs s ! i)"
    and c: "pc_ok T (pcs (rc_brk s) ! cr_call (rc_reqs s ! i))" "\<not> waiting (pcs (rc_brk s) ! cr_call (rc_reqs s ! i))"
  shows "moves cfg s i"
proof -
  let ?r = "rc_reqs s ! i" and ?b = "rc_brk s"
  let ?p = "pcs ?b ! cr_call ?r"
  have len: "cr_call ?r < length (pcs ?b)" and ag: "agrees (cr_pos ?r) ?p" using ok i(2) by (simp_all add: call_ok_def)
  have late: "?p \<noteq> Sem AcqOk" if "cr_pos ?r = AfterThunk"
  proof
    assume "?p = Sem AcqOk"
    with ag that show False by (simp add: agrees_def)
  qed
  consider (thunk) "thunk_pos (cr_pos ?r)" | (step) "\<not> returned ?p" "?p \<noteq> Sem AcqOk"
    | (enter) "cr_pos ?r = InMaybe" "?p = Sem AcqOk \<or> returned ?p" | (leave) "cr_pos ?r = AfterThunk" "returned ?p"
    using i(2) late by (auto simp: in_call_def)
  then show ?thesis
  proof cases
    case thunk
    then show ?thesis using moves_thunk [OF i(1) _ ok] by blast
  next
    case step
    then show ?thesis using call_steps [OF len c] moves_call [OF i(2)] by blast
  next
    case enter
    with ag len show ?thesis
      by (intro moves_go [OF i(1)]) (auto simp: agrees_def at_pc_def elim!: returned.elims)
  next
    case leave
    with ag len show ?thesis
      by (intro moves_go [OF i(1)]) (auto simp: agrees_def at_pc_def elim!: returned.elims)
  qed
qed

section \<open>A race of two requests\<close>

lemma creach_run: "crun cfg s es = Some s' \<Longrightarrow> creach cfg s \<Longrightarrow> creach cfg s'"
  by (induction es arbitrary: s) (auto split: option.splits go.splits intro: creach.step)

lemma crun_steps:
  "crun cfg s (map (\<lambda>j. Brk (Step j)) js) = map_option (\<lambda>b. s\<lparr>rc_brk := b\<rparr>) (run (rc_brk s) (map Step js))"
proof (induction js arbitrary: s)
  case Nil
  then show ?case by simp
next
  case (Cons j js)
  then show ?case by (cases "exec (rc_brk s) (Step j)") (simp_all del: exec.simps)
qed

text \<open>A breaker with \<open>n\<close> calls inside, all with a permit.\<close>

definition has_room :: "config \<Rightarrow> nat \<Rightarrow> cresolver \<Rightarrow> bool" where
  "has_room cfg n s =
     (core_inv (nat (cfg_InitialCapacity cfg)) (cfg_QueueSize cfg + MaxQueueConcurrency cfg) (brk (rc_brk s)) n n \<and>
      inFlight (brk (rc_brk s)) = int n)"

text \<open>A request for a cached host whose traffic is on gets to its call of the breaker.\<close>

lemma reach_call:
  assumes s: "creach cfg s" and k: "rc_hosts s ''web.shop'' = Some p" "TrafficAllowed (rc_objs s ! p)"
  shows "\<exists>s' r. creach cfg s' \<and> same_hosts s (s'\<lparr>rc_reqs := rc_reqs s\<rparr>) \<and> rc_brk s' = rc_brk s \<and>
    rc_reqs s' = rc_reqs s @ [r] \<and> cr_pos r = AtCall \<and> cr_host r = p"
proof -
  let ?i = "length (rc_reqs s)"
  let ?es = "[Arrive (get_request ''web.shop''), Go ?i, Go ?i, Go ?i, Go ?i]"
  have "incomingHost_of (NewHostManager 0 (HeaderForHost cfg)) (get_request ''web.shop'') = Ret ''web.shop''"
    by (simp add: incomingHost_of_def get_request_def)
  with k have "\<exists>s' r. crun cfg s ?es = Some s' \<and> same_hosts s (s'\<lparr>rc_reqs := rc_reqs s\<rparr>) \<and> rc_brk s' = rc_brk s \<and>
      rc_reqs s' = rc_reqs s @ [r] \<and> cr_pos r = AtCall \<and> cr_host r = p"
    by (simp add: new_creq_def put_req_def host_of_def same_hosts_def)
  then show ?thesis using creach_run [OF _ s] by blast
qed

text \<open>Its call gets a permit while there is room.\<close>

lemma reach_thunk:
  assumes s: "creach cfg s" "rc_reqs s = rs @ [r]" "cr_pos r = AtCall" and P: "params_ok (P_Breaker (throttler_Params cfg))"
    and room: "has_room cfg n s" "int n < cfg_InitialCapacity cfg" "int n < cfg_QueueSize cfg + MaxQueueConcurrency cfg"
  shows "\<exists>s' r'. creach cfg s' \<and> same_hosts s (s'\<lparr>rc_reqs := rc_reqs s\<rparr>) \<and> has_room cfg (Suc n) s' \<and>
    rc_reqs s' = rs @ [r'] \<and> cr_pos r' = AtReady \<and> cr_host r' = cr_host r"
proof -
  let ?i = "length rs" and ?c = "length (pcs (rc_brk s))" and ?b = "rc_brk s"
  let ?T = "cfg_QueueSize cfg + MaxQueueConcurrency cfg" and ?C = "nat (cfg_InitialCapacity cfg)"
  let ?r = "r\<lparr>cr_err := None, cr_call := ?c, cr_pos := InMaybe\<rparr>"
  have core: "core_inv ?C ?T (brk ?b) n n" using room(1) by (simp add: has_room_def)
  have lt: "n < ?C" "inFlight (brk ?b) < ?T" "?T < 2 ^ 63" "0 \<le> inFlight (brk ?b)"
    using P room by (simp_all add: params_ok_def throttler_Params_def has_room_def)
  obtain t where t: "run ?b (Spawn # map Step [?c, ?c, ?c, ?c]) = Some t" "pcs t = pcs ?b @ [Sem AcqOk]"
    "core_inv ?C ?T (brk t) (Suc n) (Suc n)" "inFlight (brk t) = inFlight (brk ?b) + 1"
    using enter_one [OF core lt] by auto
  obtain b1 where b1: "exec ?b Spawn = Some b1" "run b1 (map Step [?c, ?c, ?c, ?c]) = Some t"
    using t(1) by (auto simp del: exec.simps split: option.splits)
  define s1 where "s1 = s\<lparr>rc_brk := b1, rc_reqs := rs @ [?r]\<rparr>"
  define s2 where "s2 = s1\<lparr>rc_brk := t\<rparr>"
  have "cexec cfg s (Go ?i) = Some (Ret s1)"
    using s(2,3) b1(1) by (simp add: put_req_def s1_def del: exec.simps)
  then have "creach cfg s1" using s(1) by (blast intro: creach.step)
  moreover have "crun cfg s1 (map (\<lambda>j. Brk (Step j)) [?c, ?c, ?c, ?c]) = Some s2"
    unfolding crun_steps using b1(2) by (simp add: s1_def s2_def)
  ultimately have "creach cfg s2" using creach_run by blast
  moreover have "cexec cfg s2 (Go ?i) = Some (Ret (put_req ?i (?r\<lparr>cr_pos := AtReady\<rparr>) s2))"
    using t(2) by (simp add: s1_def s2_def at_pc_def)
  ultimately have "creach cfg (put_req ?i (?r\<lparr>cr_pos := AtReady\<rparr>) s2)" by (blast intro: creach.step)
  then show ?thesis
    using t(3,4) room(1) s(2)
    by (intro exI conjI) (assumption | simp add: s1_def s2_def put_req_def same_hosts_def has_room_def)+
qed


text \<open>The service is ready, and the proxy has answered.\<close>

lemma reach_switch:
  assumes s: "creach cfg s" "rc_reqs s = rs @ [r]" "cr_pos r = AtReady"
  shows "\<exists>s' r'. creach cfg s' \<and> same_hosts s (s'\<lparr>rc_reqs := rc_reqs s\<rparr>) \<and> rc_brk s' = rc_brk s \<and>
    rc_reqs s' = rs @ [r'] \<and> cr_pos r' = AtDisLoad \<and> cr_host r' = cr_host r"
proof -
  let ?i = "length rs" and ?key = "svc_key (Namespace (host_of s r)) (TargetService (host_of s r))"
  let ?ready = "Inr [[\<lparr>Ready = Some True\<rparr>]]"
  have ready: "ready_inv (rc_thr s)" using creach_inv [OF s(1)] by (simp add: cinv_def)
  let ?es = "if serviceReadyMap (rc_thr s) ?key = None then [Go ?i, Listed ?i ?ready, Go ?i, Proxied ?i None]
    else [Go ?i, Proxied ?i None]"
  have "\<exists>s' r'. crun cfg s ?es = Some s' \<and> same_hosts s (s'\<lparr>rc_reqs := rc_reqs s\<rparr>) \<and> rc_brk s' = rc_brk s \<and>
      rc_reqs s' = rs @ [r'] \<and> cr_pos r' = AtDisLoad \<and> cr_host r' = cr_host r"
  proof (cases "serviceReadyMap (rc_thr s) ?key")
    case None
    with s(2,3) show ?thesis
      by (simp add: put_req_def same_hosts_def listed_def proxied_def CheckIfServiceEndpointSliceActive_def Let_def
          host_of_def)
  next
    case (Some x)
    with ready_invD [OF ready] have "serviceReadyMap (rc_thr s) ?key = Some True" by auto
    with s(2,3) show ?thesis by (simp add: put_req_def same_hosts_def proxied_def)
  qed
  then show ?thesis using creach_run [OF _ s(1)] by blast
qed

lemma to_switch:
  assumes s: "creach cfg s" and k: "rc_hosts s ''web.shop'' = Some p" "TrafficAllowed (rc_objs s ! p)"
    and P: "params_ok (P_Breaker (throttler_Params cfg))"
    and room: "has_room cfg n s" "int n < cfg_InitialCapacity cfg" "int n < cfg_QueueSize cfg + MaxQueueConcurrency cfg"
  shows "\<exists>s' r. creach cfg s' \<and> same_hosts s (s'\<lparr>rc_reqs := rc_reqs s\<rparr>) \<and> has_room cfg (Suc n) s' \<and>
    rc_reqs s' = rc_reqs s @ [r] \<and> cr_pos r = AtDisLoad \<and> cr_host r = p"
proof -
  obtain s1 r1 where 1: "creach cfg s1" "same_hosts s (s1\<lparr>rc_reqs := rc_reqs s\<rparr>)" "rc_brk s1 = rc_brk s"
    "rc_reqs s1 = rc_reqs s @ [r1]" "cr_pos r1 = AtCall" "cr_host r1 = p" using reach_call [OF s k] by blast
  have "has_room cfg n s1" using room(1) 1(3) by (simp add: has_room_def)
  from reach_thunk [OF 1(1,4,5) P this room(2,3)] obtain s2 r2 where 2: "creach cfg s2"
    "same_hosts s1 (s2\<lparr>rc_reqs := rc_reqs s1\<rparr>)" "has_room cfg (Suc n) s2" "rc_reqs s2 = rc_reqs s @ [r2]" "cr_pos r2 = AtReady"
    "cr_host r2 = cr_host r1" by blast
  from reach_switch [OF 2(1,4,5)] obtain s3 r3 where 3: "creach cfg s3" "same_hosts s2 (s3\<lparr>rc_reqs := rc_reqs s2\<rparr>)"
    "rc_brk s3 = rc_brk s2" "rc_reqs s3 = rc_reqs s @ [r3]" "cr_pos r3 = AtDisLoad" "cr_host r3 = cr_host r2" by blast
  have "same_hosts s (s3\<lparr>rc_reqs := rc_reqs s\<rparr>)" "has_room cfg (Suc n) s3"
    using 1(2) 2(2,3) 3(2,3) by (simp_all add: same_hosts_def has_room_def)
  moreover have "cr_host r3 = p" by (simp add: 3(6) 2(6) 1(6))
  ultimately show ?thesis using 3 by blast
qed


text \<open>A resolver that knows one host: the time, whether its traffic is on, and when its timers are due.\<close>

definition one_host :: "cresolver \<Rightarrow> int \<Rightarrow> bool \<Rightarrow> int list \<Rightarrow> bool" where
  "one_host s now on dues =
     (rc_now s = now \<and> rc_hosts s = [''web.shop'' \<mapsto> 0] \<and>
      rc_objs s = [(newHost ''web.shop'' ''web'' ''shop'')\<lparr>TrafficAllowed := on\<rparr>] \<and>
      rc_timers s = map (\<lambda>d. (d, ''web.shop'')) dues)"

lemma one_host_start:
  assumes P: "params_ok (P_Breaker (throttler_Params cfg))"
  shows "\<exists>s. creach cfg s \<and> one_host s t True [] \<and> has_room cfg 0 s \<and> length (rc_reqs s) = 1"
proof -
  obtain b where b: "NewBreaker (P_Breaker (throttler_Params cfg)) = Ret b" using NewBreaker_Ret [OF P] by blast
  then obtain h where h: "requestHandler cfg = Ret h" "th_breaker (throttler h) = b"
    by (simp add: requestHandler_eq)
  have ih: "incomingHost_of (NewHostManager 0 (HeaderForHost cfg)) (get_request ''web.shop'') = Ret ''web.shop''"
    by (simp add: incomingHost_of_def get_request_def)
  have ex: "extractNamespaceAndService ''web.shop'' = (''web'', ''shop'', None)" by code_simp
  let ?es = "[Arrive (get_request ''web.shop''), Go 0, Go 0]"
  have "\<exists>s. crun cfg (rc_start h t) ?es = Some s \<and> one_host s t True [] \<and> rc_brk s = init_sys b \<and> length (rc_reqs s) = 1"
    by (simp add: rc_start_def new_creq_def put_req_def one_host_def ih ex h(2) Let_def newHost_allowed)
  then obtain s where "creach cfg s" "one_host s t True []" "rc_brk s = init_sys b" "length (rc_reqs s) = 1"
    using creach_run creach.start [OF h(1)] by blast
  then show ?thesis
    using NewBreaker_facts [OF P b] by (auto simp: has_room_def init_sys_def throttler_Params_def)
qed

lemma one_host_load:
  assumes s: "creach cfg s" "one_host s now True dues" and r: "i < length (rc_reqs s)" "cr_pos (rc_reqs s ! i) = AtDisLoad"
    "cr_host (rc_reqs s ! i) = 0"
  shows "\<exists>s'. creach cfg s' \<and> one_host s' now True dues \<and> rc_brk s' = rc_brk s \<and>
    rc_reqs s' = (rc_reqs s)[i := (rc_reqs s ! i)\<lparr>cr_pos := AtDisStore 0\<rparr>]"
proof -
  let ?s = "put_req i ((rc_reqs s ! i)\<lparr>cr_pos := AtDisStore 0\<rparr>) s"
  have "cexec cfg s (Go i) = Some (Ret ?s)"
    using s(2) r by (simp add: one_host_def host_of_def)
  with s(1) have "creach cfg ?s" by (blast intro: creach.step)
  with s(2) show ?thesis by (intro exI [of _ ?s]) (simp add: one_host_def)
qed

lemma one_host_store:
  assumes s: "creach cfg s" "one_host s now on dues" and r: "i < length (rc_reqs s)" "cr_pos (rc_reqs s ! i) = AtDisStore 0"
    "cr_host (rc_reqs s ! i) = 0"
  shows "\<exists>s'. creach cfg s' \<and> one_host s' now False (dues @ [now + seconds (cfg_TrafficReEnableDuration cfg)]) \<and>
    rc_brk s' = rc_brk s \<and> rc_reqs s' = (rc_reqs s)[i := (rc_reqs s ! i)\<lparr>cr_pos := AtSelect\<rparr>]"
proof -
  obtain s' where "cexec cfg s (Go i) = Some (Ret s')" "one_host s' now False (dues @ [now + seconds (cfg_TrafficReEnableDuration cfg)])"
    "rc_brk s' = rc_brk s" "rc_reqs s' = (rc_reqs s)[i := (rc_reqs s ! i)\<lparr>cr_pos := AtSelect\<rparr>]"
    using s(2) r by (simp add: one_host_def host_of_def Let_def)
  with s(1) show ?thesis by (blast intro: creach.step)
qed

lemma one_host_enable:
  "one_host s now on dues \<Longrightarrow> one_host (fold enable_host (map (\<lambda>d. ''web.shop'') ds) s) now (on \<or> ds \<noteq> []) dues"
proof (induction ds arbitrary: s on)
  case Nil
  then show ?case by simp
next
  case (Cons d ds)
  then have "one_host (enable_host ''web.shop'' s) now True dues" by (simp add: one_host_def enable_host_def)
  from Cons.IH [OF this] show ?case by simp
qed

lemma one_host_tick:
  assumes s: "creach cfg s" "one_host s now on dues" and t: "now \<le> t"
  shows "\<exists>s'. cexec cfg s (Tick t) = Some (Ret s') \<and> creach cfg s' \<and> one_host s' t (on \<or> (\<exists>d \<in> set dues. d \<le> t)) (filter (\<lambda>d. t < d) dues) \<and>
    rc_brk s' = rc_brk s \<and> rc_reqs s' = rc_reqs s"
proof -
  obtain c where c: "fire_releases t (rc_oc s) = Ret c"
    using creach_inv [OF s(1)] fire_releases_eq by (fastforce simp: cinv_def)
  let ?due = "\<lambda>(due, k). due \<le> t" and ?ds = "filter (\<lambda>d. d \<le> t) dues"
  let ?u = "s\<lparr>rc_now := t, rc_oc := c, rc_thr := expire_ready t (rc_thr s), rc_timers := filter (\<lambda>x. \<not> ?due x) (rc_timers s)\<rparr>"
  let ?s = "fold enable_host (map snd (filter ?due (rc_timers s))) ?u"
  have "map snd (filter ?due (rc_timers s)) = map (\<lambda>d. ''web.shop'') ?ds"
    using s(2) by (simp add: one_host_def filter_map comp_def)
  moreover have "one_host ?u t on (filter (\<lambda>d. t < d) dues)"
    using s(2) by (simp add: one_host_def filter_map comp_def not_le)
  ultimately have "one_host ?s t (on \<or> ?ds \<noteq> []) (filter (\<lambda>d. t < d) dues)" using one_host_enable by simp
  moreover have "?ds \<noteq> [] \<longleftrightarrow> (\<exists>d \<in> set dues. d \<le> t)" by (auto simp: filter_empty_conv)
  moreover have ex: "cexec cfg s (Tick t) = Some (Ret ?s)"
    using t s(2) c by (simp add: pass_time_def one_host_def case_prod_unfold)
  moreover have "creach cfg ?s" using s(1) ex by (rule creach.step)
  ultimately show ?thesis by (intro exI [of _ ?s]) simp
qed

text \<open>Two requests for the host whose traffic they both found on.\<close>

lemma two_at_switch:
  assumes P: "params_ok (P_Breaker (throttler_Params cfg))"
    and C: "3 \<le> cfg_InitialCapacity cfg" "3 \<le> cfg_QueueSize cfg + MaxQueueConcurrency cfg"
  shows "\<exists>s q r1 r2. creach cfg s \<and> one_host s t True [] \<and> has_room cfg 2 s \<and> rc_reqs s = [q, r1, r2] \<and>
    cr_pos r1 = AtDisLoad \<and> cr_pos r2 = AtDisLoad \<and> cr_host r1 = 0 \<and> cr_host r2 = 0"
proof -
  obtain s0 q where 0: "creach cfg s0" "one_host s0 t True []" "has_room cfg 0 s0" "rc_reqs s0 = [q]"
    using one_host_start [OF P, of t] by (auto simp: length_Suc_conv)
  then have "\<exists>s' r. creach cfg s' \<and> same_hosts s0 (s'\<lparr>rc_reqs := rc_reqs s0\<rparr>) \<and> has_room cfg (Suc 0) s' \<and>
      rc_reqs s' = rc_reqs s0 @ [r] \<and> cr_pos r = AtDisLoad \<and> cr_host r = 0"
    using C by (intro to_switch [OF 0(1) _ _ P 0(3)]) (simp_all add: one_host_def)
  then obtain s1 r1 where 1: "creach cfg s1" "same_hosts s0 (s1\<lparr>rc_reqs := rc_reqs s0\<rparr>)" "has_room cfg 1 s1"
    "rc_reqs s1 = [q, r1]" "cr_pos r1 = AtDisLoad" "cr_host r1 = 0" using 0(4) by auto
  have o1: "one_host s1 t True []" using 0(2) 1(2) by (simp add: one_host_def same_hosts_def)
  then have "\<exists>s' r. creach cfg s' \<and> same_hosts s1 (s'\<lparr>rc_reqs := rc_reqs s1\<rparr>) \<and> has_room cfg (Suc 1) s' \<and>
      rc_reqs s' = rc_reqs s1 @ [r] \<and> cr_pos r = AtDisLoad \<and> cr_host r = 0"
    using C by (intro to_switch [OF 1(1) _ _ P 1(3)]) (simp_all add: one_host_def)
  then obtain s2 r2 where 2: "creach cfg s2" "same_hosts s1 (s2\<lparr>rc_reqs := rc_reqs s1\<rparr>)" "has_room cfg 2 s2"
    "rc_reqs s2 = [q, r1, r2]" "cr_pos r2 = AtDisLoad" "cr_host r2 = 0" using 1(4) by (auto simp: numeral_2_eq_2)
  have "one_host s2 t True []" using o1 2(2) by (simp add: one_host_def same_hosts_def)
  with 2 1 show ?thesis by blast
qed


text \<open>Both of them switch it off and start a timer, one a nanosecond after the other; the first timer fires.\<close>

lemma two_timers:
  assumes P: "params_ok (P_Breaker (throttler_Params cfg))"
    and C: "3 \<le> cfg_InitialCapacity cfg" "3 \<le> cfg_QueueSize cfg + MaxQueueConcurrency cfg"
    and D: "D = seconds (cfg_TrafficReEnableDuration cfg)" "2 \<le> D"
  shows "\<exists>s. creach cfg s \<and> one_host s (t + D) True [t + 1 + D] \<and> has_room cfg 2 s"
proof -
  obtain s q r1 r2 where 0: "creach cfg s" "one_host s t True []" "has_room cfg 2 s" "rc_reqs s = [q, r1, r2]"
    "cr_pos r1 = AtDisLoad" "cr_pos r2 = AtDisLoad" "cr_host r1 = 0" "cr_host r2 = 0"
    using two_at_switch [OF P C, of t] by blast
  obtain s1 where 1: "creach cfg s1" "one_host s1 t True []" "rc_brk s1 = rc_brk s"
    "rc_reqs s1 = [q, r1\<lparr>cr_pos := AtDisStore 0\<rparr>, r2]" using one_host_load [OF 0(1,2), of 1] 0 by auto
  obtain s2 where 2: "creach cfg s2" "one_host s2 t True []" "rc_brk s2 = rc_brk s"
    "rc_reqs s2 = [q, r1\<lparr>cr_pos := AtDisStore 0\<rparr>, r2\<lparr>cr_pos := AtDisStore 0\<rparr>]"
    using one_host_load [OF 1(1,2), of 2] 1(3,4) 0 by auto
  obtain s3 where 3: "creach cfg s3" "one_host s3 t False [t + D]" "rc_brk s3 = rc_brk s"
    "rc_reqs s3 = [q, r1\<lparr>cr_pos := AtSelect\<rparr>, r2\<lparr>cr_pos := AtDisStore 0\<rparr>]"
    using one_host_store [OF 2(1,2), of 1] 2(3,4) 0 D(1) by auto
  obtain s4 where 4: "creach cfg s4" "one_host s4 (t + 1) False [t + D]" "rc_brk s4 = rc_brk s" "rc_reqs s4 = rc_reqs s3"
    using one_host_tick [OF 3(1,2), of "t + 1"] 3(3) D(2) by auto
  obtain s5 where 5: "creach cfg s5" "one_host s5 (t + 1) False [t + D, t + 1 + D]" "rc_brk s5 = rc_brk s"
    using one_host_store [OF 4(1,2), of 2] 4(3,4) 3(4) 0 D(1) by auto
  obtain s6 where "creach cfg s6" "one_host s6 (t + D) True [t + 1 + D]" "rc_brk s6 = rc_brk s"
    using one_host_tick [OF 5(1,2), of "t + D"] 5(3) D(2) by auto
  with 0(3) show ?thesis by (auto simp: has_room_def)
qed

text \<open>A third request switches the traffic off again, while the second timer is still running.\<close>

lemma third_switch:
  assumes P: "params_ok (P_Breaker (throttler_Params cfg))"
    and C: "3 \<le> cfg_InitialCapacity cfg" "3 \<le> cfg_QueueSize cfg + MaxQueueConcurrency cfg"
    and D: "D = seconds (cfg_TrafficReEnableDuration cfg)" "2 \<le> D"
  shows "\<exists>s. creach cfg s \<and> one_host s (t + D) False [t + 1 + D, t + D + D]"
proof -
  obtain s where 0: "creach cfg s" "one_host s (t + D) True [t + 1 + D]" "has_room cfg 2 s"
    using two_timers [OF P C D, of t] by blast
  then have "\<exists>s' r. creach cfg s' \<and> same_hosts s (s'\<lparr>rc_reqs := rc_reqs s\<rparr>) \<and> has_room cfg (Suc 2) s' \<and>
      rc_reqs s' = rc_reqs s @ [r] \<and> cr_pos r = AtDisLoad \<and> cr_host r = 0"
    using C by (intro to_switch [OF 0(1) _ _ P 0(3)]) (simp_all add: one_host_def)
  then obtain s1 r where 1: "creach cfg s1" "same_hosts s (s1\<lparr>rc_reqs := rc_reqs s\<rparr>)" "rc_reqs s1 = rc_reqs s @ [r]"
    "cr_pos r = AtDisLoad" "cr_host r = 0" by blast
  have o1: "one_host s1 (t + D) True [t + 1 + D]" using 0(2) 1(2) by (simp add: one_host_def same_hosts_def)
  let ?i = "length (rc_reqs s)"
  obtain s2 where 2: "creach cfg s2" "one_host s2 (t + D) True [t + 1 + D]" "rc_reqs s2 = rc_reqs s @ [r\<lparr>cr_pos := AtDisStore 0\<rparr>]"
    using one_host_load [OF 1(1) o1, of ?i] 1(3-5) by auto
  obtain s3 where "creach cfg s3" "one_host s3 (t + D) False [t + 1 + D, t + D + D]"
    using one_host_store [OF 2(1,2), of ?i] 2(3) 1(5) by (auto simp: D(1))
  then show ?thesis by blast
qed

section \<open>Properties\<close>


text \<open>C6: however requests, answers and timers interleave, no request is given to the proxy twice; a request that was
  given to the proxy is past it and ends as served, timed out or failed; and a request that ends without an error was
  given to the proxy.\<close>

theorem forwarded_once:
  assumes "creach cfg s" "i < length (rc_reqs s)"
  shows "distinct (rc_sent s) \<and>
    (cr_pos (rc_reqs s ! i) = AtProxy \<longrightarrow> i \<notin> set (rc_sent s)) \<and>
    (cr_pos (rc_reqs s ! i) = Done Served \<longrightarrow> i \<in> set (rc_sent s)) \<and>
    (cr_pos (rc_reqs s ! i) = Done x \<and> i \<in> set (rc_sent s) \<longrightarrow> x \<in> {Served, TimedOut, ServerError})"
proof -
  have inv: "sent_inv s" using creach_inv [OF assms(1)] by (simp add: cinv_def)
  with sent_invD(1) [OF inv] sent_invD(3) [OF inv assms(2)] show ?thesis by (auto simp: log_ok_def)
qed

text \<open>C17: no request is ever stuck. A request that is not finished waits for an answer or sleeps, or can take its next
  step, or its call of the breaker can; and if the call waits for a permit and cannot, then another request, which
  is inside a call of its own, moves in this sense.\<close>

theorem no_request_stuck:
  assumes "creach cfg s" "params_ok (P_Breaker (throttler_Params cfg))"
    and "0 < cfg_InitialCapacity cfg" "0 < MaxQueueConcurrency cfg"
    and "i < length (rc_reqs s)" "\<And>x. cr_pos (rc_reqs s ! i) \<noteq> Done x"
  shows "moves cfg s i \<or>
    (waiting (pcs (rc_brk s) ! cr_call (rc_reqs s ! i)) \<and>
     (\<exists>k < length (rc_reqs s). k \<noteq> i \<and> in_call (cr_pos (rc_reqs s ! k)) \<and>
        \<not> waiting (pcs (rc_brk s) ! cr_call (rc_reqs s ! k)) \<and> moves cfg s k))"
proof (cases "in_call (cr_pos (rc_reqs s ! i))")
  case False
  then show ?thesis using moves_outside [OF assms(5) _ assms(6)] by blast
next
  case True
  let ?b = "rc_brk s" and ?r = "rc_reqs s ! i"
  let ?c = "cr_call ?r"
  obtain b where b: "NewBreaker (P_Breaker (throttler_Params cfg)) = Ret b" "reachable b ?b" "calls_inv ?b (rc_reqs s)"
    using creach_inv [OF assms(1)] by (auto simp: cinv_def)
  note B = reachable_breaker_inv [OF b(2) assms(2) b(1)]
  have ok: "pc_ok (cfg_QueueSize cfg + MaxQueueConcurrency cfg) (pcs ?b ! j)" if "j < length (pcs ?b)" for j
    using B that by (auto simp: breaker_inv_def throttler_Params_def)
  have co: "call_ok ?b (rc_reqs s ! k)" if "k < length (rc_reqs s)" for k using calls_invD(1) [OF b(3) that] .
  have len: "?c < length (pcs ?b)" using co [OF assms(5)] True by (simp add: call_ok_def)
  show ?thesis
  proof (cases "waiting (pcs ?b ! ?c)")
    case False
    then show ?thesis using moves_not_waiting [OF assms(5) True co [OF assms(5)] ok [OF len]] by blast
  next
    case w: True
    have wi: "wake_inv ?b"
      using assms(3,4) by (intro reachable_wake_inv [OF b(2) assms(2) b(1)]) (simp_all add: throttler_Params_def)
    consider (token) "0 < tokens ?b" | (other) j where "j < length (pcs ?b)" "active (pcs ?b ! j)"
      using wi w len unfolding wake_inv_def by (metis in_set_conv_nth)
    then show ?thesis
    proof cases
      case token
      then have "\<not> parked ?b" using wi by (auto simp: wake_inv_def)
      then have "pcs ?b ! ?c \<noteq> Sem AcqBlocked" using nth_mem [OF len] unfolding parked_def by metis
      then have "at_pc ?b ?c (Sem AcqSelect)" using w len by (auto simp: at_pc_def elim!: waiting.elims)
      with token have "exec ?b (Recv ?c) \<noteq> None" by simp
      then show ?thesis using moves_call [OF True, of "Recv ?c"] by (auto simp: call_events_def)
    next
      case other
      then have "\<not> returned (pcs ?b ! j)" "\<not> waiting (pcs ?b ! j)" by (auto elim!: active.elims)
      with calls_invD(3) [OF b(3) other(1)] obtain k where k: "k < length (rc_reqs s)" "owner j (rc_reqs s ! k)" by blast
      then have "in_call (cr_pos (rc_reqs s ! k))" "cr_call (rc_reqs s ! k) = j" by (simp_all add: owner_def)
      with moves_not_waiting [OF k(1) _ co [OF k(1)]] ok [OF other(1)] \<open>\<not> waiting (pcs ?b ! j)\<close> k w show ?thesis by auto
    qed
  qed
qed
text \<open>C24: traffic that is switched off always comes back. Whatever requests run at once, and however many of them switch
  the traffic of a host off, each host whose traffic is off has a timer that is due within the configured duration; so
  when that duration passes without a further request, the traffic of every cached host is on.\<close>

theorem traffic_returns:
  assumes "creach cfg s" "rc_now s \<le> t" "rc_now s + seconds (cfg_TrafficReEnableDuration cfg) \<le> t"
  shows "\<exists>s'. cexec cfg s (Tick t) = Some (Ret s') \<and> rc_hosts s' = rc_hosts s \<and>
    (\<forall>k p. rc_hosts s' k = Some p \<longrightarrow> IncomingHost (rc_objs s' ! p) = k \<and> TrafficAllowed (rc_objs s' ! p))"
proof -
  obtain s' where ex: "cexec cfg s (Tick t) = Some (Ret s')"
    using cexec_no_panic [OF creach_inv [OF assms(1)], of "Tick t"] assms(2) by (cases "pass_time t s") auto
  then have T: "pass_time t s = Ret s'" using assms(2) by simp
  note H = pass_time_hosts [OF T]
  have inv: "pointers_ok (seconds (cfg_TrafficReEnableDuration cfg)) s"
    using creach_hosts [OF assms(1)] by (simp add: hosts_inv_def)
  have "IncomingHost (rc_objs s' ! p) = k \<and> TrafficAllowed (rc_objs s' ! p)" if kp: "rc_hosts s k = Some p" for k p
  proof
    note P = pointers_okD [OF inv kp]
    show "IncomingHost (rc_objs s' ! p) = k" using P(1,2) H(4) by (auto simp: grows_def)
    show "TrafficAllowed (rc_objs s' ! p)"
    proof (rule ccontr)
      assume "\<not> TrafficAllowed (rc_objs s' ! p)"
      from H(6) [OF kp P(1) this] P(3) assms(3) show False by force
    qed
  qed
  with ex H(1) show ?thesis by auto
qed
text \<open>C39: \<open>DisableTrafficForHost\<close> tests and clears \<open>TrafficAllowed\<close> in two steps, so two requests that finish together
  both clear it and both start a timer. In every configuration that admits three requests at a time there is a
  reachable state in which the traffic of a host was switched off just now, with a timer for the configured duration,
  and in which the timer of the second of two earlier requests switches it on again a nanosecond later.\<close>

theorem traffic_race:
  assumes "params_ok (P_Breaker (throttler_Params cfg))" "3 \<le> cfg_InitialCapacity cfg"
    "3 \<le> cfg_QueueSize cfg + MaxQueueConcurrency cfg" "2 \<le> seconds (cfg_TrafficReEnableDuration cfg)"
  shows "\<exists>s s' p. creach cfg s \<and> rc_hosts s ''web.shop'' = Some p \<and> \<not> TrafficAllowed (rc_objs s ! p) \<and>
    (rc_now s + seconds (cfg_TrafficReEnableDuration cfg), ''web.shop'') \<in> set (rc_timers s) \<and>
    cexec cfg s (Tick (rc_now s + 1)) = Some (Ret s') \<and> rc_hosts s' ''web.shop'' = Some p \<and> TrafficAllowed (rc_objs s' ! p)"
proof -
  define D where "D = seconds (cfg_TrafficReEnableDuration cfg)"
  obtain s3 where 3: "creach cfg s3" "one_host s3 D False [1 + D, D + D]"
    using third_switch [OF assms(1-3) D_def, of 0] assms(4) by (auto simp: D_def)
  obtain s4 where 4: "cexec cfg s3 (Tick (D + 1)) = Some (Ret s4)" "one_host s4 (D + 1) True [D + D]"
    using one_host_tick [OF 3, of "D + 1"] assms(4) by (auto simp: D_def add.commute)
  show ?thesis
    by (rule exI [of _ s3], rule exI [of _ s4], rule exI [of _ 0])
      (use 3 4 in \<open>simp add: one_host_def D_def [symmetric]\<close>)
qed

section \<open>Witnesses\<close>

lemma default_params:
  "params_ok (P_Breaker (throttler_Params default_config))" "3 \<le> cfg_InitialCapacity default_config"
  "3 \<le> cfg_QueueSize default_config + MaxQueueConcurrency default_config" "0 < MaxQueueConcurrency default_config"
  "seconds (cfg_TrafficReEnableDuration default_config) = 30 * time_Second"
  "seconds (OperatorRetryDuration default_config) = 30 * time_Second"
  by (simp_all add: params_ok_def throttler_Params_def default_config_def seconds_exact_iff)


theorem forwarded_once_witness:
  "\<exists>s. creach default_config s \<and> 1 < length (rc_reqs s) \<and> distinct (rc_sent s) \<and>
     (cr_pos (rc_reqs s ! 1) = AtProxy \<longrightarrow> 1 \<notin> set (rc_sent s)) \<and>
     (cr_pos (rc_reqs s ! 1) = Done Served \<longrightarrow> 1 \<in> set (rc_sent s))"
proof -
  obtain s q r1 r2 where s: "creach default_config s" "rc_reqs s = [q, r1, r2]"
    using two_at_switch [OF default_params(1-3), of 0] by blast
  then have l: "1 < length (rc_reqs s)" by simp
  from forwarded_once [OF s(1) l] s(1) l show ?thesis by blast
qed

theorem no_request_stuck_witness:
  "\<exists>s. creach default_config s \<and> cr_pos (rc_reqs s ! 1) = AtDisLoad \<and>
     (moves default_config s 1 \<or> waiting (pcs (rc_brk s) ! cr_call (rc_reqs s ! 1)))"
proof -
  obtain s q r1 r2 where s: "creach default_config s" "rc_reqs s = [q, r1, r2]" "cr_pos r1 = AtDisLoad"
    using two_at_switch [OF default_params(1-3), of 0] by blast
  then have i: "1 < length (rc_reqs s)" "\<And>x. cr_pos (rc_reqs s ! 1) \<noteq> Done x" by simp_all
  have "0 < cfg_InitialCapacity default_config" using default_params(2) by simp
  from no_request_stuck [OF s(1) default_params(1) this default_params(4) i] s show ?thesis by auto
qed

theorem traffic_returns_witness:
  "\<exists>s s'. creach default_config s \<and> rc_hosts s ''web.shop'' = Some 0 \<and> \<not> TrafficAllowed (rc_objs s ! 0) \<and>
     cexec default_config s (Tick (60 * time_Second)) = Some (Ret s') \<and> TrafficAllowed (rc_objs s' ! 0)"
proof -
  have "2 \<le> 30 * time_Second" by (simp add: time_Second_def)
  with third_switch [OF default_params(1-3) default_params(5) [symmetric], of 0] obtain s where
    s: "creach default_config s" "one_host s (30 * time_Second) False [1 + 30 * time_Second, 60 * time_Second]" by auto
  then have "rc_now s = 30 * time_Second" "rc_hosts s ''web.shop'' = Some 0" "\<not> TrafficAllowed (rc_objs s ! 0)"
    by (simp_all add: one_host_def)
  with traffic_returns [OF s(1), of "60 * time_Second"] s(1) show ?thesis
    by (auto simp: default_params time_Second_def)
qed

theorem traffic_race_witness:
  "\<exists>s s' p. creach default_config s \<and> rc_hosts s ''web.shop'' = Some p \<and> \<not> TrafficAllowed (rc_objs s ! p) \<and>
    (rc_now s + 30 * time_Second, ''web.shop'') \<in> set (rc_timers s) \<and>
    cexec default_config s (Tick (rc_now s + 1)) = Some (Ret s') \<and> rc_hosts s' ''web.shop'' = Some p \<and> TrafficAllowed (rc_objs s' ! p)"
  using traffic_race [OF default_params(1-3)] by (simp add: default_params(5) time_Second_def)

end
