(* ===== verification/Api.thy ===== *)
theory Api
  imports Utils
begin

text \<open>
  The custom resource of \<open>operator/api/v1alpha1/elastiservice_types.go\<close>, the parts of the built-in
  resources the operator reads and writes, and its view of the API server. The Kubernetes clients
  are not part of the program: they are the record \<open>K8s\<close>, an argument of every definition that calls
  them, over a cluster state of an unknown type. What the operator relies on is the hypothesis
  \<open>k8s_laws\<close>: a call that succeeds acts on the stored objects (the record \<open>Cluster\<close>, reached by an
  abstraction function) as the API describes, and one that fails changes nothing.
  \<open>memory_client\<close> is a client that satisfies the laws.
\<close>

section \<open>The custom resource\<close>

record ScaleTargetRef =
  APIVersion :: string
  Kind :: string
  TargetRefName :: string

record AutoscalerSpec =
  AutoscalerType :: string
  AutoscalerName :: string

record ScaleTrigger =
  TriggerType :: string
  Metadata :: string

record ElastiServiceSpec =
  TargetRef :: ScaleTargetRef
  SpecService :: string
  MinTargetReplicas :: int
  CooldownPeriod :: int
  Triggers :: "ScaleTrigger list"
  Autoscaler :: "AutoscalerSpec option"

record ElastiServiceStatus =
  LastReconciledTime :: int
  LastScaledUpTime :: "int option"
  Mode :: string

record ElastiService =
  ES_Name :: string
  ES_Namespace :: string
  CreationTimestamp :: int
  DeletionTimestamp :: "int option"
  Finalizers :: "string list"
  Spec :: ElastiServiceSpec
  Status :: ElastiServiceStatus

definition ElastiServiceFinalizer :: string where
  "ElastiServiceFinalizer = ''elasti.truefoundry.com/finalizer''"

section \<open>Built-in resources\<close>

record ServicePort =
  PortName :: string
  Protocol :: string
  PortNumber :: int
  TargetPort :: string
  NodePort :: int
  AppProtocol :: "string option"

record Service =
  SvcName :: string
  SvcNamespace :: string
  ResourceVersion :: string
  Selector :: "(string \<times> string) list"
  ClusterIP :: string
  ClusterIPs :: "string list"
  Ports :: "ServicePort list"
  SvcOwner :: "string option"

record EndpointSlice =
  SliceName :: string
  SliceNamespace :: string
  SliceService :: string
  SlicePorts :: "(string \<times> string \<times> int) list"
  SliceEndpoints :: "string list list"

record Deployment =
  DeployName :: string
  SpecReplicas :: "int option"
  StatusReplicas :: int
  ReadyReplicas :: int

text \<open>
  A rollout is read as an unstructured object: \<open>spec\<close> may be missing or not a map, \<open>replicas\<close>
  missing, an \<open>int64\<close>, or something else.
\<close>

datatype uvalue = UNil | UInt64 int | UOther
datatype uspec = NoSpec | SpecNotMap | SpecMap uvalue

record Rollout =
  RolloutSpec :: uspec
  RolloutReady :: int
  RolloutPhase :: string

type_synonym key = "string \<times> string"

text \<open>\<open>types.NamespacedName.String\<close>.\<close>

definition nn_String :: "string \<Rightarrow> string \<Rightarrow> string" where
  "nn_String namespace name = namespace @ ''/'' @ name"

definition IsNotFound :: "goerr \<Rightarrow> bool" where
  "IsNotFound e = errors_Is e NotFound"

section \<open>The stored objects\<close>

record Cluster =
  C_svcs :: "key \<rightharpoonup> Service"
  C_slices :: "key \<rightharpoonup> EndpointSlice"
  C_es :: "key \<rightharpoonup> ElastiService"
  C_deps :: "key \<rightharpoonup> Deployment"
  C_ros :: "key \<rightharpoonup> Rollout"
  C_sos :: "key \<rightharpoonup> (string \<rightharpoonup> string)"
  C_events :: "(key \<times> string \<times> string) list"

definition put_svc :: "Service \<Rightarrow> Cluster \<Rightarrow> Cluster" where
  "put_svc s m = m\<lparr>C_svcs := (C_svcs m)((SvcNamespace s, SvcName s) \<mapsto> s)\<rparr>"

definition del_svc :: "string \<Rightarrow> string \<Rightarrow> Cluster \<Rightarrow> Cluster" where
  "del_svc ns n m = m\<lparr>C_svcs := (C_svcs m)((ns, n) := None)\<rparr>"

definition put_slice :: "EndpointSlice \<Rightarrow> Cluster \<Rightarrow> Cluster" where
  "put_slice s m = m\<lparr>C_slices := (C_slices m)((SliceNamespace s, SliceName s) \<mapsto> s)\<rparr>"

definition del_slice :: "string \<Rightarrow> string \<Rightarrow> Cluster \<Rightarrow> Cluster" where
  "del_slice ns n m = m\<lparr>C_slices := (C_slices m)((ns, n) := None)\<rparr>"

text \<open>
  Updating an object that is being deleted and has no finalizer left removes it. The status is a
  subresource: an update of the object does not touch it, a patch of it touches nothing else.
\<close>

definition put_es :: "ElastiService \<Rightarrow> Cluster \<Rightarrow> Cluster" where
  "put_es e m =
     m\<lparr>C_es := (C_es m)((ES_Namespace e, ES_Name e) :=
          (case C_es m (ES_Namespace e, ES_Name e) of
             None \<Rightarrow> None
           | Some old \<Rightarrow> if DeletionTimestamp e \<noteq> None \<and> Finalizers e = [] then None
                         else Some (e\<lparr>Status := Status old\<rparr>)))\<rparr>"

definition patch_es_status ::
  "string \<Rightarrow> string \<Rightarrow> (ElastiServiceStatus \<Rightarrow> ElastiServiceStatus) \<Rightarrow> Cluster \<Rightarrow> Cluster" where
  "patch_es_status ns n f m =
     m\<lparr>C_es := (C_es m)((ns, n) := map_option (\<lambda>e. e\<lparr>Status := f (Status e)\<rparr>) (C_es m (ns, n)))\<rparr>"

definition patch_dep :: "string \<Rightarrow> string \<Rightarrow> int \<Rightarrow> Cluster \<Rightarrow> Cluster" where
  "patch_dep ns n r m =
     m\<lparr>C_deps := (C_deps m)((ns, n) := map_option (\<lambda>d. d\<lparr>SpecReplicas := Some r\<rparr>) (C_deps m (ns, n)))\<rparr>"

definition patch_ro :: "string \<Rightarrow> string \<Rightarrow> int \<Rightarrow> Cluster \<Rightarrow> Cluster" where
  "patch_ro ns n r m =
     m\<lparr>C_ros := (C_ros m)((ns, n) :=
          map_option (\<lambda>d. d\<lparr>RolloutSpec := SpecMap (UInt64 r)\<rparr>) (C_ros m (ns, n)))\<rparr>"

text \<open>A merge patch of annotations: \<open>None\<close> removes one.\<close>

definition patch_so :: "string \<Rightarrow> string \<Rightarrow> (string \<times> string option) list \<Rightarrow> Cluster \<Rightarrow> Cluster" where
  "patch_so ns n as m =
     m\<lparr>C_sos := (C_sos m)((ns, n) :=
          map_option (\<lambda>a. fold (\<lambda>(k, v) a. a(k := v)) as a) (C_sos m (ns, n)))\<rparr>"

definition add_event :: "key \<times> string \<times> string \<Rightarrow> Cluster \<Rightarrow> Cluster" where
  "add_event e m = m\<lparr>C_events := C_events m @ [e]\<rparr>"

lemmas cluster_ops =
  put_svc_def del_svc_def put_slice_def del_slice_def put_es_def patch_es_status_def patch_dep_def
  patch_ro_def patch_so_def add_event_def

text \<open>Objects are stored under their own names.\<close>

definition wf_cluster :: "Cluster \<Rightarrow> bool" where
  "wf_cluster m =
     ((\<forall>ns n s. C_svcs m (ns, n) = Some s \<longrightarrow> SvcNamespace s = ns \<and> SvcName s = n) \<and>
      (\<forall>ns n s. C_slices m (ns, n) = Some s \<longrightarrow> SliceNamespace s = ns \<and> SliceName s = n) \<and>
      (\<forall>ns n e. C_es m (ns, n) = Some e \<longrightarrow> ES_Namespace e = ns \<and> ES_Name e = n))"

lemma wf_clusterD:
  assumes "wf_cluster m"
  shows "C_svcs m (ns, n) = Some s \<Longrightarrow> SvcNamespace s = ns \<and> SvcName s = n"
    "C_slices m (ns, n) = Some sl \<Longrightarrow> SliceNamespace sl = ns \<and> SliceName sl = n"
    "C_es m (ns, n) = Some e \<Longrightarrow> ES_Namespace e = ns \<and> ES_Name e = n"
  using assms unfolding wf_cluster_def by blast+

lemma wf_put:
  assumes "wf_cluster m"
  shows "wf_cluster (put_svc s m)" "wf_cluster (put_slice sl m)" "wf_cluster (del_svc ns n m)"
    "wf_cluster (del_slice ns n m)"
  using assms unfolding wf_cluster_def by (simp_all add: cluster_ops)

lemma wf_patch:
  assumes "wf_cluster m"
  shows "wf_cluster (put_es e m)" "wf_cluster (patch_es_status ns n f m)" "wf_cluster (patch_dep ns n r m)"
    "wf_cluster (patch_ro ns n r m)" "wf_cluster (patch_so ns n as m)" "wf_cluster (add_event ev m)"
  using assms unfolding wf_cluster_def by (auto simp: cluster_ops split: option.splits if_splits)

section \<open>The clients\<close>

type_synonym 'c effect = "goerr option \<times> 'c"

record 'c K8s =
  get_svc :: "'c \<Rightarrow> string \<Rightarrow> string \<Rightarrow> Service result"
  create_svc :: "'c \<Rightarrow> Service \<Rightarrow> 'c effect"
  update_svc :: "'c \<Rightarrow> Service \<Rightarrow> 'c effect"
  delete_svc :: "'c \<Rightarrow> Service \<Rightarrow> 'c effect"
  get_slice :: "'c \<Rightarrow> string \<Rightarrow> string \<Rightarrow> EndpointSlice result"
  list_slices :: "'c \<Rightarrow> string \<Rightarrow> EndpointSlice list result"
  create_slice :: "'c \<Rightarrow> EndpointSlice \<Rightarrow> 'c effect"
  update_slice :: "'c \<Rightarrow> EndpointSlice \<Rightarrow> 'c effect"
  delete_slice :: "'c \<Rightarrow> EndpointSlice \<Rightarrow> 'c effect"
  get_es :: "'c \<Rightarrow> string \<Rightarrow> string \<Rightarrow> ElastiService result"
  list_es :: "'c \<Rightarrow> string \<Rightarrow> ElastiService list result"
  list_es_dynamic :: "'c \<Rightarrow> string \<Rightarrow> ElastiService result list result"
  update_es :: "'c \<Rightarrow> ElastiService \<Rightarrow> 'c effect"
  patch_status :: "'c \<Rightarrow> string \<Rightarrow> string \<Rightarrow> (ElastiServiceStatus \<Rightarrow> ElastiServiceStatus) \<Rightarrow> 'c effect"
  get_deployment :: "'c \<Rightarrow> string \<Rightarrow> string \<Rightarrow> Deployment result"
  patch_deployment :: "'c \<Rightarrow> string \<Rightarrow> string \<Rightarrow> int \<Rightarrow> 'c effect"
  get_rollout :: "'c \<Rightarrow> string \<Rightarrow> string \<Rightarrow> Rollout result"
  patch_rollout :: "'c \<Rightarrow> string \<Rightarrow> string \<Rightarrow> int \<Rightarrow> 'c effect"
  patch_scaledobject :: "'c \<Rightarrow> string \<Rightarrow> string \<Rightarrow> (string \<times> string option) list \<Rightarrow> 'c effect"
  record_event :: "'c \<Rightarrow> key \<times> string \<times> string \<Rightarrow> 'c"
  set_controller :: "ElastiService \<Rightarrow> Service \<Rightarrow> Service result"

text \<open>
  \<open>list_es_dynamic\<close> is the listing of the dynamic client; each item comes with the result of its
  conversion from the unstructured form.
\<close>

text \<open>\<open>set_controller\<close> is \<open>controllerutil.SetControllerReference\<close>, which changes the owner only.\<close>

text \<open>The laws: \<open>reads\<close> for a lookup, \<open>applies\<close> for a write.\<close>

definition reads :: "'a result \<Rightarrow> 'a option \<Rightarrow> bool" where
  "reads r x = (case r of Inr a \<Rightarrow> x = Some a | Inl e \<Rightarrow> IsNotFound e \<longrightarrow> x = None)"

definition applies :: "('c \<Rightarrow> Cluster) \<Rightarrow> 'c effect \<Rightarrow> 'c \<Rightarrow> (Cluster \<Rightarrow> Cluster) \<Rightarrow> bool" where
  "applies view r c f =
     (case r of (None, c') \<Rightarrow> view c' = f (view c) | (Some e, c') \<Rightarrow> view c' = view c)"

definition k8s_laws :: "'c K8s \<Rightarrow> ('c \<Rightarrow> Cluster) \<Rightarrow> bool" where
  "k8s_laws K view =
     ((\<forall>c ns n. reads (get_svc K c ns n) (C_svcs (view c) (ns, n))) \<and>
      (\<forall>c s. applies view (create_svc K c s) c (put_svc s)) \<and>
      (\<forall>c s. applies view (update_svc K c s) c (put_svc s)) \<and>
      (\<forall>c s. applies view (delete_svc K c s) c (del_svc (SvcNamespace s) (SvcName s))) \<and>
      (\<forall>c ns n. reads (get_slice K c ns n) (C_slices (view c) (ns, n))) \<and>
      (\<forall>c s. applies view (create_slice K c s) c (put_slice s)) \<and>
      (\<forall>c s. applies view (update_slice K c s) c (put_slice s)) \<and>
      (\<forall>c s. applies view (delete_slice K c s) c (del_slice (SliceNamespace s) (SliceName s))) \<and>
      (\<forall>c ns n. reads (get_es K c ns n) (C_es (view c) (ns, n))) \<and>
      (\<forall>c e. applies view (update_es K c e) c (put_es e)) \<and>
      (\<forall>c ns n f. applies view (patch_status K c ns n f) c (patch_es_status ns n f)) \<and>
      (\<forall>c ns n. reads (get_deployment K c ns n) (C_deps (view c) (ns, n))) \<and>
      (\<forall>c ns n r. applies view (patch_deployment K c ns n r) c (patch_dep ns n r)) \<and>
      (\<forall>c ns n. reads (get_rollout K c ns n) (C_ros (view c) (ns, n))) \<and>
      (\<forall>c ns n r. applies view (patch_rollout K c ns n r) c (patch_ro ns n r)) \<and>
      (\<forall>c ns n as. applies view (patch_scaledobject K c ns n as) c (patch_so ns n as)) \<and>
      (\<forall>c e. view (record_event K c e) = add_event e (view c)) \<and>
      (\<forall>e s s'. set_controller K e s = Inr s' \<longrightarrow> s' = s\<lparr>SvcOwner := Some (ES_Name e)\<rparr>))"

lemma k8s_lawsD:
  assumes "k8s_laws K view"
  shows "reads (get_svc K c ns n) (C_svcs (view c) (ns, n))"
    "applies view (create_svc K c s) c (put_svc s)"
    "applies view (update_svc K c s) c (put_svc s)"
    "applies view (delete_svc K c s) c (del_svc (SvcNamespace s) (SvcName s))"
    "reads (get_slice K c ns n) (C_slices (view c) (ns, n))"
    "applies view (create_slice K c sl) c (put_slice sl)"
    "applies view (update_slice K c sl) c (put_slice sl)"
    "applies view (delete_slice K c sl) c (del_slice (SliceNamespace sl) (SliceName sl))"
    "reads (get_es K c ns n) (C_es (view c) (ns, n))"
    "applies view (update_es K c e) c (put_es e)"
    "applies view (patch_status K c ns n f) c (patch_es_status ns n f)"
    "reads (get_deployment K c ns n) (C_deps (view c) (ns, n))"
    "applies view (patch_deployment K c ns n r) c (patch_dep ns n r)"
    "reads (get_rollout K c ns n) (C_ros (view c) (ns, n))"
    "applies view (patch_rollout K c ns n r) c (patch_ro ns n r)"
    "applies view (patch_scaledobject K c ns n as) c (patch_so ns n as)"
    "view (record_event K c ev) = add_event ev (view c)"
    "set_controller K e s = Inr s' \<Longrightarrow> s' = s\<lparr>SvcOwner := Some (ES_Name e)\<rparr>"
  using assms unfolding k8s_laws_def by (simp_all del: split_paired_All)

lemma reads_Inr: "reads (Inr a) x \<longleftrightarrow> x = Some a"
  and reads_Inl: "reads (Inl e) x \<longleftrightarrow> (IsNotFound e \<longrightarrow> x = None)"
  by (simp_all add: reads_def)

lemma applies_simps:
  "applies view (None, c') c f \<longleftrightarrow> view c' = f (view c)"
  "applies view (Some e, c') c f \<longleftrightarrow> view c' = view c"
  by (simp_all add: applies_def)

lemmas k8s_simps = reads_Inr reads_Inl applies_simps

section \<open>A client that keeps the objects in memory\<close>

definition find_obj :: "'a option \<Rightarrow> 'a result" where
  "find_obj x = (case x of None \<Rightarrow> Inl NotFound | Some a \<Rightarrow> Inr a)"

text \<open>The listings are over the objects of given keys, since a map cannot be enumerated.\<close>

definition memory_client :: "key list \<Rightarrow> Cluster K8s" where
  "memory_client ks =
     \<lparr>get_svc = (\<lambda>c ns n. find_obj (C_svcs c (ns, n))),
      create_svc = (\<lambda>c s. (None, put_svc s c)),
      update_svc = (\<lambda>c s. (None, put_svc s c)),
      delete_svc = (\<lambda>c s. (None, del_svc (SvcNamespace s) (SvcName s) c)),
      get_slice = (\<lambda>c ns n. find_obj (C_slices c (ns, n))),
      list_slices = (\<lambda>c svc. Inr (filter (\<lambda>s. SliceService s = svc) (List.map_filter (C_slices c) ks))),
      create_slice = (\<lambda>c s. (None, put_slice s c)),
      update_slice = (\<lambda>c s. (None, put_slice s c)),
      delete_slice = (\<lambda>c s. (None, del_slice (SliceNamespace s) (SliceName s) c)),
      get_es = (\<lambda>c ns n. find_obj (C_es c (ns, n))),
      list_es = (\<lambda>c ns. Inr (filter (\<lambda>e. ns = '''' \<or> ES_Namespace e = ns) (List.map_filter (C_es c) ks))),
      list_es_dynamic = (\<lambda>c ns. Inr (map Inr (filter (\<lambda>e. ns = [] \<or> ES_Namespace e = ns)
                                              (List.map_filter (C_es c) ks)))),
      update_es = (\<lambda>c e. (None, put_es e c)),
      patch_status = (\<lambda>c ns n f. (None, patch_es_status ns n f c)),
      get_deployment = (\<lambda>c ns n. find_obj (C_deps c (ns, n))),
      patch_deployment = (\<lambda>c ns n r. (None, patch_dep ns n r c)),
      get_rollout = (\<lambda>c ns n. find_obj (C_ros c (ns, n))),
      patch_rollout = (\<lambda>c ns n r. (None, patch_ro ns n r c)),
      patch_scaledobject = (\<lambda>c ns n as. (None, patch_so ns n as c)),
      record_event = (\<lambda>c e. add_event e c),
      set_controller = (\<lambda>e s. Inr (s\<lparr>SvcOwner := Some (ES_Name e)\<rparr>))\<rparr>"

lemma reads_find_obj: "reads (find_obj x) x"
  by (simp add: reads_def find_obj_def split: option.splits)

lemma memory_client_laws: "k8s_laws (memory_client ks) id"
  by (simp add: k8s_laws_def memory_client_def reads_find_obj applies_simps)

definition empty_cluster :: Cluster where
  "empty_cluster =
     \<lparr>C_svcs = Map.empty, C_slices = Map.empty, C_es = Map.empty, C_deps = Map.empty,
      C_ros = Map.empty, C_sos = Map.empty, C_events = []\<rparr>"

end
