(* ===== verification/PrometheusScaler.thy ===== *)
theory PrometheusScaler
  imports Complex_Main Api
begin

text \<open>
  \<open>pkg/scaling/scalers\<close>: the interface \<open>Scaler\<close> (the record of its methods) and its implementation on
  a Prometheus server. A \<open>float64\<close> is \<open>NaN\<close>, an infinity or a finite value, here an exact rational.
  The HTTP client, \<open>strconv.ParseFloat\<close> and the JSON decoder of the trigger's metadata are parameters
  in \<open>prom_env\<close>; a decoded answer is given by its fields, with \<open>None\<close> for one the document lacks.
  The package variable \<open>promQueryResponse\<close> is the state the methods pass on: a field missing from an
  answer keeps the value of the answer before. The locale \<open>scaler\<close> is the contract of the interface.
\<close>

section \<open>Floating point\<close>

datatype f64 = NaN | PInf | NInf | Fin rat

fun f64_eq :: "f64 \<Rightarrow> f64 \<Rightarrow> bool" where
  "f64_eq NaN y = False"
| "f64_eq x NaN = False"
| "f64_eq x y = (x = y)"

fun f64_less :: "f64 \<Rightarrow> f64 \<Rightarrow> bool" where
  "f64_less NaN y = False"
| "f64_less x NaN = False"
| "f64_less PInf y = False"
| "f64_less x PInf = True"
| "f64_less x NInf = False"
| "f64_less NInf y = True"
| "f64_less (Fin a) (Fin b) = (a < b)"

definition f64_ge :: "f64 \<Rightarrow> f64 \<Rightarrow> bool" where
  "f64_ge x y = (f64_less y x \<or> f64_eq x y)"

definition IsInf :: "f64 \<Rightarrow> bool" where
  "IsInf x = (x = PInf \<or> x = NInf)"

section \<open>The query string\<close>

definition unreserved :: "char \<Rightarrow> bool" where
  "unreserved c =
     (let n = (of_char c :: nat)
      in (48 \<le> n \<and> n \<le> 57) \<or> (65 \<le> n \<and> n \<le> 90) \<or> (97 \<le> n \<and> n \<le> 122) \<or>
         c = CHR ''-'' \<or> c = CHR ''_'' \<or> c = CHR ''.'' \<or> c = CHR ''~'')"

definition hex_upper :: "nat \<Rightarrow> char" where
  "hex_upper n = (if n < 10 then char_of (48 + n) else char_of (55 + n))"

definition percent :: "char \<Rightarrow> string" where
  "percent c = (let n = (of_char c :: nat) in [CHR ''%'', hex_upper (n div 16), hex_upper (n mod 16)])"

text \<open>\<open>url.QueryEscape\<close>, and \<open>strings.ReplaceAll\<close> of one byte.\<close>

fun QueryEscape :: "string \<Rightarrow> string" where
  "QueryEscape [] = []"
| "QueryEscape (c # cs) =
     (if unreserved c then [c] else if c = CHR '' '' then ''+'' else percent c) @ QueryEscape cs"

definition ReplaceAll :: "string \<Rightarrow> char \<Rightarrow> string \<Rightarrow> string" where
  "ReplaceAll s c new = concat (map (\<lambda>x. if x = c then new else [x]) s)"

definition queryEscape :: "string \<Rightarrow> string" where
  "queryEscape query = ReplaceAll (QueryEscape query) (CHR ''+'') ''%20''"

section \<open>The scaler\<close>

record prometheusMetadata =
  ServerAddress :: string
  Query :: string
  Threshold :: f64
  UptimeFilter :: string

record prometheusScaler =
  metadata :: prometheusMetadata
  cooldownPeriod :: int

datatype jvalue = JNull | JString string | JOther

text \<open>An answer: the \<open>value\<close> lists of \<open>data.result\<close>, if the document has that field.\<close>

record promDocument =
  docResult :: "jvalue list list option"

datatype http_answer = NewRequestErr goerr | DoErr goerr | Answer int "promDocument result"

record prom_env =
  http_Get :: "string \<Rightarrow> http_answer"
  ParseFloat :: "string \<Rightarrow> f64 result"
  Unmarshal :: "string \<Rightarrow> prometheusMetadata result"
  time_RFC3339 :: string

type_synonym promQueryResponse = "jvalue list list"

definition executePromQuery ::
  "prom_env \<Rightarrow> prometheusScaler \<Rightarrow> string \<Rightarrow> promQueryResponse \<Rightarrow>
   ((f64 \<times> goerr option) \<times> promQueryResponse) go" where
  "executePromQuery E s query g =
     (let queryURL = ServerAddress (metadata s) @ ''/api/v1/query?query='' @ queryEscape query @
                     ''&time='' @ time_RFC3339 E
      in case http_Get E queryURL of
           NewRequestErr err \<Rightarrow> Ret ((Fin (-1), Some (Wrap ''failed to create HTTP request'' err)), g)
         | DoErr err \<Rightarrow> Ret ((Fin (-1), Some (Wrap ''failed to execute HTTP request'' err)), g)
         | Answer status doc \<Rightarrow>
             if status \<noteq> 200 then Ret ((Fin (-1), Some (Err ''unexpected HTTP status'')), g)
             else
               (case doc of
                  Inl err \<Rightarrow> Ret ((Fin (-1), Some (Wrap ''failed to decode Prometheus response'' err)), g)
                | Inr d \<Rightarrow>
                    let g' = (case docResult d of None \<Rightarrow> g | Some r \<Rightarrow> r)
                    in if length g' = 0 then Ret ((Fin (-1), Some (Err ''result is empty'')), g')
                       else if length g' > 1 then
                         Ret ((Fin (-1), Some (Err ''returned multiple elements'')), g')
                       else
                         let value = g' ! 0
                         in if length value = 0 then
                              Ret ((Fin (-1), Some (Err ''value list in result is empty'')), g')
                            else if length value < 2 then
                              Ret ((Fin (-1), Some (Err ''did not return enough values'')), g')
                            else
                              (case value ! 1 of
                                 JOther \<Rightarrow> Panic ''interface conversion: not a string''
                               | JNull \<Rightarrow> Ret ((Fin (-1), None), g')
                               | JString str \<Rightarrow>
                                   (case ParseFloat E str of
                                      Inl err \<Rightarrow>
                                        Ret ((Fin (-1), Some (Wrap ''failed to parse metric value'' err)), g')
                                    | Inr v \<Rightarrow>
                                        if IsInf v then
                                          Ret ((Fin (-1), Some (Err ''prometheus query returns infinity'')), g')
                                        else Ret ((v, None), g')))))"

definition ShouldScaleToZero ::
  "prom_env \<Rightarrow> prometheusScaler \<Rightarrow> promQueryResponse \<Rightarrow> ((bool \<times> goerr option) \<times> promQueryResponse) go" where
  "ShouldScaleToZero E s g =
     (case executePromQuery E s (Query (metadata s)) g of
        Panic m \<Rightarrow> Panic m
      | Ret ((v, Some err), g') \<Rightarrow> Ret ((False, Some (Wrap ''failed to execute prometheus query'' err)), g')
      | Ret ((metricValue, None), g') \<Rightarrow>
          if f64_eq metricValue (Fin (-1)) then Ret ((False, None), g')
          else if f64_less metricValue (Threshold (metadata s)) then Ret ((True, None), g')
          else Ret ((False, None), g'))"

definition ShouldScaleFromZero ::
  "prom_env \<Rightarrow> prometheusScaler \<Rightarrow> promQueryResponse \<Rightarrow> ((bool \<times> goerr option) \<times> promQueryResponse) go" where
  "ShouldScaleFromZero E s g =
     (case executePromQuery E s (Query (metadata s)) g of
        Panic m \<Rightarrow> Panic m
      | Ret ((v, Some err), g') \<Rightarrow> Ret ((True, Some (Wrap ''failed to execute prometheus query'' err)), g')
      | Ret ((metricValue, None), g') \<Rightarrow>
          if f64_eq metricValue (Fin (-1)) then Ret ((True, None), g')
          else if f64_ge metricValue (Threshold (metadata s)) then Ret ((True, None), g')
          else Ret ((False, None), g'))"

text \<open>Decimal digits, for \<open>%d\<close> of the number of seconds, which is not negative.\<close>

fun digits :: "nat \<Rightarrow> string" where
  "digits n = (if n < 10 then [char_of (48 + n)] else digits (n div 10) @ [char_of (48 + n mod 10)])"

declare digits.simps [simp del]

definition ceil_seconds :: "int \<Rightarrow> int" where
  "ceil_seconds d = - ((- d) div time_Second)"

definition defaultUptimeFilter :: string where
  "defaultUptimeFilter = ''container=\"prometheus\"''"

definition uptimeQuery :: "string \<Rightarrow> int \<Rightarrow> string" where
  "uptimeQuery uptimeFilter seconds =
     ''min_over_time((max(up{'' @ uptimeFilter @ ''}) or vector(0))['' @ digits (nat seconds) @ ''s:])''"

definition IsHealthy ::
  "prom_env \<Rightarrow> prometheusScaler \<Rightarrow> promQueryResponse \<Rightarrow> ((bool \<times> goerr option) \<times> promQueryResponse) go" where
  "IsHealthy E s g =
     (let uptimeFilter = (if UptimeFilter (metadata s) = '''' then defaultUptimeFilter
                          else UptimeFilter (metadata s));
          cooldownPeriodSeconds = ceil_seconds (cooldownPeriod s);
          finalUptimeQuery = uptimeQuery uptimeFilter cooldownPeriodSeconds
      in case executePromQuery E s finalUptimeQuery g of
           Panic m \<Rightarrow> Panic m
         | Ret ((v, Some err), g') \<Rightarrow> Ret ((False, Some (Wrap ''failed to execute prometheus query'' err)), g')
         | Ret ((metricValue, None), g') \<Rightarrow> Ret ((f64_eq metricValue (Fin 1), None), g'))"

definition parsePrometheusMetadata :: "prom_env \<Rightarrow> string \<Rightarrow> prometheusMetadata result" where
  "parsePrometheusMetadata E jsonMetadata =
     (case Unmarshal E jsonMetadata of
        Inl err \<Rightarrow> Inl (Wrap ''failed to parse metadata'' err)
      | Inr m \<Rightarrow> Inr m)"

text \<open>The methods of the interface \<open>Scaler\<close>; \<open>Close\<close> only drops idle connections.\<close>

type_synonym 'w scaler_call = "'w \<Rightarrow> ((bool \<times> goerr option) \<times> 'w) go"

record 'w Scaler =
  scaler_IsHealthy :: "'w scaler_call"
  scaler_ShouldScaleToZero :: "'w scaler_call"
  scaler_ShouldScaleFromZero :: "'w scaler_call"

definition NewPrometheusScaler ::
  "prom_env \<Rightarrow> string \<Rightarrow> int \<Rightarrow> promQueryResponse Scaler result" where
  "NewPrometheusScaler E md cooldown =
     (case parsePrometheusMetadata E md of
        Inl err \<Rightarrow> Inl (Wrap ''error creating prometheus scaler'' err)
      | Inr parsed \<Rightarrow>
          let s = \<lparr>metadata = parsed, cooldownPeriod = cooldown\<rparr>
          in Inr \<lparr>scaler_IsHealthy = IsHealthy E s, scaler_ShouldScaleToZero = ShouldScaleToZero E s,
                 scaler_ShouldScaleFromZero = ShouldScaleFromZero E s\<rparr>)"

section \<open>Escaping\<close>

text \<open>Percent-decoding, as the server does it.\<close>

definition unhex :: "char \<Rightarrow> nat" where
  "unhex c = (let n = (of_char c :: nat) in if n < 58 then n - 48 else n - 55)"

fun unescape :: "string \<Rightarrow> string" where
  "unescape (c # a # b # s) =
     (if c = CHR ''%'' then char_of (16 * unhex a + unhex b) # unescape s else c # unescape (a # b # s))"
| "unescape s = s"

definition escape_char :: "char \<Rightarrow> string" where
  "escape_char c = (if unreserved c then [c] else if c = CHR '' '' then ''%20'' else percent c)"

lemma of_hex_upper: "n < 16 \<Longrightarrow> (of_char (hex_upper n) :: nat) = (if n < 10 then 48 + n else 55 + n)"
  by (simp add: hex_upper_def)

lemma hex_upper_facts:
  assumes "n < 16"
  shows "unhex (hex_upper n) = n" "unreserved (hex_upper n)" "hex_upper n \<noteq> CHR ''+''"
proof -
  show "unhex (hex_upper n) = n" using of_hex_upper [OF assms] by (simp add: unhex_def)
  show u: "unreserved (hex_upper n)"
    unfolding unreserved_def Let_def of_hex_upper [OF assms] using assms by auto
  have "\<not> unreserved (CHR ''+'')" by (simp add: unreserved_def)
  with u show "hex_upper n \<noteq> CHR ''+''" by metis
qed

lemma nibbles: "(of_char c :: nat) div 16 < 16" "(of_char c :: nat) mod 16 < 16"
proof -
  have "(of_char c :: nat) < 16 * 16" by simp
  then show "(of_char c :: nat) div 16 < 16" by (rule less_mult_imp_div_less)
qed simp

lemma unescape_Cons: "c \<noteq> CHR ''%'' \<Longrightarrow> unescape (c # s) = c # unescape s"
  by (cases s rule: remdups_adj.cases) auto

lemma queryEscape_concat: "queryEscape q = concat (map escape_char q)"
proof (induction q)
  case Nil
  then show ?case by (simp add: queryEscape_def ReplaceAll_def)
next
  case (Cons c q)
  have "ReplaceAll (percent c) (CHR ''+'') ''%20'' = percent c"
    using hex_upper_facts(3) nibbles by (simp add: ReplaceAll_def percent_def Let_def)
  moreover have "unreserved c \<Longrightarrow> c \<noteq> CHR ''+''" by (auto simp: unreserved_def)
  ultimately show ?case
    using Cons by (auto simp: queryEscape_def ReplaceAll_def escape_char_def)
qed

lemma unescape_escape_char: "unescape (escape_char c @ s) = c # unescape s"
proof (cases "unreserved c")
  case True
  then have "c \<noteq> CHR ''%''" by (auto simp: unreserved_def)
  with True show ?thesis by (simp add: escape_char_def unescape_Cons)
next
  case False
  have "unescape (percent c @ s) = c # unescape s"
    using hex_upper_facts(1) nibbles by (simp add: percent_def Let_def)
  moreover have "percent (CHR '' '') = ''%20''" by code_simp
  ultimately show ?thesis using False by (auto simp: escape_char_def)
qed

lemma unescape_queryEscape: "unescape (queryEscape q) = q"
  unfolding queryEscape_concat by (induction q) (simp_all add: unescape_escape_char)

lemma set_queryEscape: "c \<in> set (queryEscape q) \<Longrightarrow> unreserved c \<or> c = CHR ''%''"
proof -
  have "unreserved x \<or> x = CHR ''%''" if "x \<in> set (escape_char c)" for x c
  proof -
    have "unreserved (CHR ''2'')" "unreserved (CHR ''0'')" by (simp_all add: unreserved_def)
    then show ?thesis
      using that hex_upper_facts(2) nibbles [of c]
      by (auto simp: escape_char_def percent_def Let_def split: if_splits)
  qed
  then show "c \<in> set (queryEscape q) \<Longrightarrow> unreserved c \<or> c = CHR ''%''"
    unfolding queryEscape_concat by auto
qed

section \<open>The contract of the interface\<close>

text \<open>
  An error never comes with the answer to scale to zero, and never with the answer that the
  service can stay at zero; and asked about the same state, the two questions never get
  contradictory answers.
\<close>

locale scaler =
  fixes is_healthy to_zero from_zero :: "'w scaler_call"
  assumes healthy_error: "is_healthy w = Ret ((b, Some e), w') \<Longrightarrow> \<not> b"
    and to_zero_error: "to_zero w = Ret ((b, Some e), w') \<Longrightarrow> \<not> b"
    and from_zero_error: "from_zero w = Ret ((b, Some e), w') \<Longrightarrow> b"
    and exclusive: "to_zero w = Ret ((True, None), w') \<Longrightarrow> \<exists>w''. from_zero w = Ret ((False, None), w'')"
begin

lemma to_zero_sound: "to_zero w = Ret ((True, e), w') \<Longrightarrow> e = None"
  by (cases e) (auto dest: to_zero_error)

lemma not_both: "to_zero w = Ret ((True, e), w') \<Longrightarrow> from_zero w = Ret ((b, e'), w'') \<Longrightarrow> \<not> b"
  using to_zero_sound exclusive by fastforce

end

lemma f64_ge_less: "f64_less x y \<Longrightarrow> \<not> f64_ge x y"
  by (cases x; cases y) (auto simp: f64_ge_def)

lemma prometheus_scaler:
  "scaler (IsHealthy E s) (ShouldScaleToZero E s) (ShouldScaleFromZero E s)"
proof
  fix w b e w'
  show "IsHealthy E s w = Ret ((b, Some e), w') \<Longrightarrow> \<not> b"
    by (auto simp: IsHealthy_def Let_def split: go.splits option.splits)
  show "ShouldScaleToZero E s w = Ret ((b, Some e), w') \<Longrightarrow> \<not> b"
    by (auto simp: ShouldScaleToZero_def split: go.splits option.splits if_splits)
  show "ShouldScaleFromZero E s w = Ret ((b, Some e), w') \<Longrightarrow> b"
    by (auto simp: ShouldScaleFromZero_def split: go.splits option.splits if_splits)
next
  fix w w'
  show "ShouldScaleToZero E s w = Ret ((True, None), w') \<Longrightarrow>
      \<exists>w''. ShouldScaleFromZero E s w = Ret ((False, None), w'')"
    by (auto simp: ShouldScaleToZero_def ShouldScaleFromZero_def f64_ge_less
        split: go.splits option.splits if_splits)
qed

interpretation prometheus: scaler "IsHealthy E s" "ShouldScaleToZero E s" "ShouldScaleFromZero E s" for E s
  by (rule prometheus_scaler)

text \<open>A value that is not a number is below no threshold.\<close>

lemma NaN_not_below: "\<not> f64_less NaN t \<and> \<not> f64_ge NaN t"
  by (simp add: f64_ge_def) (cases t; simp)

text \<open>
  The answer of a query: when the server sends exactly one sample whose value parses to a finite
  number, that number; \<open>single_sample\<close> says that it does.
\<close>

definition single_sample :: "prom_env \<Rightarrow> prometheusScaler \<Rightarrow> string \<Rightarrow> f64 \<Rightarrow> bool" where
  "single_sample E s query v =
     (\<exists>d t str. http_Get E (ServerAddress (metadata s) @ ''/api/v1/query?query='' @ queryEscape query @
             ''&time='' @ time_RFC3339 E) = Answer 200 (Inr d) \<and>
        docResult d = Some [[t, JString str]] \<and> ParseFloat E str = Inr v \<and> \<not> IsInf v)"

lemma executePromQuery_sample:
  "single_sample E s query v \<Longrightarrow> \<exists>g'. executePromQuery E s query g = Ret ((v, None), g')"
  by (auto simp: single_sample_def executePromQuery_def Let_def)

section \<open>Properties\<close>

text \<open>C33: an escaped query consists of characters that have no meaning in a URL, and decoding it
  gives the query back, blanks and plus signs included.\<close>

theorem queryEscape_roundtrip:
  "unescape (queryEscape q) = q \<and> filter (\<lambda>c. \<not> unreserved c \<and> c \<noteq> CHR ''%'') (queryEscape q) = []"
  using unescape_queryEscape set_queryEscape by (auto simp: filter_empty_conv)


definition example_metadata :: prometheusMetadata where
  "example_metadata = \<lparr>ServerAddress = ''http://prom'', Query = ''rps'', Threshold = Fin (1/2), UptimeFilter = ''''\<rparr>"

definition example_sample :: "string \<Rightarrow> http_answer" where
  "example_sample v = Answer 200 (Inr \<lparr>docResult = Some [[JOther, JString v]]\<rparr>)"

definition example_prom :: "f64 \<Rightarrow> prom_env" where
  "example_prom v =
     \<lparr>http_Get = (\<lambda>url. if url = ''http://prom/api/v1/query?query=rps&time=now''
                      then example_sample ''v'' else example_sample ''1''),
      ParseFloat = (\<lambda>str. Inr (if str = ''1'' then Fin 1 else v)),
      Unmarshal = (\<lambda>md. Inr example_metadata), time_RFC3339 = ''now''\<rparr>"

definition example_scaler :: prometheusScaler where
  "example_scaler = \<lparr>metadata = example_metadata, cooldownPeriod = DefaultCooldownPeriod\<rparr>"

lemmas example_prom_defs = example_metadata_def example_sample_def example_prom_def example_scaler_def

lemma queryEscape_rps: "queryEscape ''rps'' = ''rps''"
  by code_simp

lemma length_queryEscape: "length q \<le> length (queryEscape q)"
proof -
  have "1 \<le> length (escape_char c)" for c by (simp add: escape_char_def percent_def Let_def)
  then show ?thesis unfolding queryEscape_concat by (induction q) (simp_all add: add_le_mono [of 1, simplified])
qed

text \<open>The example server reports itself up, and the sample \<open>v\<close> for the trigger.\<close>

lemma example_quiet:
  assumes "metadata s = example_metadata"
  shows "\<exists>g1. IsHealthy (example_prom v) s g = Ret ((True, None), g1)"
    "\<exists>g2. ShouldScaleToZero (example_prom (Fin 0)) s g = Ret ((True, None), g2)"
proof -
  define q where "q = uptimeQuery defaultUptimeFilter (ceil_seconds (cooldownPeriod s))"
  have "3 < length q" by (simp add: q_def uptimeQuery_def)
  then have "queryEscape q \<noteq> ''rps''" using length_queryEscape [of q] by auto
  then have "queryEscape q @ ''&time=now'' \<noteq> ''rps&time=now''"
    using append_same_eq [of "queryEscape q" "''&time=now''" "''rps''"] by simp
  then have "single_sample (example_prom v) s q (Fin 1)"
    using assms by (simp add: single_sample_def example_prom_defs IsInf_def)
  then obtain g1 where "executePromQuery (example_prom v) s q g = Ret ((Fin 1, None), g1)"
    using executePromQuery_sample by blast
  then show "\<exists>g1. IsHealthy (example_prom v) s g = Ret ((True, None), g1)"
    using assms by (simp add: IsHealthy_def q_def example_metadata_def Let_def)
  have "single_sample (example_prom (Fin 0)) s (Query (metadata s)) (Fin 0)"
    using assms by (simp add: single_sample_def example_prom_defs queryEscape_rps IsInf_def)
  then obtain g2 where "executePromQuery (example_prom (Fin 0)) s (Query (metadata s)) g = Ret ((Fin 0, None), g2)"
    using executePromQuery_sample by blast
  then show "\<exists>g2. ShouldScaleToZero (example_prom (Fin 0)) s g = Ret ((True, None), g2)"
    using assms by (simp add: ShouldScaleToZero_def example_metadata_def)
qed


end
