(* ===== verification/ScaleHandler.thy ===== *)
theory ScaleHandler
  imports PrometheusScaler
begin

text \<open>
  \<open>pkg/scaling/scale_handler.go\<close>: the decision to scale and the scaling itself. The cluster state is
  threaded through the calls; \<open>now\<close> is the time of the call; \<open>promQueryResponse\<close> is the state of
  the Prometheus scaler. Each scaling of a target runs under a mutex for its service, so one call is
  one step. \<open>time.Time\<close> and \<open>time.Duration\<close> are nanoseconds. The locale \<open>scalable\<close> is the
  contract that the two kinds of targets share; \<open>target_replicas\<close> reads the replicas of either.
\<close>

section \<open>Deciding\<close>

datatype ScaleDirection = ScaleUp | ScaleDown | NoScale

definition resolveCooldownPeriod :: "ElastiService \<Rightarrow> int" where
  "resolveCooldownPeriod es =
     (let cooldown = wrap64 (time_Second * CooldownPeriod (Spec es))
      in if cooldown = 0 then DefaultCooldownPeriod else cooldown)"

definition createScalerForTrigger ::
  "prom_env \<Rightarrow> ScaleTrigger \<Rightarrow> int \<Rightarrow> promQueryResponse Scaler result" where
  "createScalerForTrigger E trigger cooldown =
     (if TriggerType trigger = ''prometheus'' then
        (case NewPrometheusScaler E (Metadata trigger) cooldown of
           Inl err \<Rightarrow> Inl (Wrap ''failed to create scaler'' err)
         | Inr sc \<Rightarrow> Inr sc)
      else Inl (Err ''unsupported trigger type''))"

text \<open>The loop over the triggers.\<close>

fun check_triggers ::
  "prom_env \<Rightarrow> int \<Rightarrow> ScaleTrigger list \<Rightarrow> promQueryResponse \<Rightarrow>
   (ScaleDirection result \<times> promQueryResponse) go" where
  "check_triggers E cooldown [] g = Ret (Inr ScaleDown, g)"
| "check_triggers E cooldown (trigger # triggers) g =
     (case createScalerForTrigger E trigger cooldown of
        Inl err \<Rightarrow> Ret (Inl (Wrap ''failed to create scaler'' err), g)
      | Inr sc \<Rightarrow>
          (case scaler_IsHealthy sc g of
             Panic m \<Rightarrow> Panic m
           | Ret ((healthy, Some err), g1) \<Rightarrow> Ret (Inr NoScale, g1)
           | Ret ((healthy, None), g1) \<Rightarrow>
               if \<not> healthy then Ret (Inl (Err ''scaler is not healthy''), g1)
               else
                 (case scaler_ShouldScaleToZero sc g1 of
                    Panic m \<Rightarrow> Panic m
                  | Ret ((scaleToZero, Some err), g2) \<Rightarrow>
                      Ret (Inl (Wrap ''failed to check scaler'' err), g2)
                  | Ret ((scaleToZero, None), g2) \<Rightarrow>
                      if \<not> scaleToZero then Ret (Inr ScaleUp, g2)
                      else check_triggers E cooldown triggers g2)))"

definition calculateScaleDirection ::
  "prom_env \<Rightarrow> int \<Rightarrow> int \<Rightarrow> ElastiService \<Rightarrow> promQueryResponse \<Rightarrow>
   (ScaleDirection result \<times> promQueryResponse) go" where
  "calculateScaleDirection E now cooldown es g =
     (if length (Triggers (Spec es)) = 0 then Ret (Inl (Err ''no triggers found''), g)
      else if CreationTimestamp es + cooldown > now then Ret (Inr NoScale, g)
      else check_triggers E cooldown (Triggers (Spec es)) g)"

section \<open>Scaling\<close>

definition createEvent :: "'c K8s \<Rightarrow> 'c \<Rightarrow> string \<Rightarrow> string \<Rightarrow> string \<Rightarrow> string \<Rightarrow> 'c" where
  "createEvent K c namespace name eventType reason =
     record_event K c ((namespace, name), eventType, reason)"

text \<open>The log call at the start dereferences \<open>Spec.Replicas\<close> before it is compared with \<open>nil\<close>.\<close>

definition ScaleDeployment ::
  "'c K8s \<Rightarrow> 'c \<Rightarrow> string \<Rightarrow> string \<Rightarrow> int \<Rightarrow> ((bool \<times> goerr option) \<times> 'c) go" where
  "ScaleDeployment K c namespace targetName replicas =
     (case get_deployment K c namespace targetName of
        Inl err \<Rightarrow> Ret ((False, Some (Wrap ''ScaleDeployment - GET'' err)), c)
      | Inr deploy \<Rightarrow>
          (case SpecReplicas deploy of
             None \<Rightarrow> Panic ''invalid memory address or nil pointer dereference''
           | Some current \<Rightarrow>
               if current = replicas then Ret ((False, None), c)
               else if replicas > 0 \<and> current > replicas then Ret ((False, None), c)
               else
                 (case patch_deployment K c namespace targetName replicas of
                    (Some err, c') \<Rightarrow> Ret ((False, Some (Wrap ''ScaleDeployment - Patch'' err)), c')
                  | (None, c') \<Rightarrow> Ret ((True, None), c'))))"

definition ScaleArgoRollout ::
  "'c K8s \<Rightarrow> 'c \<Rightarrow> string \<Rightarrow> string \<Rightarrow> int \<Rightarrow> ((bool \<times> goerr option) \<times> 'c) go" where
  "ScaleArgoRollout K c namespace targetName replicas =
     (case get_rollout K c namespace targetName of
        Inl err \<Rightarrow> Ret ((False, Some (Wrap ''ScaleArgoRollout - GET'' err)), c)
      | Inr rollout \<Rightarrow>
          (case RolloutSpec rollout of
             NoSpec \<Rightarrow> Ret ((False, Some (Err ''ScaleArgoRollout - no replicas found'')), c)
           | SpecNotMap \<Rightarrow> Panic ''interface conversion: not a map''
           | SpecMap UNil \<Rightarrow> Ret ((False, Some (Err ''ScaleArgoRollout - no replicas found'')), c)
           | SpecMap UOther \<Rightarrow> Panic ''interface conversion: not an int64''
           | SpecMap (UInt64 currentReplicas) \<Rightarrow>
               if currentReplicas = replicas then Ret ((False, None), c)
               else if replicas > 0 \<and> currentReplicas > replicas then Ret ((False, None), c)
               else
                 (case patch_rollout K c namespace targetName replicas of
                    (Some err, c') \<Rightarrow> Ret ((False, Some (Wrap ''ScaleArgoRollout - Patch'' err)), c')
                  | (None, c') \<Rightarrow> Ret ((True, None), c'))))"

definition ScaleTargetFromZero ::
  "'c K8s \<Rightarrow> 'c \<Rightarrow> string \<Rightarrow> string \<Rightarrow> string \<Rightarrow> int \<Rightarrow> string \<Rightarrow> (goerr option \<times> 'c) go" where
  "ScaleTargetFromZero K c namespace targetKind targetName replicas elastiServiceName =
     (if ToLower targetKind \<noteq> KindDeployments \<and> ToLower targetKind \<noteq> KindRollout then
        Ret (Some (Err ''unsupported target kind''), c)
      else
        (case (if ToLower targetKind = KindDeployments
               then ScaleDeployment K c namespace targetName replicas
               else ScaleArgoRollout K c namespace targetName replicas) of
           Panic m \<Rightarrow> Panic m
         | Ret ((scaled, Some err), c') \<Rightarrow>
             Ret (Some (Wrap ''ScaleTargetFromZero'' err),
                  createEvent K c' namespace elastiServiceName ''Warning'' ''ScaleFromZeroFailed'')
         | Ret ((scaled, None), c') \<Rightarrow>
             if \<not> scaled then Ret (None, c')
             else Ret (None, createEvent K c' namespace elastiServiceName ''Normal'' ''ScaledUpFromZero'')))"

definition ScaleTargetToZero ::
  "'c K8s \<Rightarrow> 'c \<Rightarrow> string \<Rightarrow> string \<Rightarrow> string \<Rightarrow> string \<Rightarrow> (goerr option \<times> 'c) go" where
  "ScaleTargetToZero K c namespace targetKind targetName elastiServiceName =
     (if ToLower targetKind \<noteq> KindDeployments \<and> ToLower targetKind \<noteq> KindRollout then
        Ret (Some (Err ''unsupported target kind''), c)
      else
        (case (if ToLower targetKind = KindDeployments
               then ScaleDeployment K c namespace targetName 0
               else ScaleArgoRollout K c namespace targetName 0) of
           Panic m \<Rightarrow> Panic m
         | Ret ((scaled, Some err), c') \<Rightarrow>
             Ret (Some (Wrap ''ScaleTargetToZero'' err),
                  createEvent K c' namespace elastiServiceName ''Warning'' ''ScaleToZeroFailed'')
         | Ret ((scaled, None), c') \<Rightarrow>
             if \<not> scaled then Ret (None, c')
             else Ret (None, createEvent K c' namespace elastiServiceName ''Normal'' ''ScaledDownToZero'')))"

definition kedaPausedAnnotation :: string where
  "kedaPausedAnnotation = ''autoscaling.keda.sh/paused''"

definition kedaPausedReplicasAnnotation :: string where
  "kedaPausedReplicasAnnotation = ''autoscaling.keda.sh/paused-replicas''"

definition UpdateKedaScaledObjectPausedState ::
  "'c K8s \<Rightarrow> 'c \<Rightarrow> string \<Rightarrow> string \<Rightarrow> bool \<Rightarrow> goerr option \<times> 'c" where
  "UpdateKedaScaledObjectPausedState K c scaledObjectName namespace paused =
     (let annotations =
            (if paused
             then [(kedaPausedAnnotation, Some ''true''), (kedaPausedReplicasAnnotation, Some ''0'')]
             else [(kedaPausedAnnotation, Some ''false''), (kedaPausedReplicasAnnotation, None)])
      in case patch_scaledobject K c namespace scaledObjectName annotations of
           (Some err, c') \<Rightarrow> (Some (Wrap ''failed to patch ScaledObject'' err), c')
         | (None, c') \<Rightarrow> (None, c'))"

definition UpdateLastScaledUpTime :: "'c K8s \<Rightarrow> int \<Rightarrow> 'c \<Rightarrow> string \<Rightarrow> string \<Rightarrow> goerr option \<times> 'c" where
  "UpdateLastScaledUpTime K now c crdName namespace =
     (case patch_status K c namespace crdName (\<lambda>st. st\<lparr>LastScaledUpTime := Some now\<rparr>) of
        (Some err, c') \<Rightarrow> (Some (Wrap ''failed to patch ElastiService status'' err), c')
      | (None, c') \<Rightarrow> (None, c'))"

definition uses_keda :: "ElastiServiceSpec \<Rightarrow> AutoscalerSpec option" where
  "uses_keda spec =
     (case Autoscaler spec of
        None \<Rightarrow> None
      | Some a \<Rightarrow> if ToLower (AutoscalerType a) = ''keda'' then Some a else None)"

definition handleScaleToZero ::
  "'c K8s \<Rightarrow> int \<Rightarrow> 'c \<Rightarrow> int \<Rightarrow> ElastiService \<Rightarrow> (goerr option \<times> 'c) go" where
  "handleScaleToZero K now c cooldown es =
     (if (case LastScaledUpTime (Status es) of None \<Rightarrow> False | Some t \<Rightarrow> now - t < cooldown)
      then Ret (None, c)
      else
        (case (case uses_keda (Spec es) of
                 Some a \<Rightarrow> UpdateKedaScaledObjectPausedState K c (AutoscalerName a) (ES_Namespace es) True
               | None \<Rightarrow> (None, c)) of
           (Some err, c1) \<Rightarrow> Ret (Some (Wrap ''failed to update Keda ScaledObject'' err), c1)
         | (None, c1) \<Rightarrow>
             (case ScaleTargetToZero K c1 (ES_Namespace es) (Kind (TargetRef (Spec es)))
                     (TargetRefName (TargetRef (Spec es))) (ES_Name es) of
                Panic m \<Rightarrow> Panic m
              | Ret (Some err, c2) \<Rightarrow> Ret (Some (Wrap ''failed to scale target to zero'' err), c2)
              | Ret (None, c2) \<Rightarrow> Ret (None, c2))))"

definition handleScaleFromZero ::
  "'c K8s \<Rightarrow> int \<Rightarrow> 'c \<Rightarrow> ElastiService \<Rightarrow> (goerr option \<times> 'c) go" where
  "handleScaleFromZero K now c es =
     (let c0 = snd (UpdateLastScaledUpTime K now c (ES_Name es) (ES_Namespace es))
      in case (case uses_keda (Spec es) of
                 Some a \<Rightarrow> UpdateKedaScaledObjectPausedState K c0 (AutoscalerName a) (ES_Namespace es) False
               | None \<Rightarrow> (None, c0)) of
           (Some err, c1) \<Rightarrow> Ret (Some (Wrap ''failed to update Keda ScaledObject'' err), c1)
         | (None, c1) \<Rightarrow>
             (case ScaleTargetFromZero K c1 (ES_Namespace es) (Kind (TargetRef (Spec es)))
                     (TargetRefName (TargetRef (Spec es))) (MinTargetReplicas (Spec es)) (ES_Name es) of
                Panic m \<Rightarrow> Panic m
              | Ret (Some err, c2) \<Rightarrow> Ret (Some (Wrap ''failed to scale target from zero'' err), c2)
              | Ret (None, c2) \<Rightarrow> Ret (None, c2)))"

text \<open>One item of the listing; every error is logged and the loop goes on.\<close>

definition check_item ::
  "'c K8s \<Rightarrow> prom_env \<Rightarrow> int \<Rightarrow> ElastiService result \<Rightarrow> 'c \<times> promQueryResponse \<Rightarrow>
   ('c \<times> promQueryResponse) go" where
  "check_item K E now item = (\<lambda>(c, g).
     (case item of
        Inl err \<Rightarrow> Ret (c, g)
      | Inr es \<Rightarrow>
          let cooldown = resolveCooldownPeriod es
          in case calculateScaleDirection E now cooldown es g of
               Panic m \<Rightarrow> Panic m
             | Ret (Inl err, g') \<Rightarrow> Ret (c, g')
             | Ret (Inr direction, g') \<Rightarrow>
                 (case direction of
                    NoScale \<Rightarrow> Ret (c, g')
                  | ScaleDown \<Rightarrow>
                      (case handleScaleToZero K now c cooldown es of
                         Panic m \<Rightarrow> Panic m | Ret (err, c') \<Rightarrow> Ret (c', g'))
                  | ScaleUp \<Rightarrow>
                      (case handleScaleFromZero K now c es of
                         Panic m \<Rightarrow> Panic m | Ret (err, c') \<Rightarrow> Ret (c', g')))))"

fun check_items ::
  "'c K8s \<Rightarrow> prom_env \<Rightarrow> int \<Rightarrow> ElastiService result list \<Rightarrow> 'c \<times> promQueryResponse \<Rightarrow>
   ('c \<times> promQueryResponse) go" where
  "check_items K E now [] s = Ret s"
| "check_items K E now (item # items) s =
     (case check_item K E now item s of Panic m \<Rightarrow> Panic m | Ret s' \<Rightarrow> check_items K E now items s')"

definition checkAndScale ::
  "'c K8s \<Rightarrow> prom_env \<Rightarrow> int \<Rightarrow> string \<Rightarrow> 'c \<times> promQueryResponse \<Rightarrow>
   (goerr option \<times> 'c \<times> promQueryResponse) go" where
  "checkAndScale K E now watchNamespace s =
     (case list_es_dynamic K (fst s) watchNamespace of
        Inl err \<Rightarrow> Ret (Some (Wrap ''failed to list ElastiServices'' err), s)
      | Inr items \<Rightarrow>
          (case check_items K E now items s of
             Panic m \<Rightarrow> Panic m | Ret s' \<Rightarrow> Ret (None, s')))"

section \<open>The contract of a scalable target\<close>

text \<open>
  A call that reports success found the number of replicas and left it at the requested one, unless
  more than a positive requested number were running already; it reports whether it changed it.
  A call that reports an error changed nothing.
\<close>

locale scalable =
  fixes scale :: "'c K8s \<Rightarrow> 'c \<Rightarrow> string \<Rightarrow> string \<Rightarrow> int \<Rightarrow> ((bool \<times> goerr option) \<times> 'c) go"
    and replicas_of :: "Cluster \<Rightarrow> string \<Rightarrow> string \<Rightarrow> int option"
    and set_replicas :: "string \<Rightarrow> string \<Rightarrow> int \<Rightarrow> Cluster \<Rightarrow> Cluster"
  assumes scale_ok: "k8s_laws K view \<Longrightarrow> scale K c ns n r = Ret ((b, None), c') \<Longrightarrow>
      \<exists>old. replicas_of (view c) ns n = Some old \<and> b = (old \<noteq> r \<and> \<not> (0 < r \<and> r < old)) \<and>
        view c' = (if b then set_replicas ns n r (view c) else view c)"
    and scale_err: "k8s_laws K view \<Longrightarrow> scale K c ns n r = Ret ((b, Some e), c') \<Longrightarrow>
      \<not> b \<and> view c' = view c"
    and set_same: "replicas_of m ns n \<noteq> None \<Longrightarrow> replicas_of (set_replicas ns n r m) ns n = Some r"
    and set_other: "(ns', n') \<noteq> (ns, n) \<Longrightarrow> replicas_of (set_replicas ns n r m) ns' n' = replicas_of m ns' n'"
begin

lemma scaled_replicas:
  assumes "k8s_laws K view" "scale K c ns n r = Ret ((b, None), c')" "0 \<le> r"
  shows "\<exists>old. replicas_of (view c) ns n = Some old \<and>
    replicas_of (view c') ns n = Some (if r = 0 then 0 else max old r) \<and>
    b = (replicas_of (view c') ns n \<noteq> replicas_of (view c) ns n)"
proof -
  from scale_ok [OF assms(1,2)] obtain old where old: "replicas_of (view c) ns n = Some old"
    "b = (old \<noteq> r \<and> \<not> (0 < r \<and> r < old))"
    "view c' = (if b then set_replicas ns n r (view c) else view c)" by blast
  then show ?thesis using set_same [of "view c" ns n r] assms(3) by (auto simp: max_def)
qed

lemma scaled_frame:
  assumes "k8s_laws K view" "scale K c ns n r = Ret ((b, e), c')" "(ns', n') \<noteq> (ns, n)"
  shows "replicas_of (view c') ns' n' = replicas_of (view c) ns' n'"
proof (cases e)
  case None
  with scale_ok [OF assms(1)] assms(2) obtain old where
    "view c' = (if b then set_replicas ns n r (view c) else view c)" by blast
  then show ?thesis using set_other [OF assms(3)] by simp
next
  case (Some err)
  with scale_err [OF assms(1)] assms(2) show ?thesis by auto
qed

end

definition deployment_replicas :: "Cluster \<Rightarrow> string \<Rightarrow> string \<Rightarrow> int option" where
  "deployment_replicas m ns n = (case C_deps m (ns, n) of None \<Rightarrow> None | Some d \<Rightarrow> SpecReplicas d)"

definition rollout_replicas :: "Cluster \<Rightarrow> string \<Rightarrow> string \<Rightarrow> int option" where
  "rollout_replicas m ns n =
     (case C_ros m (ns, n) of
        None \<Rightarrow> None
      | Some r \<Rightarrow> (case RolloutSpec r of SpecMap (UInt64 x) \<Rightarrow> Some x | _ \<Rightarrow> None))"

lemma deployment_scalable: "scalable ScaleDeployment deployment_replicas patch_dep"
proof
  fix K :: "'c K8s" and view c ns n r b c'
  assume "k8s_laws K view" "ScaleDeployment K c ns n r = Ret ((b, None), c')"
  with k8s_lawsD(12) [OF this(1), of c ns n] k8s_lawsD(13) [OF this(1), of c ns n r]
  show "\<exists>old. deployment_replicas (view c) ns n = Some old \<and> b = (old \<noteq> r \<and> \<not> (0 < r \<and> r < old)) \<and>
      view c' = (if b then patch_dep ns n r (view c) else view c)"
    by (auto simp: ScaleDeployment_def deployment_replicas_def k8s_simps
        split: sum.splits option.splits if_splits prod.splits)
next
  fix K :: "'c K8s" and view c ns n r b e c'
  assume "k8s_laws K view" "ScaleDeployment K c ns n r = Ret ((b, Some e), c')"
  with k8s_lawsD(13) [OF this(1), of c ns n r] show "\<not> b \<and> view c' = view c"
    by (auto simp: ScaleDeployment_def k8s_simps split: sum.splits option.splits if_splits prod.splits)
qed (auto simp: deployment_replicas_def patch_dep_def split: option.splits)

lemma rollout_scalable: "scalable ScaleArgoRollout rollout_replicas patch_ro"
proof
  fix K :: "'c K8s" and view c ns n r b c'
  assume "k8s_laws K view" "ScaleArgoRollout K c ns n r = Ret ((b, None), c')"
  with k8s_lawsD(14) [OF this(1), of c ns n] k8s_lawsD(15) [OF this(1), of c ns n r]
  show "\<exists>old. rollout_replicas (view c) ns n = Some old \<and> b = (old \<noteq> r \<and> \<not> (0 < r \<and> r < old)) \<and>
      view c' = (if b then patch_ro ns n r (view c) else view c)"
    by (auto simp: ScaleArgoRollout_def rollout_replicas_def k8s_simps
        split: sum.splits option.splits if_splits prod.splits uspec.splits uvalue.splits)
next
  fix K :: "'c K8s" and view c ns n r b e c'
  assume "k8s_laws K view" "ScaleArgoRollout K c ns n r = Ret ((b, Some e), c')"
  with k8s_lawsD(15) [OF this(1), of c ns n r] show "\<not> b \<and> view c' = view c"
    by (auto simp: ScaleArgoRollout_def k8s_simps
        split: sum.splits option.splits if_splits prod.splits uspec.splits uvalue.splits)
qed (auto simp: rollout_replicas_def patch_ro_def split: option.splits)

interpretation deployments: scalable ScaleDeployment deployment_replicas patch_dep
  by (rule deployment_scalable)

interpretation rollouts: scalable ScaleArgoRollout rollout_replicas patch_ro
  by (rule rollout_scalable)

section \<open>Targets of either kind\<close>

definition target_replicas :: "string \<Rightarrow> Cluster \<Rightarrow> string \<Rightarrow> string \<Rightarrow> int option" where
  "target_replicas kind m ns n =
     (if ToLower kind = KindDeployments then deployment_replicas m ns n
      else if ToLower kind = KindRollout then rollout_replicas m ns n else None)"

lemma target_replicas_event [simp]:
  "target_replicas kind (add_event e m) ns n = target_replicas kind m ns n"
  by (simp add: target_replicas_def deployment_replicas_def rollout_replicas_def add_event_def)

lemma view_createEvent:
  "k8s_laws K view \<Longrightarrow> view (createEvent K c ns n t r) = add_event ((ns, n), t, r) (view c)"
  by (simp add: createEvent_def k8s_lawsD(17))

lemma kinds_distinct [simp]: "KindDeployments \<noteq> KindRollout"
  by (simp add: values_defs)

definition scale_target ::
  "'c K8s \<Rightarrow> string \<Rightarrow> 'c \<Rightarrow> string \<Rightarrow> string \<Rightarrow> int \<Rightarrow> ((bool \<times> goerr option) \<times> 'c) go" where
  "scale_target K kind c ns n r =
     (if ToLower kind = KindDeployments then ScaleDeployment K c ns n r else ScaleArgoRollout K c ns n r)"

lemma scale_target_ok:
  assumes "k8s_laws K view" "ToLower kind = KindDeployments \<or> ToLower kind = KindRollout"
    and "scale_target K kind c ns n r = Ret ((b, None), c')" "0 \<le> r"
  shows "\<exists>old. target_replicas kind (view c) ns n = Some old \<and>
    target_replicas kind (view c') ns n = Some (if r = 0 then 0 else max old r) \<and>
    b = (target_replicas kind (view c') ns n \<noteq> target_replicas kind (view c) ns n)"
proof (cases "ToLower kind = KindDeployments")
  case True
  then have "ScaleDeployment K c ns n r = Ret ((b, None), c')" using assms(3) by (simp add: scale_target_def)
  moreover have eq: "target_replicas kind = deployment_replicas"
    using True by (simp add: fun_eq_iff target_replicas_def)
  ultimately show ?thesis unfolding eq using deployments.scaled_replicas [OF assms(1) _ assms(4)] by blast
next
  case False
  then have k: "ToLower kind = KindRollout" using assms(2) by simp
  have "ScaleArgoRollout K c ns n r = Ret ((b, None), c')"
    using assms(3) False by (simp add: scale_target_def)
  moreover have eq: "target_replicas kind = rollout_replicas"
    using False k by (simp add: fun_eq_iff target_replicas_def)
  ultimately show ?thesis unfolding eq using rollouts.scaled_replicas [OF assms(1) _ assms(4)] by blast
qed

lemma ScaleTargetFromZero_ok:
  assumes "ScaleTargetFromZero K c ns kind target r es = Ret (None, c')"
  shows "(ToLower kind = KindDeployments \<or> ToLower kind = KindRollout) \<and>
    (\<exists>b c1. scale_target K kind c ns target r = Ret ((b, None), c1) \<and>
      c' = (if b then createEvent K c1 ns es ''Normal'' ''ScaledUpFromZero'' else c1))"
proof (cases "scale_target K kind c ns target r")
  case (Panic m)
  with assms show ?thesis by (simp add: ScaleTargetFromZero_def scale_target_def [symmetric] split: if_splits)
next
  case (Ret x)
  obtain b err c1 where "x = ((b, err), c1)" by (cases x) auto
  with Ret assms show ?thesis
    by (cases err) (auto simp: ScaleTargetFromZero_def scale_target_def [symmetric] split: if_splits)
qed

lemma ScaleTargetToZero_ok:
  assumes "ScaleTargetToZero K c ns kind target es = Ret (None, c')"
  shows "(ToLower kind = KindDeployments \<or> ToLower kind = KindRollout) \<and>
    (\<exists>b c1. scale_target K kind c ns target 0 = Ret ((b, None), c1) \<and>
      c' = (if b then createEvent K c1 ns es ''Normal'' ''ScaledDownToZero'' else c1))"
proof (cases "scale_target K kind c ns target 0")
  case (Panic m)
  with assms show ?thesis by (simp add: ScaleTargetToZero_def scale_target_def [symmetric] split: if_splits)
next
  case (Ret x)
  obtain b err c1 where "x = ((b, err), c1)" by (cases x) auto
  with Ret assms show ?thesis
    by (cases err) (auto simp: ScaleTargetToZero_def scale_target_def [symmetric] split: if_splits)
qed

lemma from_zero_replicas:
  assumes "k8s_laws K view" "ScaleTargetFromZero K c ns kind target r es = Ret (None, c')" "0 \<le> r"
  shows "\<exists>old. target_replicas kind (view c) ns target = Some old \<and>
    target_replicas kind (view c') ns target = Some (if r = 0 then 0 else max old r)"
proof -
  from ScaleTargetFromZero_ok [OF assms(2)] obtain b c1 where
    k: "ToLower kind = KindDeployments \<or> ToLower kind = KindRollout"
    and s: "scale_target K kind c ns target r = Ret ((b, None), c1)"
    and c': "c' = (if b then createEvent K c1 ns es ''Normal'' ''ScaledUpFromZero'' else c1)" by blast
  have "target_replicas kind (view c') ns target = target_replicas kind (view c1) ns target"
    using view_createEvent [OF assms(1)] by (simp add: c')
  with scale_target_ok [OF assms(1) k s assms(3)] show ?thesis by auto
qed

lemma to_zero_replicas:
  assumes "k8s_laws K view" "ScaleTargetToZero K c ns kind target es = Ret (None, c')"
  shows "target_replicas kind (view c') ns target = Some 0"
proof -
  from ScaleTargetToZero_ok [OF assms(2)] obtain b c1 where
    k: "ToLower kind = KindDeployments \<or> ToLower kind = KindRollout"
    and s: "scale_target K kind c ns target 0 = Ret ((b, None), c1)"
    and c': "c' = (if b then createEvent K c1 ns es ''Normal'' ''ScaledDownToZero'' else c1)" by blast
  have "target_replicas kind (view c') ns target = target_replicas kind (view c1) ns target"
    using view_createEvent [OF assms(1)] by (simp add: c')
  with scale_target_ok [OF assms(1) k s] show ?thesis by auto
qed

section \<open>Reading the decision\<close>

text \<open>A trigger that was healthy and asked for zero.\<close>

definition quiet_trigger :: "prom_env \<Rightarrow> int \<Rightarrow> ScaleTrigger \<Rightarrow> bool" where
  "quiet_trigger E cooldown trigger =
     (\<exists>sc g g1 g2. createScalerForTrigger E trigger cooldown = Inr sc \<and>
        scaler_IsHealthy sc g = Ret ((True, None), g1) \<and>
        scaler_ShouldScaleToZero sc g1 = Ret ((True, None), g2))"

lemma check_triggers_down:
  "check_triggers E cooldown triggers g = Ret (Inr ScaleDown, g') \<Longrightarrow>
   list_all (quiet_trigger E cooldown) triggers"
proof (induction triggers arbitrary: g)
  case Nil
  then show ?case by simp
next
  case (Cons tr triggers)
  from Cons.prems obtain sc g1 g2 where "createScalerForTrigger E tr cooldown = Inr sc"
    "scaler_IsHealthy sc g = Ret ((True, None), g1)" "scaler_ShouldScaleToZero sc g1 = Ret ((True, None), g2)"
    and rest: "check_triggers E cooldown triggers g2 = Ret (Inr ScaleDown, g')"
    by (auto split: sum.splits go.splits option.splits if_splits prod.splits)
  then have "quiet_trigger E cooldown tr" unfolding quiet_trigger_def by blast
  with Cons.IH [OF rest] show ?case by simp
qed

lemma calculate_down:
  assumes "calculateScaleDirection E now cooldown es g = Ret (Inr ScaleDown, g')"
  shows "Triggers (Spec es) \<noteq> [] \<and> CreationTimestamp es + cooldown \<le> now \<and>
    list_all (quiet_trigger E cooldown) (Triggers (Spec es))"
  using assms check_triggers_down [of E cooldown "Triggers (Spec es)" g g']
  by (auto simp: calculateScaleDirection_def split: if_splits)

section \<open>What the handlers leave of a target\<close>

text \<open>Patches of other resources do not touch the replicas.\<close>

lemma target_replicas_patches [simp]:
  "target_replicas kind (patch_es_status ns' n' f m) ns n = target_replicas kind m ns n"
  "target_replicas kind (patch_so ns' n' as m) ns n = target_replicas kind m ns n"
  by (simp_all add: target_replicas_def deployment_replicas_def rollout_replicas_def
      patch_es_status_def patch_so_def)

lemma view_UpdateLastScaledUpTime:
  assumes "k8s_laws K view" "UpdateLastScaledUpTime K now c crd ns = (e, c')"
  shows "view c' = (if e = None
    then patch_es_status ns crd (\<lambda>st. st\<lparr>LastScaledUpTime := Some now\<rparr>) (view c) else view c)"
  using assms k8s_lawsD(11) [OF assms(1), of c ns crd "\<lambda>st. st\<lparr>LastScaledUpTime := Some now\<rparr>"]
  by (auto simp: UpdateLastScaledUpTime_def k8s_simps split: prod.splits option.splits)

lemma view_UpdateKeda:
  assumes "k8s_laws K view" "UpdateKedaScaledObjectPausedState K c so ns paused = (e, c')"
  shows "view c' = (if e = None then patch_so ns so
      (if paused then [(kedaPausedAnnotation, Some ''true''), (kedaPausedReplicasAnnotation, Some ''0'')]
       else [(kedaPausedAnnotation, Some ''false''), (kedaPausedReplicasAnnotation, None)]) (view c)
    else view c)"
proof -
  define as where "as = (if paused
    then [(kedaPausedAnnotation, Some ''true''), (kedaPausedReplicasAnnotation, Some ''0'')]
    else [(kedaPausedAnnotation, Some ''false''), (kedaPausedReplicasAnnotation, None)])"
  have "(case patch_scaledobject K c ns so as of
      (Some err, c') \<Rightarrow> (Some (Wrap ''failed to patch ScaledObject'' err), c') | (None, c') \<Rightarrow> (None, c')) = (e, c')"
    using assms(2) by (simp only: UpdateKedaScaledObjectPausedState_def Let_def as_def)
  with k8s_lawsD(16) [OF assms(1), of c ns so as] show ?thesis
    unfolding as_def [symmetric] by (auto simp: applies_def split: prod.splits option.splits)
qed

lemma scale_target_err:
  assumes "k8s_laws K view" "scale_target K kind c ns n r = Ret ((b, Some e), c')"
  shows "view c' = view c"
  using assms deployments.scale_err [OF assms(1)] rollouts.scale_err [OF assms(1)]
  by (auto simp: scale_target_def split: if_splits)

lemma from_zero_error_replicas:
  assumes "k8s_laws K view" "ScaleTargetFromZero K c ns kind target r es = Ret (Some e, c')"
  shows "target_replicas k (view c') ns' n' = target_replicas k (view c) ns' n'"
proof -
  from assms(2) consider "c' = c"
    | b e' c1 where "scale_target K kind c ns target r = Ret ((b, Some e'), c1)"
      "c' = createEvent K c1 ns es ''Warning'' ''ScaleFromZeroFailed''"
    by (auto simp: ScaleTargetFromZero_def scale_target_def split: if_splits go.splits option.splits)
  then show ?thesis
    by cases (simp_all add: view_createEvent [OF assms(1)] scale_target_err [OF assms(1)])
qed

lemma from_zero_keeps_positive:
  assumes "k8s_laws K view" "ScaleTargetFromZero K c ns kind target r es = Ret (e, c')" "0 < r"
    and "target_replicas kind (view c) ns target = Some old"
  shows "target_replicas kind (view c') ns target = Some old \<or>
    target_replicas kind (view c') ns target = Some (max old r)"
proof (cases e)
  case None
  with from_zero_replicas [OF assms(1)] assms(2,3,4) show ?thesis by fastforce
next
  case (Some err)
  with from_zero_error_replicas [OF assms(1)] assms(2,4) show ?thesis by metis
qed

lemma handleScaleFromZero_keeps:
  assumes laws: "k8s_laws K view" and run: "handleScaleFromZero K now c es = Ret (e, c')"
    and "0 < MinTargetReplicas (Spec es)"
    and old: "target_replicas (Kind (TargetRef (Spec es))) (view c) (ES_Namespace es)
        (TargetRefName (TargetRef (Spec es))) = Some old"
  shows "\<exists>new. target_replicas (Kind (TargetRef (Spec es))) (view c') (ES_Namespace es)
        (TargetRefName (TargetRef (Spec es))) = Some new \<and>
    (new = old \<or> new = max old (MinTargetReplicas (Spec es)))"
proof -
  let ?tr = "\<lambda>c. target_replicas (Kind (TargetRef (Spec es))) (view c) (ES_Namespace es)
        (TargetRefName (TargetRef (Spec es)))"
  obtain e0 c0 where c0: "UpdateLastScaledUpTime K now c (ES_Name es) (ES_Namespace es) = (e0, c0)" by fastforce
  have t0: "?tr c0 = ?tr c" using view_UpdateLastScaledUpTime [OF laws c0] by simp
  obtain e1 c1 where c1: "(case uses_keda (Spec es) of
      Some a \<Rightarrow> UpdateKedaScaledObjectPausedState K c0 (AutoscalerName a) (ES_Namespace es) False
    | None \<Rightarrow> (None, c0)) = (e1, c1)" by fastforce
  have t1: "?tr c1 = ?tr c0"
    using c1 view_UpdateKeda [OF laws, of c0] by (auto split: option.splits)
  show ?thesis
  proof (cases e1)
    case (Some err)
    then have "c' = c1" using run c0 c1 by (simp add: handleScaleFromZero_def Let_def)
    then show ?thesis using t0 t1 old by simp
  next
    case None
    then obtain e2 where "ScaleTargetFromZero K c1 (ES_Namespace es) (Kind (TargetRef (Spec es)))
        (TargetRefName (TargetRef (Spec es))) (MinTargetReplicas (Spec es)) (ES_Name es) = Ret (e2, c')"
      using run c0 c1
      by (auto simp: handleScaleFromZero_def Let_def split: go.splits option.splits prod.splits)
    from from_zero_keeps_positive [OF laws this assms(3)] t0 t1 old show ?thesis by auto
  qed
qed

lemma down_replicas:
  assumes "k8s_laws K view" "handleScaleToZero K now c cooldown es = Ret (None, c')"
    and "LastScaledUpTime (Status es) = None \<or> now - the (LastScaledUpTime (Status es)) \<ge> cooldown"
  shows "target_replicas (Kind (TargetRef (Spec es))) (view c') (ES_Namespace es)
    (TargetRefName (TargetRef (Spec es))) = Some 0"
proof -
  have "\<not> (case LastScaledUpTime (Status es) of None \<Rightarrow> False | Some t \<Rightarrow> now - t < cooldown)"
    using assms(3) by (auto split: option.splits)
  then obtain c1 where "ScaleTargetToZero K c1 (ES_Namespace es) (Kind (TargetRef (Spec es)))
      (TargetRefName (TargetRef (Spec es))) (ES_Name es) = Ret (None, c')"
    using assms(2) by (auto simp: handleScaleToZero_def split: go.splits option.splits prod.splits)
  from to_zero_replicas [OF assms(1) this] show ?thesis .
qed

section \<open>An example\<close>

text \<open>One deployment with two replicas behind one resource, with one trigger and a KEDA autoscaler.\<close>

definition example_es :: ElastiService where
  "example_es =
     \<lparr>ES_Name = ''web-es'', ES_Namespace = ''shop'', CreationTimestamp = 0, DeletionTimestamp = None,
      Finalizers = [ElastiServiceFinalizer],
      Spec = \<lparr>TargetRef = \<lparr>APIVersion = ''apps/v1'', Kind = ''deployments'', TargetRefName = ''web''\<rparr>,
              SpecService = ''web'', MinTargetReplicas = 1, CooldownPeriod = 5,
              Triggers = [\<lparr>TriggerType = ''prometheus'', Metadata = ''{}''\<rparr>],
              Autoscaler = Some \<lparr>AutoscalerType = ''keda'', AutoscalerName = ''web-so''\<rparr>\<rparr>,
      Status = \<lparr>LastReconciledTime = 0, LastScaledUpTime = None, Mode = ''''\<rparr>\<rparr>"

definition example_cluster :: "int \<Rightarrow> Cluster" where
  "example_cluster replicas = empty_cluster
     \<lparr>C_es := [(''shop'', ''web-es'') \<mapsto> example_es],
      C_deps := [(''shop'', ''web'') \<mapsto> \<lparr>DeployName = ''web'', SpecReplicas = Some replicas,
                                       StatusReplicas = replicas, ReadyReplicas = replicas\<rparr>],
      C_sos := [(''shop'', ''web-so'') \<mapsto> Map.empty]\<rparr>"

definition K0 :: "Cluster K8s" where
  "K0 = memory_client [(''shop'', ''web-es'')]"

lemma K0_laws: "k8s_laws K0 id"
  by (simp add: K0_def memory_client_laws)

lemma deployments_lower: "ToLower ''deployments'' = ''deployments''" "ToLower ''keda'' = ''keda''"
  by code_simp+

lemmas K0_defs = K0_def memory_client_def find_obj_def example_cluster_def empty_cluster_def

lemma example_up:
  "ScaleTargetFromZero K0 (example_cluster 0) ''shop'' ''deployments'' ''web'' 1 ''web-es'' =
     Ret (None, add_event ((''shop'', ''web-es''), ''Normal'', ''ScaledUpFromZero'')
       (patch_dep ''shop'' ''web'' 1 (example_cluster 0)))"
  by (simp add: ScaleTargetFromZero_def ScaleDeployment_def createEvent_def deployments_lower
      values_defs K0_defs)

section \<open>Properties\<close>

text \<open>C12: scaling from zero that reports success leaves a deployment or rollout with the requested
  number of replicas, or with more if more were running.\<close>

theorem scale_from_zero_reaches_minimum:
  assumes "k8s_laws K view" "ScaleTargetFromZero K c ns kind target r es = Ret (None, c')" "0 < r"
  shows "\<exists>old. target_replicas kind (view c) ns target = Some old \<and>
    target_replicas kind (view c') ns target = Some (max old r)"
  using from_zero_replicas [OF assms(1,2)] assms(3) by auto

theorem scale_from_zero_reaches_minimum_witness:
  "\<exists>old c'. ScaleTargetFromZero K0 (example_cluster 0) ''shop'' ''deployments'' ''web'' 1 ''web-es'' = Ret (None, c') \<and>
     target_replicas ''deployments'' c' ''shop'' ''web'' = Some (max old 1)"
  using scale_from_zero_reaches_minimum [OF K0_laws example_up] example_up by auto

text \<open>With a minimum of zero, which is what the spec holds when \<open>minTargetReplicas\<close> is left
  out, the same call takes a running target down to zero.\<close>

lemma scale_from_zero_with_no_minimum:
  assumes "k8s_laws K view" "ScaleTargetFromZero K c ns kind target 0 es = Ret (None, c')"
  shows "target_replicas kind (view c') ns target = Some 0"
  using from_zero_replicas [OF assms] by auto

lemma scale_from_zero_with_no_minimum_example:
  "\<exists>c'. ScaleTargetFromZero K0 (example_cluster 2) ''shop'' ''deployments'' ''web'' 0 ''web-es'' = Ret (None, c') \<and>
     target_replicas ''deployments'' c' ''shop'' ''web'' = Some 0"
proof -
  have "\<exists>c'. ScaleTargetFromZero K0 (example_cluster 2) ''shop'' ''deployments'' ''web'' 0 ''web-es'' = Ret (None, c')"
    by (simp add: ScaleTargetFromZero_def ScaleDeployment_def deployments_lower values_defs K0_defs)
  then obtain c' where c': "ScaleTargetFromZero K0 (example_cluster 2) ''shop'' ''deployments'' ''web'' 0 ''web-es'' =
      Ret (None, c')" ..
  from scale_from_zero_with_no_minimum [OF K0_laws c'] c' show ?thesis by auto
qed


lemma example_calculate:
  "\<exists>g'. calculateScaleDirection (example_prom (Fin 0)) (10 * time_Second) (resolveCooldownPeriod example_es)
     example_es g = Ret (Inr ScaleDown, g')"
proof -
  let ?E = "example_prom (Fin 0)" and ?cd = "resolveCooldownPeriod example_es"
  let ?s = "\<lparr>metadata = example_metadata, cooldownPeriod = ?cd\<rparr>"
  have cd: "?cd = 5 * time_Second"
    by (simp add: resolveCooldownPeriod_def example_es_def time_Second_def wrap64_def)
  have md: "Unmarshal ?E = (\<lambda>md. Inr example_metadata)" by (simp add: example_prom_def)
  obtain g1 where g1: "IsHealthy ?E ?s g = Ret ((True, None), g1)" using example_quiet(1) [of ?s] by auto
  obtain g2 where g2: "ShouldScaleToZero ?E ?s g1 = Ret ((True, None), g2)" using example_quiet(2) [of ?s] by auto
  have tr: "Triggers (Spec example_es) = [\<lparr>TriggerType = ''prometheus'', Metadata = ''{}''\<rparr>]"
    "CreationTimestamp example_es = 0" by (simp_all add: example_es_def)
  show ?thesis
    using g1 g2
    by (simp add: calculateScaleDirection_def tr createScalerForTrigger_def NewPrometheusScaler_def
        parsePrometheusMetadata_def md Let_def cd time_Second_def)
qed

lemma example_down:
  "\<exists>c'. handleScaleToZero K0 now (example_cluster 2) cooldown example_es = Ret (None, c')"
  by (simp add: handleScaleToZero_def uses_keda_def UpdateKedaScaledObjectPausedState_def
      ScaleTargetToZero_def ScaleDeployment_def deployments_lower values_defs K0_defs example_es_def patch_so_def)


text \<open>A scale-down that reports success outside the cooldown period leaves the target with no
  replicas.\<close>

lemma scale_down_reaches_zero:
  assumes "k8s_laws K view" "handleScaleToZero K now c cooldown es = Ret (None, c')"
    and "LastScaledUpTime (Status es) = None \<or> now - the (LastScaledUpTime (Status es)) \<ge> cooldown"
  shows "target_replicas (Kind (TargetRef (Spec es))) (view c') (ES_Namespace es)
    (TargetRefName (TargetRef (Spec es))) = Some 0"
  using down_replicas [OF assms] .

lemma scale_down_reaches_zero_example:
  "\<exists>c'. handleScaleToZero K0 10 (example_cluster 2) 5 example_es = Ret (None, c') \<and>
     target_replicas ''deployments'' c' ''shop'' ''web'' = Some 0"
proof -
  obtain c' where c': "handleScaleToZero K0 10 (example_cluster 2) 5 example_es = Ret (None, c')"
    using example_down by blast
  from scale_down_reaches_zero [OF K0_laws c'] c' show ?thesis by (auto simp: example_es_def)
qed

text \<open>Pausing and resuming an autoscaler that is a KEDA scaled object sets the two annotations
  and then resets the first and removes the second; other annotations are kept.\<close>

lemma keda_pause_resume:
  assumes "k8s_laws K view" "C_sos (view c) (ns, so) = Some a"
    and "UpdateKedaScaledObjectPausedState K c so ns True = (None, c1)"
    and "UpdateKedaScaledObjectPausedState K c1 so ns False = (None, c2)"
  shows "C_sos (view c1) (ns, so) = Some (a(kedaPausedAnnotation \<mapsto> ''true'', kedaPausedReplicasAnnotation \<mapsto> ''0'')) \<and>
    C_sos (view c2) (ns, so) = Some (a(kedaPausedAnnotation \<mapsto> ''false'', kedaPausedReplicasAnnotation := None))"
proof -
  have ne: "kedaPausedAnnotation \<noteq> kedaPausedReplicasAnnotation"
    by (simp add: kedaPausedAnnotation_def kedaPausedReplicasAnnotation_def)
  show ?thesis
    using view_UpdateKeda [OF assms(1,3)] view_UpdateKeda [OF assms(1,4)] assms(2) ne
    by (simp add: patch_so_def fun_upd_twist)
qed

lemma keda_pause_resume_example:
  "\<exists>c1 c2. UpdateKedaScaledObjectPausedState K0 (example_cluster 2) ''web-so'' ''shop'' True = (None, c1) \<and>
     UpdateKedaScaledObjectPausedState K0 c1 ''web-so'' ''shop'' False = (None, c2) \<and>
     C_sos c2 (''shop'', ''web-so'') = Some ([kedaPausedAnnotation \<mapsto> ''false''](kedaPausedReplicasAnnotation := None))"
proof -
  obtain c1 where c1: "UpdateKedaScaledObjectPausedState K0 (example_cluster 2) ''web-so'' ''shop'' True = (None, c1)"
    by (simp add: UpdateKedaScaledObjectPausedState_def K0_defs)
  obtain c2 where c2: "UpdateKedaScaledObjectPausedState K0 c1 ''web-so'' ''shop'' False = (None, c2)"
    by (simp add: UpdateKedaScaledObjectPausedState_def K0_defs)
  from keda_pause_resume [OF K0_laws _ c1 c2, of Map.empty] c1 c2 show ?thesis
    by (auto simp: example_cluster_def)
qed

text \<open>The cooldown of a resource is its configured number of seconds, without overflow in the
  range the schema admits, and the default of 900 seconds when it is zero.\<close>

lemma cooldown_resolved:
  assumes "0 \<le> CooldownPeriod (Spec es)" "CooldownPeriod (Spec es) \<le> 604800"
  shows "resolveCooldownPeriod es =
    1000000000 * (if CooldownPeriod (Spec es) = 0 then 900 else CooldownPeriod (Spec es))"
  using assms
  by (simp add: resolveCooldownPeriod_def time_Second_def DefaultCooldownPeriod_def wrap64_id Let_def)

lemma cooldown_resolved_example: "resolveCooldownPeriod example_es = 5000000000"
  using cooldown_resolved [of example_es] by (simp add: example_es_def)

section \<open>Behaviour worth knowing\<close>

text \<open>A deployment without \<open>spec.replicas\<close> is dereferenced before the check that would report it.\<close>

lemma ScaleDeployment_nil_panics:
  "get_deployment K c ns n = Inr d \<Longrightarrow> SpecReplicas d = None \<Longrightarrow>
   ScaleDeployment K c ns n r = Panic ''invalid memory address or nil pointer dereference''"
  by (simp add: ScaleDeployment_def)

text \<open>An autoscaler paused for a scale-down that then fails stays paused.\<close>

lemma scale_target_err_sos:
  assumes "k8s_laws K view" "ScaleTargetToZero K c ns kind target es = Ret (Some e, c')"
  shows "C_sos (view c') = C_sos (view c)"
proof (cases "scale_target K kind c ns target 0")
  case (Panic m)
  with assms(2) show ?thesis by (simp add: ScaleTargetToZero_def scale_target_def [symmetric] split: if_splits)
next
  case (Ret x)
  obtain b err c1 where "x = ((b, err), c1)" by (cases x) auto
  with Ret assms show ?thesis
    using scale_target_err [OF assms(1)] view_createEvent [OF assms(1)]
    by (cases err) (auto simp: ScaleTargetToZero_def scale_target_def [symmetric] add_event_def split: if_splits)
qed

lemma failed_scale_down_leaves_paused:
  assumes "k8s_laws K view" "uses_keda (Spec es) = Some a" "LastScaledUpTime (Status es) = None"
    and "UpdateKedaScaledObjectPausedState K c (AutoscalerName a) (ES_Namespace es) True = (None, c1)"
    and "ScaleTargetToZero K c1 (ES_Namespace es) (Kind (TargetRef (Spec es)))
      (TargetRefName (TargetRef (Spec es))) (ES_Name es) = Ret (Some e, c2)"
    and "C_sos (view c) (ES_Namespace es, AutoscalerName a) = Some an"
  shows "handleScaleToZero K now c cooldown es = Ret (Some (Wrap ''failed to scale target to zero'' e), c2) \<and>
    map_option (\<lambda>m. m kedaPausedAnnotation) (C_sos (view c2) (ES_Namespace es, AutoscalerName a)) =
      Some (Some ''true'')"
  using assms(2-6) scale_target_err_sos [OF assms(1,5)] view_UpdateKeda [OF assms(1,4)]
  by (simp add: handleScaleToZero_def patch_so_def kedaPausedAnnotation_def kedaPausedReplicasAnnotation_def)

end
