(* ===== verification/CrdDirectory.thy ===== *)
theory CrdDirectory
  imports Api
begin

text \<open>
  \<open>operator/internal/crddirectory/directory.go\<close>: the process-wide directory from service names to
  the custom resources that manage them. The package variable \<open>CRDDirectory\<close> is an option: before
  \<open>InitDirectory\<close> every operation panics. The locale \<open>directory\<close> states what the server and the
  controller rely on; it is interpreted on the operations below.
\<close>

record CRDDetails =
  CRDName :: string
  CRDSpec :: ElastiServiceSpec
  CRDStatus :: ElastiServiceStatus

type_synonym Directory = "(string \<times> CRDDetails) list option"

text \<open>
  The map is an association list with distinct keys, so that it can be ranged over; \<open>Range\<close> of a
  \<open>sync.Map\<close> promises no order.
\<close>

definition store_entry :: "'k \<Rightarrow> 'v \<Rightarrow> ('k \<times> 'v) list \<Rightarrow> ('k \<times> 'v) list" where
  "store_entry k v al = (k, v) # filter (\<lambda>(k', v'). k' \<noteq> k) al"

definition delete_entry :: "'k \<Rightarrow> ('k \<times> 'v) list \<Rightarrow> ('k \<times> 'v) list" where
  "delete_entry k al = filter (\<lambda>(k', v'). k' \<noteq> k) al"

text \<open>\<open>sync.Once\<close>: initialising again does nothing.\<close>

definition InitDirectory :: "Directory \<Rightarrow> Directory" where
  "InitDirectory d = (case d of None \<Rightarrow> Some [] | Some al \<Rightarrow> Some al)"

definition not_initialized :: string where
  "not_initialized = ''CRDDirectory not initialized''"

definition AddCRD :: "string \<Rightarrow> CRDDetails \<Rightarrow> Directory \<Rightarrow> Directory go" where
  "AddCRD serviceName crdDetails d =
     (case d of None \<Rightarrow> Panic not_initialized | Some al \<Rightarrow> Ret (Some (store_entry serviceName crdDetails al)))"

definition RemoveCRD :: "string \<Rightarrow> Directory \<Rightarrow> Directory go" where
  "RemoveCRD serviceName d =
     (case d of None \<Rightarrow> Panic not_initialized | Some al \<Rightarrow> Ret (Some (delete_entry serviceName al)))"

definition GetCRD :: "string \<Rightarrow> Directory \<Rightarrow> CRDDetails option go" where
  "GetCRD serviceName d =
     (case d of None \<Rightarrow> Panic not_initialized | Some al \<Rightarrow> Ret (map_of al serviceName))"

section \<open>Lemmas\<close>

lemma map_of_store [simp]: "map_of (store_entry k v al) = (map_of al)(k \<mapsto> v)"
proof -
  have "map_of (filter (\<lambda>(k', v'). k' \<noteq> k) al) x = (if x = k then None else map_of al x)" for x
    by (induction al) auto
  then show ?thesis by (auto simp: store_entry_def)
qed

lemma map_of_delete [simp]: "map_of (delete_entry k al) = (map_of al)(k := None)"
proof
  show "map_of (delete_entry k al) x = ((map_of al)(k := None)) x" for x
    by (induction al) (auto simp: delete_entry_def)
qed

lemma distinct_store: "distinct (map fst al) \<Longrightarrow> distinct (map fst (store_entry k v al))"
  by (auto simp: store_entry_def distinct_map_filter)

lemma distinct_delete: "distinct (map fst al) \<Longrightarrow> distinct (map fst (delete_entry k al))"
  by (simp add: delete_entry_def distinct_map_filter)

section \<open>The interface\<close>

locale directory =
  fixes add :: "string \<Rightarrow> CRDDetails \<Rightarrow> 'd \<Rightarrow> 'd go"
    and remove :: "string \<Rightarrow> 'd \<Rightarrow> 'd go"
    and lookup :: "string \<Rightarrow> 'd \<Rightarrow> CRDDetails option go"
    and ready :: "'d \<Rightarrow> bool"
  assumes add_ready: "ready d \<Longrightarrow> \<exists>d'. add s x d = Ret d' \<and> ready d'"
    and remove_ready: "ready d \<Longrightarrow> \<exists>d'. remove s d = Ret d' \<and> ready d'"
    and lookup_ready: "ready d \<Longrightarrow> \<exists>r. lookup s d = Ret r"
    and lookup_add: "add s x d = Ret d' \<Longrightarrow>
      lookup s' d' = (if s' = s then Ret (Some x) else lookup s' d)"
    and lookup_remove: "remove s d = Ret d' \<Longrightarrow>
      lookup s' d' = (if s' = s then Ret None else lookup s' d)"
begin

text \<open>An added entry is found, and one that is removed again leaves no trace.\<close>

lemma add_remove:
  assumes "ready d"
  obtains d1 d2 where "add s x d = Ret d1" "lookup s d1 = Ret (Some x)" "remove s d1 = Ret d2"
    "\<And>s'. s' \<noteq> s \<Longrightarrow> lookup s' d2 = lookup s' d" "lookup s d2 = Ret None"
proof -
  obtain d1 where d1: "add s x d = Ret d1" "ready d1" using add_ready [OF assms] by blast
  obtain d2 where d2: "remove s d1 = Ret d2" using remove_ready [OF d1(2)] by blast
  show thesis
    by (rule that [OF d1(1) _ d2]) (simp_all add: lookup_add [OF d1(1)] lookup_remove [OF d2])
qed

end

interpretation crd: directory AddCRD RemoveCRD GetCRD "\<lambda>d. d \<noteq> None"
  by unfold_locales (auto simp: AddCRD_def RemoveCRD_def GetCRD_def split: option.splits)

section \<open>Properties\<close>

text \<open>In an initialised directory an entry that was added is found under its name, and after its
  removal every lookup is as it was before, except that the name itself is unknown.\<close>

lemma directory_add_remove:
  assumes "d \<noteq> None"
  shows "\<exists>d1 d2. AddCRD s x d = Ret d1 \<and> GetCRD s d1 = Ret (Some x) \<and> RemoveCRD s d1 = Ret d2 \<and>
    GetCRD s' d2 = (if s' = s then Ret None else GetCRD s' d)"
proof -
  from assms obtain d1 d2 where "AddCRD s x d = Ret d1" "GetCRD s d1 = Ret (Some x)"
    "RemoveCRD s d1 = Ret d2" "\<And>s'. s' \<noteq> s \<Longrightarrow> GetCRD s' d2 = GetCRD s' d" "GetCRD s d2 = Ret None"
    by (rule crd.add_remove [of d s x]) blast+
  then show ?thesis by (intro exI [of _ d1] exI [of _ d2]) simp
qed

definition example_details :: CRDDetails where
  "example_details =
     \<lparr>CRDName = ''web-es'',
      CRDSpec = \<lparr>TargetRef = \<lparr>APIVersion = ''apps/v1'', Kind = ''deployments'', TargetRefName = ''web''\<rparr>,
                 SpecService = ''web'', MinTargetReplicas = 1, CooldownPeriod = 900, Triggers = [],
                 Autoscaler = None\<rparr>,
      CRDStatus = \<lparr>LastReconciledTime = 0, LastScaledUpTime = None, Mode = ''''\<rparr>\<rparr>"

lemma directory_add_remove_example:
  "\<exists>d1 d2. AddCRD ''shop/web'' example_details (InitDirectory None) = Ret d1 \<and>
     GetCRD ''shop/web'' d1 = Ret (Some example_details) \<and> RemoveCRD ''shop/web'' d1 = Ret d2 \<and>
     GetCRD ''shop/web'' d2 = Ret None"
  using directory_add_remove [of "InitDirectory None" "''shop/web''" example_details "''shop/web''"]
  by (simp add: InitDirectory_def)

end
