(* ===== verification/Informer.thy ===== *)
theory Informer
  imports CrdDirectory
begin

text \<open>
  \<open>operator/internal/informer/informer.go\<close>: the watches the operator keeps, one per custom resource
  and watched object, each with a channel that stops it. Channels are numbered; \<open>closedChans\<close> are
  those that have been closed, and closing one again panics. The dynamic client, the shared
  informers of client-go and the waiting for their caches are given by their results in
  \<open>informer_env\<close>. \<open>Range\<close> visits the entries in the order of the list; \<open>StopForCRD\<close> starts a goroutine
  per entry, and a panic in any of them ends the process. The locale \<open>informer_registry\<close> is what the
  controller relies on.
\<close>

section \<open>Keys\<close>

record RequestWatch =
  RW_CRDNamespace :: string
  RW_CRDName :: string
  ResourceName :: string
  ResourceNamespace :: string
  GVR_Group :: string
  GVR_Version :: string
  GVR_Resource :: string

record KeyParams =
  KP_Namespace :: string
  KP_CRDName :: string
  KP_Resource :: string
  KP_ResourceName :: string

definition informer_key :: "string \<Rightarrow> string \<Rightarrow> string \<Rightarrow> string \<Rightarrow> string" where
  "informer_key crd ns res name =
     ToLower crd @ ''/'' @ ToLower ns @ ''/'' @ ToLower res @ ''/'' @ ToLower name"

definition getKeyFromRequestWatch :: "RequestWatch \<Rightarrow> string" where
  "getKeyFromRequestWatch req =
     informer_key (RW_CRDName req) (ResourceNamespace req) (GVR_Resource req) (ResourceName req)"

definition GetKey :: "KeyParams \<Rightarrow> string" where
  "GetKey p = informer_key (KP_CRDName p) (KP_Namespace p) (KP_Resource p) (KP_ResourceName p)"

section \<open>The manager\<close>

record info =
  StopCh :: nat
  info_Req :: RequestWatch

record Manager =
  informers :: "(string \<times> info) list"
  nextChan :: nat
  closedChans :: "nat list"
  resolverStopCh :: "nat option"
  healthCheckStopped :: bool

definition NewInformerManager :: Manager where
  "NewInformerManager =
     \<lparr>informers = [], nextChan = 0, closedChans = [], resolverStopCh = None, healthCheckStopped = False\<rparr>"

record informer_env =
  ie_Get :: "RequestWatch \<Rightarrow> goerr option"
  ie_AddEventHandler :: "RequestWatch \<Rightarrow> goerr option"
  ie_WaitForCacheSync :: "RequestWatch \<Rightarrow> bool"
  ie_HasSynced :: "nat \<Rightarrow> bool"

definition verifyTargetExist :: "informer_env \<Rightarrow> RequestWatch \<Rightarrow> goerr option" where
  "verifyTargetExist env req =
     (case ie_Get env req of None \<Rightarrow> None | Some err \<Rightarrow> Some (Wrap ''resource does not exist'' err))"

definition enableInformer :: "informer_env \<Rightarrow> Manager \<Rightarrow> RequestWatch \<Rightarrow> goerr option \<times> Manager" where
  "enableInformer env m req =
     (case ie_AddEventHandler env req of
        Some err \<Rightarrow> (Some (Wrap ''enableInformer'' err), m)
      | None \<Rightarrow>
          let informerStop = nextChan m;
              m' = m\<lparr>nextChan := Suc (nextChan m),
                     informers := store_entry (getKeyFromRequestWatch req)
                       \<lparr>StopCh = informerStop, info_Req = req\<rparr> (informers m)\<rparr>
          in if \<not> ie_WaitForCacheSync env req then (Some (Err ''failed to sync informer''), m')
             else (None, m'))"

definition Add :: "informer_env \<Rightarrow> Manager \<Rightarrow> RequestWatch \<Rightarrow> goerr option \<times> Manager" where
  "Add env m req =
     (let key = getKeyFromRequestWatch req
      in case map_of (informers m) key of
           Some _ \<Rightarrow> (None, m)
         | None \<Rightarrow>
             (case verifyTargetExist env req of
                Some err \<Rightarrow> (Some (Wrap ''target not found'' err), m)
              | None \<Rightarrow>
                  (case enableInformer env m req of
                     (Some err, m') \<Rightarrow> (Some (Wrap ''failed to enable to informer'' err), m')
                   | (None, m') \<Rightarrow> (None, m'))))"

definition WatchDeployment ::
  "informer_env \<Rightarrow> Manager \<Rightarrow> string \<Rightarrow> string \<Rightarrow> string \<Rightarrow> string \<Rightarrow> goerr option \<times> Manager" where
  "WatchDeployment env m crdNamespace crdName deploymentName namespace =
     Add env m \<lparr>RW_CRDNamespace = crdNamespace, RW_CRDName = crdName, ResourceName = deploymentName,
               ResourceNamespace = namespace, GVR_Group = ''apps'', GVR_Version = ''v1'',
               GVR_Resource = ''deployments''\<rparr>"

definition StopInformer :: "Manager \<Rightarrow> string \<Rightarrow> (goerr option \<times> Manager) go" where
  "StopInformer m key =
     (case map_of (informers m) key of
        None \<Rightarrow> Ret (Some (Err ''informer not found, already stopped''), m)
      | Some i \<Rightarrow>
          if StopCh i \<in> set (closedChans m) then Panic ''close of closed channel''
          else Ret (None, m\<lparr>closedChans := StopCh i # closedChans m,
                           informers := delete_entry key (informers m)\<rparr>))"

text \<open>\<open>key.(string)[:len(crdName)]\<close>: slicing beyond the end panics.\<close>

definition slice_to :: "string \<Rightarrow> nat \<Rightarrow> string go" where
  "slice_to s n = (if n \<le> length s then Ret (take n s) else Panic ''slice bounds out of range'')"

fun stop_matching :: "string \<Rightarrow> (string \<times> info) list \<Rightarrow> Manager \<Rightarrow> Manager go" where
  "stop_matching crdName [] m = Ret m"
| "stop_matching crdName ((key, i) # entries) m =
     (case slice_to key (length crdName) of
        Panic p \<Rightarrow> Panic p
      | Ret prefix \<Rightarrow>
          if prefix = crdName then
            (case StopInformer m (getKeyFromRequestWatch (info_Req i)) of
               Panic p \<Rightarrow> Panic p
             | Ret (err, m') \<Rightarrow> stop_matching crdName entries m')
          else stop_matching crdName entries m)"

definition StopForCRD :: "Manager \<Rightarrow> string \<Rightarrow> Manager go" where
  "StopForCRD m crdName = stop_matching crdName (informers m) m"

fun stop_all :: "(string \<times> info) list \<Rightarrow> Manager \<Rightarrow> Manager go" where
  "stop_all [] m = Ret m"
| "stop_all ((key, i) # entries) m =
     (case StopInformer m (getKeyFromRequestWatch (info_Req i)) of
        Panic p \<Rightarrow> Panic p
      | Ret (err, m') \<Rightarrow> stop_all entries m')"

definition Stop :: "Manager \<Rightarrow> Manager go" where
  "Stop m =
     (case stop_all (informers m) m of
        Panic p \<Rightarrow> Panic p
      | Ret m' \<Rightarrow>
          if healthCheckStopped m' then Panic ''close of closed channel''
          else Ret (m'\<lparr>healthCheckStopped := True\<rparr>))"

fun restart_unsynced :: "informer_env \<Rightarrow> (string \<times> info) list \<Rightarrow> Manager \<Rightarrow> Manager go" where
  "restart_unsynced env [] m = Ret m"
| "restart_unsynced env ((key, i) # entries) m =
     (if \<not> ie_HasSynced env (StopCh i) then
        (case StopInformer m (getKeyFromRequestWatch (info_Req i)) of
           Panic p \<Rightarrow> Panic p
         | Ret (err, m1) \<Rightarrow> restart_unsynced env entries (snd (enableInformer env m1 (info_Req i))))
      else restart_unsynced env entries m)"

text \<open>
  The informer on the resolver's own deployment, which is kept outside the map. \<open>m.resolver.Req\<close> is never
  set, so naming the key in the log line of a failed synchronisation dereferences a nil pointer.
\<close>

definition InitializeResolverInformer :: "goerr option \<Rightarrow> bool \<Rightarrow> Manager \<Rightarrow> (goerr option \<times> Manager) go" where
  "InitializeResolverInformer handlerErr synced m =
     (case handlerErr of
        Some err \<Rightarrow> Ret (Some (Wrap ''failed to add event handler'' err), m)
      | None \<Rightarrow>
          let m' = m\<lparr>resolverStopCh := Some (nextChan m), nextChan := Suc (nextChan m)\<rparr>
          in if \<not> synced then Panic ''invalid memory address or nil pointer dereference''
             else Ret (None, m'))"

definition monitorInformers :: "informer_env \<Rightarrow> Manager \<Rightarrow> Manager go" where
  "monitorInformers env m = restart_unsynced env (informers m) m"

text \<open>\<open>Start\<close>: the health check runs again and again until its channel is closed; one environment per run.\<close>

fun Start :: "informer_env list \<Rightarrow> Manager \<Rightarrow> Manager go" where
  "Start [] m = Ret m"
| "Start (env # envs) m =
     (if healthCheckStopped m then Ret m
      else (case monitorInformers env m of Panic p \<Rightarrow> Panic p | Ret m' \<Rightarrow> Start envs m'))"

section \<open>The invariant\<close>

text \<open>
  Every informer is stored once, under its own key; the channels of the stored informers are
  distinct, open and older than the next one.
\<close>

definition im_inv :: "Manager \<Rightarrow> bool" where
  "im_inv m =
     (distinct (map fst (informers m)) \<and>
      (\<forall>(k, i) \<in> set (informers m). k = getKeyFromRequestWatch (info_Req i)) \<and>
      distinct (map (StopCh \<circ> snd) (informers m)) \<and>
      (\<forall>ch \<in> (StopCh \<circ> snd) ` set (informers m). ch \<notin> set (closedChans m) \<and> ch < nextChan m) \<and>
      (\<forall>ch \<in> set (closedChans m). ch < nextChan m))"

lemma im_inv_new: "im_inv NewInformerManager"
  by (simp add: im_inv_def NewInformerManager_def)

lemma im_invD:
  assumes "im_inv m"
  shows "distinct (map fst (informers m))"
    "(k, i) \<in> set (informers m) \<Longrightarrow> k = getKeyFromRequestWatch (info_Req i)"
    "distinct (map (StopCh \<circ> snd) (informers m))"
    "(k, i) \<in> set (informers m) \<Longrightarrow> StopCh i \<notin> set (closedChans m) \<and> StopCh i < nextChan m"
    "ch \<in> set (closedChans m) \<Longrightarrow> ch < nextChan m"
  using assms by (auto simp: im_inv_def)

lemma distinct_filter_map: "distinct (map f xs) \<Longrightarrow> distinct (map f (filter P xs))"
  by (rule distinct_map_filter)

lemma im_inv_stop:
  assumes "im_inv m" "StopInformer m k = Ret (e, m')"
  shows "im_inv m'"
proof (cases "map_of (informers m) k")
  case None
  with assms show ?thesis by (simp add: StopInformer_def)
next
  case (Some i)
  then have i: "(k, i) \<in> set (informers m)" by (rule map_of_SomeD)
  have m': "m' = m\<lparr>closedChans := StopCh i # closedChans m, informers := delete_entry k (informers m)\<rparr>"
    using assms(2) Some by (auto simp: StopInformer_def split: if_splits)
  have "StopCh j \<noteq> StopCh i" if "(k', j) \<in> set (delete_entry k (informers m))" for k' j
  proof
    assume eq: "StopCh j = StopCh i"
    have j: "(k', j) \<in> set (informers m)" "k' \<noteq> k" using that by (auto simp: delete_entry_def)
    have "inj_on (StopCh \<circ> snd) (set (informers m))" using im_invD(3) [OF assms(1)] by (simp add: distinct_map)
    from inj_onD [OF this _ j(1) i] eq j(2) show False by simp
  qed
  with im_invD [OF assms(1)] i show ?thesis
    unfolding m' im_inv_def by (auto simp: delete_entry_def distinct_filter_map)
qed

lemma StopInformer_no_panic: "im_inv m \<Longrightarrow> \<exists>e m'. StopInformer m k = Ret (e, m')"
  using im_invD(4) map_of_SomeD by (fastforce simp: StopInformer_def split: option.splits)

lemma im_inv_enable:
  assumes "im_inv m" "enableInformer env m req = (e, m')"
  shows "im_inv m'"
proof (cases "ie_AddEventHandler env req")
  case (Some err)
  with assms show ?thesis by (simp add: enableInformer_def)
next
  case None
  then have m': "m' = m\<lparr>nextChan := Suc (nextChan m), informers := store_entry (getKeyFromRequestWatch req)
      \<lparr>StopCh = nextChan m, info_Req = req\<rparr> (informers m)\<rparr>"
    using assms(2) by (auto simp: enableInformer_def Let_def split: if_splits)
  note D = im_invD [OF assms(1)]
  show ?thesis
    unfolding m' im_inv_def
    using D(1,2,3) D(4) [THEN conjunct1] D(4) [THEN conjunct2] D(5)
    by (fastforce simp: store_entry_def distinct_filter_map less_Suc_eq)
qed

lemma im_inv_Add:
  assumes "im_inv m" "Add env m req = (e, m')"
  shows "im_inv m'"
proof -
  obtain e1 m1 where en: "enableInformer env m req = (e1, m1)" by fastforce
  then have "m' = m \<or> m' = m1"
    using assms(2) by (auto simp: Add_def Let_def split: option.splits prod.splits)
  with im_inv_enable [OF assms(1) en] assms(1) show ?thesis by auto
qed

section \<open>Stopping\<close>

lemma informers_stop: "StopInformer m k = Ret (e, m') \<Longrightarrow> informers m' = delete_entry k (informers m)"
proof (cases "map_of (informers m) k")
  case None
  then have "delete_entry k (informers m) = informers m"
    by (auto simp: delete_entry_def map_of_eq_None_iff filter_id_conv image_iff)
  with None show "StopInformer m k = Ret (e, m') \<Longrightarrow> informers m' = delete_entry k (informers m)"
    by (simp add: StopInformer_def)
next
  case (Some i)
  then show "StopInformer m k = Ret (e, m') \<Longrightarrow> informers m' = delete_entry k (informers m)"
    by (auto simp: StopInformer_def split: if_splits)
qed

definition has_prefix :: "string \<Rightarrow> string \<Rightarrow> bool" where
  "has_prefix crdName key = (take (length crdName) key = crdName)"

lemma stop_matching_ok:
  assumes "im_inv m" "\<And>k i. (k, i) \<in> set entries \<Longrightarrow> k = getKeyFromRequestWatch (info_Req i)"
    and "\<And>k i. (k, i) \<in> set entries \<Longrightarrow> length crdName \<le> length k"
  shows "\<exists>m'. stop_matching crdName entries m = Ret m' \<and> im_inv m' \<and>
    informers m' = filter (\<lambda>(k, i). \<not> (k \<in> fst ` set entries \<and> has_prefix crdName k)) (informers m)"
  using assms
proof (induction entries arbitrary: m)
  case Nil
  then show ?case by simp
next
  case (Cons e entries)
  obtain k i where e: "e = (k, i)" by (cases e)
  have k: "k = getKeyFromRequestWatch (info_Req i)" "length crdName \<le> length k"
    using Cons.prems(2,3) e by auto
  have IH: "\<exists>m'. stop_matching crdName entries n = Ret m' \<and> im_inv m' \<and>
      informers m' = filter (\<lambda>(k, i). \<not> (k \<in> fst ` set entries \<and> has_prefix crdName k)) (informers n)"
    if "im_inv n" for n
    by (rule Cons.IH [OF that]) (use Cons.prems(2,3) in auto)
  show ?case
  proof (cases "has_prefix crdName k")
    case False
    then have "stop_matching crdName (e # entries) m = stop_matching crdName entries m"
      using k by (simp add: e slice_to_def has_prefix_def)
    moreover have "filter (\<lambda>(k', i). \<not> (k' \<in> fst ` set (e # entries) \<and> has_prefix crdName k')) (informers m) =
        filter (\<lambda>(k', i). \<not> (k' \<in> fst ` set entries \<and> has_prefix crdName k')) (informers m)"
      using False by (intro filter_cong) (auto simp: e)
    moreover from IH [OF Cons.prems(1)] obtain m' where
      "stop_matching crdName entries m = Ret m'" "im_inv m'"
      "informers m' = filter (\<lambda>(k', i). \<not> (k' \<in> fst ` set entries \<and> has_prefix crdName k')) (informers m)"
      by blast
    ultimately show ?thesis by auto
  next
    case True
    obtain er m1 where s: "StopInformer m k = Ret (er, m1)" using StopInformer_no_panic [OF Cons.prems(1)] by blast
    have "stop_matching crdName (e # entries) m = stop_matching crdName entries m1"
      using k s True by (simp add: e slice_to_def has_prefix_def)
    moreover from IH [OF im_inv_stop [OF Cons.prems(1) s]] obtain m' where
      "stop_matching crdName entries m1 = Ret m'" "im_inv m'"
      "informers m' = filter (\<lambda>(k', i). \<not> (k' \<in> fst ` set entries \<and> has_prefix crdName k')) (informers m1)"
      by blast
    moreover have "filter (\<lambda>(k', i). \<not> (k' \<in> fst ` set entries \<and> has_prefix crdName k')) (informers m1) =
        filter (\<lambda>(k', i). \<not> (k' \<in> fst ` set (e # entries) \<and> has_prefix crdName k')) (informers m)"
      unfolding informers_stop [OF s] delete_entry_def filter_filter
      using True by (intro filter_cong) (auto simp: e)
    ultimately show ?thesis by auto
  qed
qed

lemma StopForCRD_ok:
  assumes "im_inv m" "list_all (\<lambda>(k, i). length crdName \<le> length k) (informers m)"
  shows "\<exists>m'. StopForCRD m crdName = Ret m' \<and> im_inv m' \<and>
    informers m' = filter (\<lambda>(k, i). \<not> has_prefix crdName k) (informers m)"
proof -
  have "(k, i) \<in> set (informers m) \<Longrightarrow> k = getKeyFromRequestWatch (info_Req i)" for k i
    using im_invD(2) [OF assms(1)] by blast
  moreover have "(k, i) \<in> set (informers m) \<Longrightarrow> length crdName \<le> length k" for k i
    using assms(2) by (auto simp: list_all_iff)
  ultimately obtain m' where m': "stop_matching crdName (informers m) m = Ret m'" "im_inv m'"
    "informers m' = filter (\<lambda>(k, i). \<not> (k \<in> fst ` set (informers m) \<and> has_prefix crdName k)) (informers m)"
    using stop_matching_ok [OF assms(1), of "informers m" crdName] by blast
  have "informers m' = filter (\<lambda>(k, i). \<not> has_prefix crdName k) (informers m)"
    unfolding m'(3) by (intro filter_cong) force+
  with m' show ?thesis by (auto simp: StopForCRD_def)
qed

text \<open>A key shorter than the name of the resource that is deleted ends the process.\<close>

lemma stop_matching_panics:
  assumes "im_inv m" "\<And>k i. (k, i) \<in> set entries \<Longrightarrow> k = getKeyFromRequestWatch (info_Req i)"
    and "(k, i) \<in> set entries" "length k < length crdName"
  shows "\<exists>p. stop_matching crdName entries m = Panic p"
  using assms
proof (induction entries arbitrary: m)
  case Nil
  then show ?case by simp
next
  case (Cons e entries)
  obtain k' i' where e: "e = (k', i')" by (cases e)
  show ?case
  proof (cases "length crdName \<le> length k'")
    case False
    then show ?thesis by (simp add: e slice_to_def)
  next
    case True
    then have rest: "(k, i) \<in> set entries" using Cons.prems(3,4) e by auto
    obtain er m1 where s: "StopInformer m k' = Ret (er, m1)" using StopInformer_no_panic [OF Cons.prems(1)] by blast
    have "k' = getKeyFromRequestWatch (info_Req i')" using Cons.prems(2) e by auto
    then have "stop_matching crdName (e # entries) m \<in>
        {stop_matching crdName entries m, stop_matching crdName entries m1}"
      using True s by (simp add: e slice_to_def)
    then show ?thesis
      using Cons.IH [OF Cons.prems(1) _ rest Cons.prems(4)]
        Cons.IH [OF im_inv_stop [OF Cons.prems(1) s] _ rest Cons.prems(4)] Cons.prems(2) by auto
  qed
qed

section \<open>Restarting\<close>

lemma restart_ok:
  "im_inv m \<Longrightarrow> \<exists>m'. restart_unsynced env entries m = Ret m' \<and> im_inv m'"
proof (induction entries arbitrary: m)
  case Nil
  then show ?case by simp
next
  case (Cons e entries)
  obtain k i where e: "e = (k, i)" by (cases e)
  let ?k = "getKeyFromRequestWatch (info_Req i)"
  obtain er m1 where s: "StopInformer m ?k = Ret (er, m1)" using StopInformer_no_panic [OF Cons.prems] by blast
  obtain e2 m2 where en: "enableInformer env m1 (info_Req i) = (e2, m2)" by fastforce
  have "im_inv m2" using im_inv_enable [OF im_inv_stop [OF Cons.prems s] en] .
  then show ?case using Cons.IH [of m2] Cons.IH [OF Cons.prems] s en by (simp add: e)
qed

lemma im_inv_resolver:
  "im_inv m \<Longrightarrow> InitializeResolverInformer h sy m = Ret (e, m') \<Longrightarrow> im_inv m'"
  by (fastforce simp: InitializeResolverInformer_def im_inv_def Let_def split: option.splits if_splits)

lemma resolver_sync_failure_panics:
  "InitializeResolverInformer None False m = Panic ''invalid memory address or nil pointer dereference''"
  by (simp add: InitializeResolverInformer_def)

lemma Start_ok: "im_inv m \<Longrightarrow> \<exists>m'. Start envs m = Ret m' \<and> im_inv m'"
proof (induction envs arbitrary: m)
  case Nil
  then show ?case by simp
next
  case (Cons env envs)
  obtain m1 where "monitorInformers env m = Ret m1" "im_inv m1"
    using restart_ok [OF Cons.prems] by (auto simp: monitorInformers_def)
  with Cons.IH [of m1] Cons.prems show ?case by simp
qed

text \<open>Stopping everything: every stored informer is found under its own key and closed.\<close>

lemma stop_all_ok:
  assumes "im_inv m" "\<And>k i. (k, i) \<in> set entries \<Longrightarrow> k = getKeyFromRequestWatch (info_Req i)"
  shows "\<exists>m'. stop_all entries m = Ret m' \<and> im_inv m' \<and> healthCheckStopped m' = healthCheckStopped m \<and>
    informers m' = filter (\<lambda>(k, i). k \<notin> fst ` set entries) (informers m)"
  using assms
proof (induction entries arbitrary: m)
  case Nil
  then show ?case by simp
next
  case (Cons e entries)
  obtain k i where e: "e = (k, i)" by (cases e)
  have k: "k = getKeyFromRequestWatch (info_Req i)" using Cons.prems(2) e by simp
  obtain er m1 where s: "StopInformer m k = Ret (er, m1)" using StopInformer_no_panic [OF Cons.prems(1)] by blast
  have h: "healthCheckStopped m1 = healthCheckStopped m"
    using s by (auto simp: StopInformer_def split: option.splits if_splits)
  from Cons.IH [OF im_inv_stop [OF Cons.prems(1) s]] Cons.prems(2) obtain m' where m':
    "stop_all entries m1 = Ret m'" "im_inv m'" "healthCheckStopped m' = healthCheckStopped m1"
    "informers m' = filter (\<lambda>(k, i). k \<notin> fst ` set entries) (informers m1)" by auto
  have "informers m' = filter (\<lambda>(k', i). k' \<notin> fst ` set (e # entries)) (informers m)"
    unfolding m'(4) informers_stop [OF s] delete_entry_def filter_filter by (intro filter_cong) (auto simp: e)
  with m' s k h show ?case by (simp add: e)
qed

lemma Stop_ok:
  assumes "im_inv m" "\<not> healthCheckStopped m"
  shows "\<exists>m'. Stop m = Ret m' \<and> informers m' = [] \<and> healthCheckStopped m'"
proof -
  obtain m' where m': "stop_all (informers m) m = Ret m'" "healthCheckStopped m' = healthCheckStopped m"
    "informers m' = filter (\<lambda>(k, i). k \<notin> fst ` set (informers m)) (informers m)"
    using stop_all_ok [OF assms(1), of "informers m"] im_invD(2) [OF assms(1)] by blast
  have "informers m' = []" unfolding m'(3) by (force simp: filter_empty_conv)
  with m' assms(2) show ?thesis by (simp add: Stop_def)
qed

text \<open>Only \<open>Stop\<close> closes the channel of the health check.\<close>

lemma health_StopInformer: "StopInformer m k = Ret (e, m') \<Longrightarrow> healthCheckStopped m' = healthCheckStopped m"
  by (auto simp: StopInformer_def split: option.splits if_splits)

lemma health_enable: "enableInformer env m req = (e, m') \<Longrightarrow> healthCheckStopped m' = healthCheckStopped m"
  by (auto simp: enableInformer_def Let_def split: option.splits if_splits)

lemma health_Add: "Add env m req = (e, m') \<Longrightarrow> healthCheckStopped m' = healthCheckStopped m"
  using health_enable [of env m req] by (fastforce simp: Add_def Let_def split: option.splits prod.splits)

lemma health_stop_matching:
  "stop_matching crdName entries m = Ret m' \<Longrightarrow> healthCheckStopped m' = healthCheckStopped m"
proof (induction entries arbitrary: m)
  case Nil
  then show ?case by simp
next
  case (Cons e entries)
  then show ?case
    using health_StopInformer [of m "getKeyFromRequestWatch (info_Req (snd e))"]
    by (cases e) (fastforce split: go.splits if_splits)
qed

lemma health_restart: "restart_unsynced env entries m = Ret m' \<Longrightarrow> healthCheckStopped m' = healthCheckStopped m"
proof (induction entries arbitrary: m)
  case Nil
  then show ?case by simp
next
  case (Cons e entries)
  obtain k i where e: "e = (k, i)" by (cases e)
  show ?case
  proof (cases "ie_HasSynced env (StopCh i)")
    case True
    then show ?thesis using Cons by (simp add: e)
  next
    case False
    with Cons.prems obtain er m1 where s: "StopInformer m (getKeyFromRequestWatch (info_Req i)) = Ret (er, m1)"
      "restart_unsynced env entries (snd (enableInformer env m1 (info_Req i))) = Ret m'"
      by (auto simp: e split: go.splits)
    with Cons.IH [OF s(2)] health_StopInformer [OF s(1)] health_enable [of env m1 "info_Req i"]
    show ?thesis by (cases "enableInformer env m1 (info_Req i)") simp
  qed
qed

text \<open>The managers that arise from a new one.\<close>

inductive im_reach :: "Manager \<Rightarrow> bool" where
  new: "im_reach NewInformerManager"
| add: "im_reach m \<Longrightarrow> Add env m req = (e, m') \<Longrightarrow> im_reach m'"
| stop: "im_reach m \<Longrightarrow> StopInformer m k = Ret (e, m') \<Longrightarrow> im_reach m'"
| stop_crd: "im_reach m \<Longrightarrow> StopForCRD m crdName = Ret m' \<Longrightarrow> im_reach m'"
| monitor: "im_reach m \<Longrightarrow> monitorInformers env m = Ret m' \<Longrightarrow> im_reach m'"
| resolver: "im_reach m \<Longrightarrow> InitializeResolverInformer h sy m = Ret (e, m') \<Longrightarrow> im_reach m'"

lemma stop_matching_inv: "im_inv m \<Longrightarrow> stop_matching crdName entries m = Ret m' \<Longrightarrow> im_inv m'"
proof (induction entries arbitrary: m)
  case Nil
  then show ?case by simp
next
  case (Cons e entries)
  obtain k i where e: "e = (k, i)" by (cases e)
  obtain er m1 where s: "StopInformer m (getKeyFromRequestWatch (info_Req i)) = Ret (er, m1)"
    using StopInformer_no_panic [OF Cons.prems(1)] by blast
  from Cons.prems(2) have "stop_matching crdName entries m = Ret m' \<or> stop_matching crdName entries m1 = Ret m'"
    using s by (auto simp: e split: go.splits if_splits)
  then show ?case using Cons.IH [OF Cons.prems(1)] Cons.IH [OF im_inv_stop [OF Cons.prems(1) s]] by blast
qed

lemma im_reach_inv: "im_reach m \<Longrightarrow> im_inv m"
proof (induction rule: im_reach.induct)
  case (monitor m env m')
  then show ?case using restart_ok [of m env "informers m"] by (auto simp: monitorInformers_def)
qed (auto intro: im_inv_new im_inv_Add im_inv_stop stop_matching_inv im_inv_resolver simp: StopForCRD_def)

section \<open>The interface of the controller\<close>

definition running :: "Manager \<Rightarrow> string \<Rightarrow> bool" where
  "running m key = (map_of (informers m) key \<noteq> None)"

locale informer_registry =
  fixes add :: "'e \<Rightarrow> 'm \<Rightarrow> RequestWatch \<Rightarrow> goerr option \<times> 'm"
    and stop :: "'m \<Rightarrow> string \<Rightarrow> (goerr option \<times> 'm) go"
    and watched :: "'m \<Rightarrow> string \<Rightarrow> bool"
  assumes add_ok: "add env m req = (None, m') \<Longrightarrow> watched m' (getKeyFromRequestWatch req)"
    and add_other: "add env m req = (e, m') \<Longrightarrow> k \<noteq> getKeyFromRequestWatch req \<Longrightarrow> watched m' k = watched m k"
    and add_again: "watched m (getKeyFromRequestWatch req) \<Longrightarrow> add env m req = (None, m)"
    and stop_gone: "stop m k = Ret (e, m') \<Longrightarrow> watched m' k' = (watched m k' \<and> k' \<noteq> k)"
begin

lemma add_twice: "add env m req = (None, m') \<Longrightarrow> add env' m' req = (None, m')"
  using add_again [OF add_ok] .

lemma replace:
  assumes "stop m old = Ret (e, m1)" "add env m1 req = (None, m2)" "old \<noteq> getKeyFromRequestWatch req"
  shows "watched m2 (getKeyFromRequestWatch req)" "\<not> watched m2 old"
  using add_ok [OF assms(2)] add_other [OF assms(2,3)] stop_gone [OF assms(1), of old] by simp_all

end

lemma running_enable:
  "enableInformer env m req = (None, m') \<Longrightarrow> running m' (getKeyFromRequestWatch req)"
  "enableInformer env m req = (e, m') \<Longrightarrow> k \<noteq> getKeyFromRequestWatch req \<Longrightarrow> running m' k = running m k"
  by (auto simp: enableInformer_def running_def Let_def split: option.splits if_splits)

interpretation im: informer_registry Add StopInformer running
proof
  fix env m req e m' k
  show "Add env m req = (None, m') \<Longrightarrow> running m' (getKeyFromRequestWatch req)"
    using running_enable(1) [of env m req m']
    by (auto simp: Add_def Let_def running_def split: option.splits prod.splits)
  show "Add env m req = (e, m') \<Longrightarrow> k \<noteq> getKeyFromRequestWatch req \<Longrightarrow> running m' k = running m k"
    using running_enable(2) [of env m req _ m' k]
    by (auto simp: Add_def Let_def split: option.splits prod.splits)
  show "running m (getKeyFromRequestWatch req) \<Longrightarrow> Add env m req = (None, m)"
    by (auto simp: Add_def running_def split: option.splits)
next
  fix m k e m' k'
  assume "StopInformer m k = Ret (e, m')"
  from informers_stop [OF this] show "running m' k' = (running m k' \<and> k' \<noteq> k)"
    by (simp add: running_def)
qed

section \<open>Keys of valid names\<close>

definition k8s_name :: "string \<Rightarrow> bool" where
  "k8s_name s = (ToLower s = s \<and> CHR ''/'' \<notin> set s)"

lemma informer_key_inject:
  assumes "k8s_name a" "k8s_name b" "k8s_name c" "k8s_name d"
    "k8s_name a'" "k8s_name b'" "k8s_name c'" "k8s_name d'"
    and "informer_key a b c d = informer_key a' b' c' d'"
  shows "a = a' \<and> b = b' \<and> c = c' \<and> d = d'"
proof -
  have eq: "a @ CHR ''/'' # (b @ CHR ''/'' # (c @ CHR ''/'' # d)) =
      a' @ CHR ''/'' # (b' @ CHR ''/'' # (c' @ CHR ''/'' # d'))"
    using assms by (simp add: informer_key_def k8s_name_def)
  note inj = append_sep_inject [where c = "CHR ''/''"]
  from inj [OF eq] assms have 1: "a = a'" "b @ CHR ''/'' # (c @ CHR ''/'' # d) = b' @ CHR ''/'' # (c' @ CHR ''/'' # d')"
    by (auto simp: k8s_name_def)
  from inj [OF 1(2)] assms have 2: "b = b'" "c @ CHR ''/'' # d = c' @ CHR ''/'' # d'" by (auto simp: k8s_name_def)
  from inj [OF 2(2)] assms have "c = c'" "d = d'" by (auto simp: k8s_name_def)
  with 1 2 show ?thesis by simp
qed

section \<open>An example\<close>

definition example_watch :: "string \<Rightarrow> string \<Rightarrow> RequestWatch" where
  "example_watch crd ns =
     \<lparr>RW_CRDNamespace = ns, RW_CRDName = crd, ResourceName = ''api'', ResourceNamespace = ns,
      GVR_Group = ''apps'', GVR_Version = ''v1'', GVR_Resource = ''deployments''\<rparr>"

definition example_informer_env :: informer_env where
  "example_informer_env =
     \<lparr>ie_Get = (\<lambda>req. None), ie_AddEventHandler = (\<lambda>req. None), ie_WaitForCacheSync = (\<lambda>req. True),
      ie_HasSynced = (\<lambda>ch. True)\<rparr>"

text \<open>Watches for the resources \<open>web\<close> and \<open>web-admin\<close>, the latter in another namespace.\<close>

definition example_im :: Manager where
  "example_im =
     snd (Add example_informer_env (snd (Add example_informer_env NewInformerManager
       (example_watch ''web'' ''shop''))) (example_watch ''web-admin'' ''ops''))"

lemma example_im_reach: "im_reach example_im"
  unfolding example_im_def by (metis im_reach.new im_reach.add prod.collapse)

lemma example_keys:
  "getKeyFromRequestWatch (example_watch ''web'' ''shop'') = ''web/shop/deployments/api''"
  "getKeyFromRequestWatch (example_watch ''web-admin'' ''ops'') = ''web-admin/ops/deployments/api''"
  by code_simp+

lemma example_im_informers:
  "map fst (informers example_im) = [''web-admin/ops/deployments/api'', ''web/shop/deployments/api'']"
  by (simp add: example_im_def Add_def enableInformer_def verifyTargetExist_def NewInformerManager_def
      example_informer_env_def example_keys store_entry_def Let_def)

section \<open>Properties\<close>



text \<open>Adding a watch that could be added starts an informer under its key, and adding it again,
  in whatever circumstances, changes nothing.\<close>

lemma Add_idempotent:
  assumes "Add env m req = (None, m')"
  shows "running m' (getKeyFromRequestWatch req) \<and> Add env' m' req = (None, m')"
  using im.add_ok [OF assms] im.add_twice [OF assms] by simp

lemma Add_idempotent_example:
  "(let (e, m) = Add example_informer_env NewInformerManager (example_watch ''web'' ''shop'')
    in e = None \<and> running m ''web/shop/deployments/api'')"
proof -
  obtain m where m: "Add example_informer_env NewInformerManager (example_watch ''web'' ''shop'') = (None, m)"
    by (simp add: Add_def enableInformer_def verifyTargetExist_def NewInformerManager_def
        example_informer_env_def Let_def)
  from Add_idempotent [OF m, of example_informer_env] m show ?thesis by (simp add: example_keys)
qed

text \<open>The keys of two watches with valid Kubernetes names are equal only if the resources that
  ask for them have the same name and they watch the same object.\<close>

lemma informer_keys_distinct:
  assumes "list_all k8s_name [RW_CRDName r, ResourceNamespace r, GVR_Resource r, ResourceName r]"
    and "list_all k8s_name [RW_CRDName q, ResourceNamespace q, GVR_Resource q, ResourceName q]"
  shows "getKeyFromRequestWatch r = getKeyFromRequestWatch q \<longleftrightarrow>
    RW_CRDName r = RW_CRDName q \<and> ResourceNamespace r = ResourceNamespace q \<and>
    GVR_Resource r = GVR_Resource q \<and> ResourceName r = ResourceName q"
  using assms informer_key_inject [of "RW_CRDName r" "ResourceNamespace r" "GVR_Resource r" "ResourceName r"
      "RW_CRDName q" "ResourceNamespace q" "GVR_Resource q" "ResourceName q"]
  by (auto simp: getKeyFromRequestWatch_def)

lemma informer_keys_distinct_example:
  "getKeyFromRequestWatch (example_watch ''web'' ''shop'') \<noteq> getKeyFromRequestWatch (example_watch ''web'' ''ops'')"
proof -
  have "list_all k8s_name [''web'', ''shop'', ''deployments'', ''api'', ''ops'']" by code_simp
  then show ?thesis
    using informer_keys_distinct [of "example_watch ''web'' ''shop''" "example_watch ''web'' ''ops''"]
    by (simp add: example_watch_def)
qed

text \<open>Deleting a resource stops every informer whose key begins with its name, and no other.
  The key begins with the name of the resource it belongs to, so informers of a resource with a
  longer name that begins the same, and of one of the same name elsewhere, are stopped too.\<close>

lemma StopForCRD_stops_prefix:
  assumes "im_reach m" "list_all (\<lambda>(k, i). length crdName \<le> length k) (informers m)"
  shows "\<exists>m'. StopForCRD m crdName = Ret m' \<and>
    informers m' = filter (\<lambda>(k, i). \<not> has_prefix crdName k) (informers m)"
  using StopForCRD_ok [OF im_reach_inv [OF assms(1)] assms(2)] by blast

lemma StopForCRD_stops_prefix_example:
  "\<exists>m'. StopForCRD example_im ''web'' = Ret m' \<and> informers m' = []"
proof -
  have "list_all (\<lambda>(k, i). length ''web'' \<le> length k) (informers example_im)"
    using example_im_informers by (auto simp: list_all_iff)
  from StopForCRD_stops_prefix [OF example_im_reach this] obtain m' where
    m': "StopForCRD example_im ''web'' = Ret m'"
    "informers m' = filter (\<lambda>(k, i). \<not> has_prefix ''web'' k) (informers example_im)" by blast
  have "has_prefix ''web'' ''web-admin/ops/deployments/api''" "has_prefix ''web'' ''web/shop/deployments/api''"
    by (simp_all add: has_prefix_def)
  then have "informers m' = []"
    unfolding m'(2) using example_im_informers by (auto simp: filter_empty_conv)
  with m'(1) show ?thesis by blast
qed

text \<open>Deleting a resource whose name is longer than the key of some running informer panics.\<close>

lemma StopForCRD_short_key_panics:
  assumes "im_reach m" "(k, i) \<in> set (informers m)" "length k < length crdName"
  shows "\<exists>p. StopForCRD m crdName = Panic p"
  unfolding StopForCRD_def
  by (rule stop_matching_panics [OF im_reach_inv [OF assms(1)] _ assms(2,3)])
    (use im_invD(2) [OF im_reach_inv [OF assms(1)]] in blast)

lemma StopForCRD_short_key_panics_example:
  "\<exists>p. StopForCRD example_im ''checkout-service-autoscaling'' = Panic p"
proof -
  have "''web/shop/deployments/api'' \<in> fst ` set (informers example_im)"
    unfolding set_map [symmetric] example_im_informers by simp
  then obtain i where i: "(''web/shop/deployments/api'', i) \<in> set (informers example_im)" by auto
  from StopForCRD_short_key_panics [OF example_im_reach i, of "''checkout-service-autoscaling''"]
  show ?thesis by simp
qed

end
