(* ===== verification/Controller.thy ===== *)
theory Controller
  imports ScaleHandler Informer
begin

text \<open>
  \<open>operator/internal/controller\<close>: the reconciler. Its state is the cluster, the directory, the
  informer manager and \<open>InformerStartLocks\<close>, where the \<open>sync.Once\<close> stored under a key is given by
  whether it has run. \<open>ReconcileLocks\<close> and \<open>SwitchModeLocks\<close> make calls for one resource run one after
  the other, so each is one step here. The three goroutines of \<open>finalizeCRD\<close> touch different parts
  of the state and run in the order of their text. An object handed over by an informer is given by
  the result of its conversion. Metrics and log lines are left out.
\<close>

record 'c Reconciler =
  cluster :: 'c
  dir :: Directory
  InformerManager :: Manager
  InformerStartLocks :: "string \<rightharpoonup> bool"

record Req =
  ReqNamespace :: string
  ReqName :: string

record 'c Env =
  client :: "'c K8s"
  informer_env :: informer_env
  clock :: int

definition resolverDeploymentName :: string where "resolverDeploymentName = ''elasti-resolver''"
definition resolverServiceName :: string where "resolverServiceName = ''elasti-resolver-service''"
definition resolverPort :: int where "resolverPort = 8012"

section \<open>opsCRD.go: the custom resource\<close>

definition getCRD :: "'c K8s \<Rightarrow> 'c \<Rightarrow> string \<Rightarrow> string \<Rightarrow> ElastiService result" where
  "getCRD K c ns n =
     (case get_es K c ns n of
        Inl err \<Rightarrow> Inl (Wrap ''failed to get ElastiService'' err)
      | Inr es \<Rightarrow> Inr es)"

definition updateCRDStatus ::
  "'c K8s \<Rightarrow> int \<Rightarrow> 'c \<Rightarrow> string \<Rightarrow> string \<Rightarrow> string \<Rightarrow> goerr option \<times> 'c" where
  "updateCRDStatus K now c ns n mode =
     (case get_es K c ns n of
        Inl err \<Rightarrow> (Some (Err ''failed to get elastiService for status update''), c)
      | Inr es \<Rightarrow>
          (case patch_status K c ns n (\<lambda>st. st\<lparr>LastReconciledTime := now, Mode := mode\<rparr>) of
             (Some err, c') \<Rightarrow> (Some (Err ''failed to patch CRD status''), c')
           | (None, c') \<Rightarrow> (None, c')))"

definition ContainsFinalizer :: "ElastiService \<Rightarrow> string \<Rightarrow> bool" where
  "ContainsFinalizer es f = (f \<in> set (Finalizers es))"

definition addCRDFinalizer :: "'c K8s \<Rightarrow> 'c \<Rightarrow> ElastiService \<Rightarrow> goerr option \<times> 'c" where
  "addCRDFinalizer K c es =
     (if \<not> ContainsFinalizer es ElastiServiceFinalizer then
        (case update_es K c (es\<lparr>Finalizers := Finalizers es @ [ElastiServiceFinalizer]\<rparr>) of
           (Some err, c') \<Rightarrow> (Some (Wrap ''failed to add finalizer'' err), c')
         | (None, c') \<Rightarrow> (None, c'))
      else (None, c))"

section \<open>opsEndpointslices.go: the slice to the resolver\<close>

definition getIPsForResolver :: "'c K8s \<Rightarrow> 'c \<Rightarrow> string list result" where
  "getIPsForResolver K c =
     (case list_slices K c resolverServiceName of
        Inl err \<Rightarrow> Inl (Wrap ''getIPsForResolver'' err)
      | Inr resolverSlices \<Rightarrow>
          let resolverPodIPs = concat (concat (map SliceEndpoints resolverSlices))
          in if length resolverPodIPs = 0 then Inl ErrNoResolverPodFound else Inr resolverPodIPs)"

definition deleteEndpointsliceToResolver ::
  "'c K8s \<Rightarrow> 'c \<Rightarrow> string \<Rightarrow> string \<Rightarrow> goerr option \<times> 'c" where
  "deleteEndpointsliceToResolver K c ns svc =
     (case get_slice K c ns (GetEndpointSliceToResolverName svc) of
        Inl err \<Rightarrow>
          if IsNotFound err then (None, c) else (Some (Wrap ''failed to get endpointslice'' err), c)
      | Inr endpointSlice \<Rightarrow>
          (case delete_slice K c endpointSlice of
             (Some err, c') \<Rightarrow> (Some (Wrap ''failed to delete endpointslice'' err), c')
           | (None, c') \<Rightarrow> (None, c')))"

definition sliceToResolver :: "Service \<Rightarrow> string \<Rightarrow> string list \<Rightarrow> EndpointSlice" where
  "sliceToResolver service portName ips =
     \<lparr>SliceName = GetEndpointSliceToResolverName (SvcName service), SliceNamespace = SvcNamespace service,
      SliceService = SvcName service, SlicePorts = [(portName, ''TCP'', resolverPort)],
      SliceEndpoints = map (\<lambda>ip. [ip]) ips\<rparr>"

text \<open>\<open>service.Spec.Ports[0]\<close> panics for a service without ports.\<close>

definition createOrUpdateEndpointsliceToResolver ::
  "'c K8s \<Rightarrow> 'c \<Rightarrow> Service \<Rightarrow> (goerr option \<times> 'c) go" where
  "createOrUpdateEndpointsliceToResolver K c service =
     (case getIPsForResolver K c of
        Inl err \<Rightarrow> Ret (Some err, c)
      | Inr resolverPodIPs \<Rightarrow>
          let sliceFound =
                (case get_slice K c (SvcNamespace service) (GetEndpointSliceToResolverName (SvcName service)) of
                   Inl err \<Rightarrow> if IsNotFound err then Inr False else Inl err
                 | Inr s \<Rightarrow> Inr True)
          in case sliceFound of
               Inl err \<Rightarrow> Ret (Some (Wrap ''createOrUpdateEndpointsliceToResolver'' err), c)
             | Inr isResolverSliceFound \<Rightarrow>
                 (case Ports service of
                    [] \<Rightarrow> Panic ''index out of range''
                  | port # ports \<Rightarrow>
                      let newEndpointSlice = sliceToResolver service (PortName port) resolverPodIPs
                      in case (if isResolverSliceFound then update_slice K c newEndpointSlice
                               else create_slice K c newEndpointSlice) of
                           (Some err, c') \<Rightarrow>
                             Ret (Some (Wrap ''createOrUpdateEndpointsliceToResolver'' err), c')
                         | (None, c') \<Rightarrow> Ret (None, c')))"

section \<open>opsServices.go: the private service\<close>

definition deletePrivateService :: "'c K8s \<Rightarrow> 'c \<Rightarrow> string \<Rightarrow> string \<Rightarrow> goerr option \<times> 'c" where
  "deletePrivateService K c ns svc =
     (case get_svc K c ns (GetPrivateServiceName svc) of
        Inl err \<Rightarrow>
          if IsNotFound err then (None, c) else (Some (Wrap ''failed to get private service'' err), c)
      | Inr privateSVC \<Rightarrow>
          (case delete_svc K c privateSVC of
             (Some err, c') \<Rightarrow> (Some (Wrap ''failed to delete private service'' err), c')
           | (None, c') \<Rightarrow> (None, c')))"

definition privateCopy :: "Service \<Rightarrow> Service" where
  "privateCopy publicSVC =
     publicSVC\<lparr>SvcName := GetPrivateServiceName (SvcName publicSVC), ClusterIP := '''', ClusterIPs := [],
               Ports := map (\<lambda>p. p\<lparr>NodePort := 0\<rparr>) (Ports publicSVC), ResourceVersion := ''''\<rparr>"

text \<open>An error of \<open>Get\<close> other than \<open>NotFound\<close> is logged, and the service created all the same.\<close>

definition checkAndCreatePrivateService ::
  "'c K8s \<Rightarrow> 'c \<Rightarrow> Service \<Rightarrow> ElastiService \<Rightarrow> (string \<times> goerr option) \<times> 'c" where
  "checkAndCreatePrivateService K c publicSVC es =
     (let privateServiceName = GetPrivateServiceName (SvcName publicSVC)
      in case get_svc K c (SvcNamespace publicSVC) privateServiceName of
           Inr privateSVC \<Rightarrow> ((privateServiceName, None), c)
         | Inl _ \<Rightarrow>
             (case set_controller K es (privateCopy publicSVC) of
                Inl err \<Rightarrow> ((privateServiceName, Some (Wrap ''checkAndCreatePrivateService'' err)), c)
              | Inr privateSVC \<Rightarrow>
                  (case create_svc K c privateSVC of
                     (Some err, c') \<Rightarrow>
                       ((privateServiceName, Some (Wrap ''checkAndCreatePrivateService'' err)), c')
                   | (None, c') \<Rightarrow> ((privateServiceName, None), c'))))"

definition sync_port :: "ServicePort \<Rightarrow> ServicePort \<Rightarrow> ServicePort" where
  "sync_port private public =
     private\<lparr>PortName := PortName public, Protocol := Protocol public, PortNumber := PortNumber public,
             TargetPort := TargetPort public, AppProtocol := AppProtocol public\<rparr>"

text \<open>The loop runs over the ports of the private service and indexes those of the public one.\<close>

fun sync_ports :: "ServicePort list \<Rightarrow> ServicePort list \<Rightarrow> ServicePort list go" where
  "sync_ports [] public = Ret []"
| "sync_ports (p # ps) [] = Panic ''index out of range''"
| "sync_ports (p # ps) (q # qs) =
     (case sync_ports ps qs of Panic m \<Rightarrow> Panic m | Ret rs \<Rightarrow> Ret (sync_port p q # rs))"

definition handlePublicServiceChanges ::
  "'c K8s \<Rightarrow> 'c \<Rightarrow> Service result \<Rightarrow> string \<Rightarrow> (goerr option \<times> 'c) go" where
  "handlePublicServiceChanges K c obj serviceName =
     (case obj of
        Inl err \<Rightarrow> Ret (Some (Wrap ''failed to convert unstructured to service'' err), c)
      | Inr publicSVC \<Rightarrow>
          if SvcName publicSVC \<noteq> serviceName then
            Ret (Some (Err ''public service is not same as mentioned in CRD; informer misconfigured''), c)
          else
            (case get_svc K c (SvcNamespace publicSVC) (GetPrivateServiceName (SvcName publicSVC)) of
               Inl err \<Rightarrow>
                 if IsNotFound err then Ret (Some (Wrap ''private service not found'' err), c)
                 else Ret (Some (Wrap ''failed to get private service'' err), c)
             | Inr privateSVC \<Rightarrow>
                 (case sync_ports (Ports privateSVC) (Ports publicSVC) of
                    Panic m \<Rightarrow> Panic m
                  | Ret ports \<Rightarrow>
                      (case update_svc K c (privateSVC\<lparr>Selector := Selector publicSVC, Ports := ports\<rparr>) of
                         (Some err, c') \<Rightarrow> Ret (Some (Wrap ''failed to update private service'' err), c')
                       | (None, c') \<Rightarrow> Ret (None, c')))))"

section \<open>opsInformer.go and opsCRD.go: watches\<close>

definition req_String :: "Req \<Rightarrow> string" where
  "req_String req = nn_String (ReqNamespace req) (ReqName req)"

definition getMutexKeyForPublicSVC :: "Req \<Rightarrow> string" where
  "getMutexKeyForPublicSVC req = req_String req @ ''public-service''"

definition getMutexKeyForTargetRef :: "Req \<Rightarrow> string" where
  "getMutexKeyForTargetRef req = req_String req @ ''scale-target-ref''"

definition resetMutexForInformer :: "'c Reconciler \<Rightarrow> string \<Rightarrow> 'c Reconciler" where
  "resetMutexForInformer r key = r\<lparr>InformerStartLocks := (InformerStartLocks r)(key := None)\<rparr>"

text \<open>
  \<open>getMutexForInformerStart(key).Do(f)\<close>, with \<open>f\<close> giving the value of \<open>informerErr\<close>: whatever \<open>f\<close> does,
  it will not run again under this key.
\<close>

definition once_Do ::
  "'c Reconciler \<Rightarrow> string \<Rightarrow> ('c Reconciler \<Rightarrow> goerr option \<times> 'c Reconciler) \<Rightarrow> goerr option \<times> 'c Reconciler" where
  "once_Do r key f =
     (if InformerStartLocks r key = Some True then (None, r)
      else (case f r of (e, r') \<Rightarrow>
              (e, r'\<lparr>InformerStartLocks := (InformerStartLocks r')(key \<mapsto> True)\<rparr>)))"

definition im_Add :: "'c Env \<Rightarrow> 'c Reconciler \<Rightarrow> RequestWatch \<Rightarrow> goerr option \<times> 'c Reconciler" where
  "im_Add E r w =
     (case Add (informer_env E) (InformerManager r) w of (e, m) \<Rightarrow> (e, r\<lparr>InformerManager := m\<rparr>))"

definition same_target :: "ElastiServiceSpec \<Rightarrow> ElastiServiceSpec \<Rightarrow> bool" where
  "same_target a b =
     (TargetRefName (TargetRef a) = TargetRefName (TargetRef b) \<and> Kind (TargetRef a) = Kind (TargetRef b) \<and>
      APIVersion (TargetRef a) = APIVersion (TargetRef b))"

definition target_watch :: "ElastiService \<Rightarrow> Req \<Rightarrow> string \<Rightarrow> string \<Rightarrow> RequestWatch" where
  "target_watch es req targetGroup targetVersion =
     \<lparr>RW_CRDNamespace = ReqNamespace req, RW_CRDName = ReqName req,
      ResourceName = TargetRefName (TargetRef (Spec es)), ResourceNamespace = ReqNamespace req,
      GVR_Group = targetGroup, GVR_Version = targetVersion,
      GVR_Resource = ToLower (Kind (TargetRef (Spec es)))\<rparr>"

definition start_target_informer ::
  "'c Env \<Rightarrow> ElastiService \<Rightarrow> Req \<Rightarrow> 'c Reconciler \<Rightarrow> goerr option \<times> 'c Reconciler" where
  "start_target_informer E es req r =
     (case ParseAPIVersion (APIVersion (TargetRef (Spec es))) of
        Inl err \<Rightarrow> (Some (Wrap ''failed to parse API version'' err), r)
      | Inr (targetGroup, targetVersion) \<Rightarrow>
          (case im_Add E r (target_watch es req targetGroup targetVersion) of
             (Some err, r') \<Rightarrow> (Some (Wrap ''failed to add scaledTargetRef Informer'' err), r')
           | (None, r') \<Rightarrow> (None, r')))"

text \<open>Stopping the informer of the old target; its error is only logged.\<close>

definition stop_old_target ::
  "CRDDetails \<Rightarrow> Req \<Rightarrow> 'c Reconciler \<Rightarrow> 'c Reconciler go" where
  "stop_old_target crd req r =
     (let key = GetKey \<lparr>KP_Namespace = ReqNamespace req, KP_CRDName = ReqName req,
                       KP_Resource = ToLower (Kind (TargetRef (CRDSpec crd))),
                       KP_ResourceName = TargetRefName (TargetRef (CRDSpec crd))\<rparr>
      in case StopInformer (InformerManager r) key of
           Panic m \<Rightarrow> Panic m
         | Ret (err, m') \<Rightarrow>
             Ret (resetMutexForInformer (r\<lparr>InformerManager := m'\<rparr>) (getMutexKeyForTargetRef req)))"

definition watchScaleTargetRef ::
  "'c Env \<Rightarrow> ElastiService \<Rightarrow> Req \<Rightarrow> 'c Reconciler \<Rightarrow> (goerr option \<times> 'c Reconciler) go" where
  "watchScaleTargetRef E es req r =
     (if TargetRefName (TargetRef (Spec es)) = '''' \<or> Kind (TargetRef (Spec es)) = '''' \<or>
         APIVersion (TargetRef (Spec es)) = ''''
      then Ret (Some (Wrap ''scaleTargetRef is incomplete'' ErrNoScaleTargetFound), r)
      else
        (case GetCRD (nn_String (ES_Namespace es) (SpecService (Spec es))) (dir r) of
           Panic m \<Rightarrow> Panic m
         | Ret found \<Rightarrow>
             (case (case found of
                      None \<Rightarrow> Ret r
                    | Some crd \<Rightarrow>
                        if \<not> same_target (Spec es) (CRDSpec crd) then stop_old_target crd req r else Ret r) of
                Panic m \<Rightarrow> Panic m
              | Ret r1 \<Rightarrow>
                  Ret (once_Do r1 (getMutexKeyForTargetRef req) (start_target_informer E es req)))))"

definition service_watch :: "ElastiService \<Rightarrow> Req \<Rightarrow> RequestWatch" where
  "service_watch es req =
     \<lparr>RW_CRDNamespace = ReqNamespace req, RW_CRDName = ReqName req,
      ResourceName = SpecService (Spec es), ResourceNamespace = ES_Namespace es,
      GVR_Group = '''', GVR_Version = ''v1'', GVR_Resource = KindService\<rparr>"

definition watchPublicService ::
  "'c Env \<Rightarrow> ElastiService \<Rightarrow> Req \<Rightarrow> 'c Reconciler \<Rightarrow> goerr option \<times> 'c Reconciler" where
  "watchPublicService E es req r =
     (if SpecService (Spec es) = '''' then
        (Some (Wrap ''null value for public service'' ErrNoPublicServiceFound), r)
      else
        once_Do r (getMutexKeyForPublicSVC req)
          (\<lambda>r. case im_Add E r (service_watch es req) of
                 (Some err, r') \<Rightarrow> (Some (Wrap ''failed to add public service Informer'' err), r')
               | (None, r') \<Rightarrow> (None, r')))"

section \<open>opsModes.go: proxy and serve mode\<close>

definition enableProxyMode ::
  "'c Env \<Rightarrow> Req \<Rightarrow> ElastiService \<Rightarrow> 'c Reconciler \<Rightarrow> (goerr option \<times> 'c Reconciler) go" where
  "enableProxyMode E req es r =
     (case get_svc (client E) (cluster r) (ES_Namespace es) (SpecService (Spec es)) of
        Inl err \<Rightarrow> Ret (Some (Wrap ''failed to get target service'' err), r)
      | Inr targetSVC \<Rightarrow>
          (case checkAndCreatePrivateService (client E) (cluster r) targetSVC es of
             ((pvtName, Some err), c1) \<Rightarrow>
               Ret (Some (Wrap ''failed to check and create private service'' err), r\<lparr>cluster := c1\<rparr>)
           | ((pvtName, None), c1) \<Rightarrow>
               (case watchPublicService E es req (r\<lparr>cluster := c1\<rparr>) of
                  (Some err, r2) \<Rightarrow> Ret (Some (Wrap ''failed to add watch on public service'' err), r2)
                | (None, r2) \<Rightarrow>
                    (case createOrUpdateEndpointsliceToResolver (client E) (cluster r2) targetSVC of
                       Panic m \<Rightarrow> Panic m
                     | Ret (Some err, c3) \<Rightarrow>
                         Ret (Some (Wrap ''failed to create or update endpointslice to resolver'' err),
                              r2\<lparr>cluster := c3\<rparr>)
                     | Ret (None, c3) \<Rightarrow> Ret (None, r2\<lparr>cluster := c3\<rparr>)))))"

definition enableServeMode :: "'c K8s \<Rightarrow> ElastiService \<Rightarrow> 'c \<Rightarrow> goerr option \<times> 'c" where
  "enableServeMode K es c =
     (case deleteEndpointsliceToResolver K c (ES_Namespace es) (SpecService (Spec es)) of
        (Some err, c') \<Rightarrow> (Some (Wrap ''failed to delete endpointslice to resolver'' err), c')
      | (None, c') \<Rightarrow> (None, c'))"

text \<open>The deferred \<open>updateCRDStatus\<close> runs on every return after the resource was read; its error is dropped.\<close>

definition switchMode ::
  "'c Env \<Rightarrow> Req \<Rightarrow> string \<Rightarrow> 'c Reconciler \<Rightarrow> (goerr option \<times> 'c Reconciler) go" where
  "switchMode E req mode r =
     (case getCRD (client E) (cluster r) (ReqNamespace req) (ReqName req) of
        Inl err \<Rightarrow> Ret (Some (Wrap ''failed to get CRD'' err), r)
      | Inr es \<Rightarrow>
          (case (if mode = ServeMode then
                   (case enableServeMode (client E) es (cluster r) of (e, c1) \<Rightarrow> Ret (e, r\<lparr>cluster := c1\<rparr>))
                 else if mode = ProxyMode then enableProxyMode E req es r
                 else Ret (None, r)) of
             Panic m \<Rightarrow> Panic m
           | Ret (e, r1) \<Rightarrow>
               Ret (e, r1\<lparr>cluster := snd (updateCRDStatus (client E) (clock E) (cluster r1)
                                      (ReqNamespace req) (ReqName req) mode)\<rparr>)))"

section \<open>opsCRD.go: deletion\<close>

definition finalizeCRD ::
  "'c Env \<Rightarrow> ElastiService \<Rightarrow> Req \<Rightarrow> 'c Reconciler \<Rightarrow> (goerr option \<times> 'c Reconciler) go" where
  "finalizeCRD E es req r =
     (case StopForCRD (InformerManager r) (ReqName req) of
        Panic m \<Rightarrow> Panic m
      | Ret m' \<Rightarrow>
          let r1 = resetMutexForInformer (resetMutexForInformer (r\<lparr>InformerManager := m'\<rparr>)
                     (getMutexKeyForTargetRef req)) (getMutexKeyForPublicSVC req);
              (err1, c1) = deleteEndpointsliceToResolver (client E) (cluster r1) (ES_Namespace es)
                             (SpecService (Spec es));
              (err2, c2) = deletePrivateService (client E) c1 (ES_Namespace es) (SpecService (Spec es))
          in case RemoveCRD (nn_String (ES_Namespace es) (SpecService (Spec es))) (dir r1) of
               Panic m \<Rightarrow> Panic m
             | Ret d \<Rightarrow>
                 Ret (if err1 \<noteq> None \<or> err2 \<noteq> None
                      then Some (Joined ''failed to finalize CRD'' (List.map_filter id [err1, err2]))
                      else None,
                      r1\<lparr>cluster := c2, dir := d\<rparr>))"

definition finalizeCRDIfDeleted ::
  "'c Env \<Rightarrow> ElastiService \<Rightarrow> Req \<Rightarrow> 'c Reconciler \<Rightarrow> ((bool \<times> goerr option) \<times> 'c Reconciler) go" where
  "finalizeCRDIfDeleted E es req r =
     (if DeletionTimestamp es \<noteq> None then
        if ContainsFinalizer es ElastiServiceFinalizer then
          (case finalizeCRD E es req r of
             Panic m \<Rightarrow> Panic m
           | Ret (Some err, r1) \<Rightarrow> Ret ((True, Some err), r1)
           | Ret (None, r1) \<Rightarrow>
               (case update_es (client E) (cluster r1)
                       (es\<lparr>Finalizers := filter (\<lambda>f. f \<noteq> ElastiServiceFinalizer) (Finalizers es)\<rparr>) of
                  (Some err, c2) \<Rightarrow>
                    Ret ((True, Some (Wrap ''failed to remove finalizer'' err)), r1\<lparr>cluster := c2\<rparr>)
                | (None, c2) \<Rightarrow> Ret ((True, None), r1\<lparr>cluster := c2\<rparr>)))
        else Ret ((True, None), r)
      else Ret ((False, None), r))"

section \<open>elastiservice_controller.go: reconciling\<close>

definition Reconcile :: "'c Env \<Rightarrow> Req \<Rightarrow> 'c Reconciler \<Rightarrow> (goerr option \<times> 'c Reconciler) go" where
  "Reconcile E req r =
     (case getCRD (client E) (cluster r) (ReqNamespace req) (ReqName req) of
        Inl esErr \<Rightarrow> if IsNotFound esErr then Ret (None, r) else Ret (Some esErr, r)
      | Inr es \<Rightarrow>
          (case finalizeCRDIfDeleted E es req r of
             Panic m \<Rightarrow> Panic m
           | Ret ((isDeleted, Some err), r1) \<Rightarrow> Ret (Some err, r1)
           | Ret ((isDeleted, None), r1) \<Rightarrow>
               if isDeleted then Ret (None, r1)
               else
                 (case addCRDFinalizer (client E) (cluster r1) es of
                    (Some err, c2) \<Rightarrow> Ret (Some err, r1\<lparr>cluster := c2\<rparr>)
                  | (None, c2) \<Rightarrow>
                      (case watchScaleTargetRef E es req (r1\<lparr>cluster := c2\<rparr>) of
                         Panic m \<Rightarrow> Panic m
                       | Ret (Some err, r3) \<Rightarrow> Ret (Some err, r3)
                       | Ret (None, r3) \<Rightarrow>
                           (case AddCRD (nn_String (ES_Namespace es) (SpecService (Spec es)))
                                   \<lparr>CRDName = ES_Name es, CRDSpec = Spec es, CRDStatus = Status es\<rparr> (dir r3) of
                              Panic m \<Rightarrow> Panic m
                            | Ret d \<Rightarrow> Ret (None, r3\<lparr>dir := d\<rparr>))))))"

text \<open>The event filter of \<open>SetupWithManager\<close>; \<open>metav1.NamespaceAll\<close> is the empty string.\<close>

definition event_filter :: "string \<Rightarrow> ElastiService option \<Rightarrow> bool" where
  "event_filter watchNamespace obj =
     (case obj of None \<Rightarrow> False | Some es \<Rightarrow> watchNamespace = '''' \<or> ES_Namespace es = watchNamespace)"

fun reconcile_all :: "'c Env \<Rightarrow> ElastiService list \<Rightarrow> 'c Reconciler \<Rightarrow> 'c Reconciler go" where
  "reconcile_all E [] r = Ret r"
| "reconcile_all E (es # ess) r =
     (if DeletionTimestamp es \<noteq> None then reconcile_all E ess r
      else
        (case Reconcile E \<lparr>ReqNamespace = ES_Namespace es, ReqName = ES_Name es\<rparr> r of
           Panic m \<Rightarrow> Panic m
         | Ret (err, r') \<Rightarrow> reconcile_all E ess r'))"

definition reconcileExistingCRDs ::
  "'c Env \<Rightarrow> string \<Rightarrow> 'c Reconciler \<Rightarrow> (goerr option \<times> 'c Reconciler) go" where
  "reconcileExistingCRDs E watchNamespace r =
     (case list_es (client E) (cluster r) watchNamespace of
        Inl err \<Rightarrow> Ret (Some (Wrap ''failed to list ElastiServices'' err), r)
      | Inr items \<Rightarrow>
          (case reconcile_all E items r of Panic m \<Rightarrow> Panic m | Ret r' \<Rightarrow> Ret (None, r')))"

section \<open>opsDeployment.go, opsRollout.go, opsInformer.go: changes of the watched objects\<close>

definition handleTargetDeploymentChanges ::
  "'c Env \<Rightarrow> Deployment result \<Rightarrow> Req \<Rightarrow> 'c Reconciler \<Rightarrow> (goerr option \<times> 'c Reconciler) go" where
  "handleTargetDeploymentChanges E obj req r =
     (case obj of
        Inl err \<Rightarrow> Ret (Some (Wrap ''failed to convert unstructured to deployment'' err), r)
      | Inr targetDeployment \<Rightarrow>
          if StatusReplicas targetDeployment = 0 then
            (case switchMode E req ProxyMode r of
               Panic m \<Rightarrow> Panic m
             | Ret (Some err, r') \<Rightarrow> Ret (Some (Wrap ''failed to switch mode'' err), r')
             | Ret (None, r') \<Rightarrow> Ret (None, r'))
          else if ReadyReplicas targetDeployment > 0 then
            (case switchMode E req ServeMode r of
               Panic m \<Rightarrow> Panic m
             | Ret (Some err, r') \<Rightarrow> Ret (Some (Wrap ''failed to switch mode'' err), r')
             | Ret (None, r') \<Rightarrow> Ret (None, r'))
          else Ret (None, r))"

definition handleTargetRolloutChanges ::
  "'c Env \<Rightarrow> Rollout result \<Rightarrow> Req \<Rightarrow> 'c Reconciler \<Rightarrow> (goerr option \<times> 'c Reconciler) go" where
  "handleTargetRolloutChanges E obj req r =
     (case obj of
        Inl err \<Rightarrow> Ret (Some (Wrap ''failed to convert unstructured to rollout'' err), r)
      | Inr newRollout \<Rightarrow>
          if RolloutReady newRollout = 0 then
            (case switchMode E req ProxyMode r of
               Panic m \<Rightarrow> Panic m
             | Ret (Some err, r') \<Rightarrow> Ret (Some (Wrap ''failed to switch mode'' err), r')
             | Ret (None, r') \<Rightarrow> Ret (None, r'))
          else if RolloutReady newRollout > 0 \<and> RolloutPhase newRollout = ArgoPhaseHealthy then
            (case switchMode E req ServeMode r of
               Panic m \<Rightarrow> Panic m
             | Ret (Some err, r') \<Rightarrow> Ret (Some (Wrap ''failed to switch mode'' err), r')
             | Ret (None, r') \<Rightarrow> Ret (None, r'))
          else Ret (None, r))"

record Obj =
  as_deployment :: "Deployment result"
  as_rollout :: "Rollout result"

definition handleScaleTargetRefChanges ::
  "'c Env \<Rightarrow> Obj \<Rightarrow> ElastiService \<Rightarrow> Req \<Rightarrow> 'c Reconciler \<Rightarrow> (goerr option \<times> 'c Reconciler) go" where
  "handleScaleTargetRefChanges E obj es req r =
     (if ToLower (Kind (TargetRef (Spec es))) = KindDeployments then
        handleTargetDeploymentChanges E (as_deployment obj) req r
      else if ToLower (Kind (TargetRef (Spec es))) = KindRollout then
        handleTargetRolloutChanges E (as_rollout obj) req r
      else Ret (Some (Err ''unsupported target kind''), r))"

text \<open>One entry of the directory: in proxy mode its slice is made to point at the current resolver pods.\<close>

definition refresh_slice :: "'c K8s \<Rightarrow> string \<times> CRDDetails \<Rightarrow> 'c \<Rightarrow> 'c go" where
  "refresh_slice K entry c =
     (case entry of
        (key, crdDetails) \<Rightarrow>
          if Mode (CRDStatus crdDetails) \<noteq> ProxyMode then Ret c
          else
            let parts = Split key (CHR ''/'')
            in if length parts \<noteq> 2 then Ret c
               else
                 (case get_svc K c (parts ! 0) (parts ! 1) of
                    Inl err \<Rightarrow> Ret c
                  | Inr targetService \<Rightarrow>
                      (case createOrUpdateEndpointsliceToResolver K c targetService of
                         Panic m \<Rightarrow> Panic m
                       | Ret (err, c') \<Rightarrow> Ret c')))"

fun refresh_slices :: "'c K8s \<Rightarrow> (string \<times> CRDDetails) list \<Rightarrow> 'c \<Rightarrow> 'c go" where
  "refresh_slices K [] c = Ret c"
| "refresh_slices K (entry # entries) c =
     (case refresh_slice K entry c of Panic m \<Rightarrow> Panic m | Ret c' \<Rightarrow> refresh_slices K entries c')"

definition handleResolverChanges ::
  "'c Env \<Rightarrow> Deployment result \<Rightarrow> 'c Reconciler \<Rightarrow> (goerr option \<times> 'c Reconciler) go" where
  "handleResolverChanges E obj r =
     (case obj of
        Inl err \<Rightarrow> Ret (Some (Wrap ''failed to convert unstructured to deployment'' err), r)
      | Inr resolverDeployment \<Rightarrow>
          if DeployName resolverDeployment \<noteq> resolverDeploymentName then Ret (None, r)
          else
            (case dir r of
               None \<Rightarrow> Panic ''invalid memory address or nil pointer dereference''
             | Some entries \<Rightarrow>
                 (case refresh_slices (client E) entries (cluster r) of
                    Panic m \<Rightarrow> Panic m
                  | Ret c' \<Rightarrow> Ret (None, r\<lparr>cluster := c'\<rparr>))))"

section \<open>opsInformer.go: the event handlers\<close>

text \<open>
  The functions of a \<open>cache.ResourceEventHandlerFuncs\<close>; a missing one does nothing, and errors are
  only logged and counted.
\<close>

datatype 'o event = AddEvent 'o | UpdateEvent 'o 'o | DeleteEvent 'o

definition drop_error :: "(goerr option \<times> 'c Reconciler) go \<Rightarrow> 'c Reconciler go" where
  "drop_error x = (case x of Panic m \<Rightarrow> Panic m | Ret (e, r) \<Rightarrow> Ret r)"

definition getResolverChangeHandler ::
  "'c Env \<Rightarrow> Deployment result event \<Rightarrow> 'c Reconciler \<Rightarrow> 'c Reconciler go" where
  "getResolverChangeHandler E ev r =
     (case ev of
        AddEvent obj \<Rightarrow> drop_error (handleResolverChanges E obj r)
      | UpdateEvent old newObj \<Rightarrow> drop_error (handleResolverChanges E newObj r)
      | DeleteEvent obj \<Rightarrow> Ret r)"

definition on_public_service ::
  "'c Env \<Rightarrow> ElastiService \<Rightarrow> Service result \<Rightarrow> 'c Reconciler \<Rightarrow> 'c Reconciler go" where
  "on_public_service E es obj r =
     (case handlePublicServiceChanges (client E) (cluster r) obj (SpecService (Spec es)) of
        Panic m \<Rightarrow> Panic m
      | Ret (e, c) \<Rightarrow> Ret (r\<lparr>cluster := c\<rparr>))"

definition getPublicServiceChangeHandler ::
  "'c Env \<Rightarrow> ElastiService \<Rightarrow> Service result event \<Rightarrow> 'c Reconciler \<Rightarrow> 'c Reconciler go" where
  "getPublicServiceChangeHandler E es ev r =
     (case ev of
        AddEvent obj \<Rightarrow> on_public_service E es obj r
      | UpdateEvent old newObj \<Rightarrow> on_public_service E es newObj r
      | DeleteEvent obj \<Rightarrow> Ret r)"

text \<open>There is no \<open>AddFunc\<close> and no \<open>DeleteFunc\<close> here. \<open>es\<close> is the resource as it was when the watch began.\<close>

definition getScaleTargetRefChangeHandler ::
  "'c Env \<Rightarrow> ElastiService \<Rightarrow> Req \<Rightarrow> Obj event \<Rightarrow> 'c Reconciler \<Rightarrow> 'c Reconciler go" where
  "getScaleTargetRefChangeHandler E es req ev r =
     (case ev of
        AddEvent obj \<Rightarrow> Ret r
      | UpdateEvent old newObj \<Rightarrow> drop_error (handleScaleTargetRefChanges E newObj es req r)
      | DeleteEvent obj \<Rightarrow> Ret r)"

text \<open>
  \<open>Initialize\<close>, up to the start of the scale-down watcher; \<open>handlerErr\<close> and \<open>synced\<close> are what client-go
  answers when the informer on the resolver is set up.
\<close>

definition Initialize ::
  "'c Env \<Rightarrow> goerr option \<Rightarrow> bool \<Rightarrow> string \<Rightarrow> 'c Reconciler \<Rightarrow> (goerr option \<times> 'c Reconciler) go" where
  "Initialize E handlerErr synced watchNamespace r =
     (case reconcileExistingCRDs E watchNamespace r of
        Panic m \<Rightarrow> Panic m
      | Ret (Some err, r') \<Rightarrow> Ret (Some (Wrap ''failed to reconcile existing CRDs'' err), r')
      | Ret (None, r') \<Rightarrow>
          (case InitializeResolverInformer handlerErr synced (InformerManager r') of
             Panic m \<Rightarrow> Panic m
           | Ret (Some err, m) \<Rightarrow>
               Ret (Some (Wrap ''failed to initialize resolver informer'' err), r'\<lparr>InformerManager := m\<rparr>)
           | Ret (None, m) \<Rightarrow> Ret (None, r'\<lparr>InformerManager := m\<rparr>)))"

end
