(* ===== verification/ControllerCorrect.thy ===== *)
theory ControllerCorrect
  imports Controller
begin

text \<open>
  What the reconciler achieves, under the laws of the API server. \<open>wf_cluster\<close> says that objects are
  stored under their own names. The lemmas give the effect of each operation that succeeds on the
  stored objects; the properties at the end are about the two modes, the life of a resource and the
  watches.
\<close>

section \<open>Effects on the stored objects\<close>

lemma get_svc_view: "k8s_laws K view \<Longrightarrow> get_svc K c ns n = Inr s \<Longrightarrow> C_svcs (view c) (ns, n) = Some s"
  using k8s_lawsD(1) [of K view c ns n] by (simp add: k8s_simps)

lemma get_slice_view: "k8s_laws K view \<Longrightarrow> get_slice K c ns n = Inr s \<Longrightarrow> C_slices (view c) (ns, n) = Some s"
  using k8s_lawsD(5) [of K view c ns n] by (simp add: k8s_simps)

lemma get_es_view: "k8s_laws K view \<Longrightarrow> getCRD K c ns n = Inr e \<Longrightarrow> C_es (view c) (ns, n) = Some e"
  using k8s_lawsD(9) [of K view c ns n] by (auto simp: k8s_simps getCRD_def split: sum.splits)

lemma del_slice_absent: "C_slices m (ns, n) = None \<Longrightarrow> del_slice ns n m = m"
  by (simp add: del_slice_def fun_upd_idem)

lemma del_svc_absent: "C_svcs m (ns, n) = None \<Longrightarrow> del_svc ns n m = m"
  by (simp add: del_svc_def fun_upd_idem)

lemma deleteEndpointslice_ok:
  assumes "k8s_laws K view" "wf_cluster (view c)" "deleteEndpointsliceToResolver K c ns svc = (None, c')"
  shows "view c' = del_slice ns (GetEndpointSliceToResolverName svc) (view c)"
proof (cases "get_slice K c ns (GetEndpointSliceToResolverName svc)")
  case (Inl err)
  with assms(3) have "IsNotFound err" "c' = c" by (auto simp: deleteEndpointsliceToResolver_def split: if_splits)
  moreover from this Inl have "C_slices (view c) (ns, GetEndpointSliceToResolverName svc) = None"
    using k8s_lawsD(5) [OF assms(1), of c ns "GetEndpointSliceToResolverName svc"] by (simp add: k8s_simps)
  ultimately show ?thesis by (simp add: del_slice_absent)
next
  case (Inr s)
  then have "SliceNamespace s = ns" "SliceName s = GetEndpointSliceToResolverName svc"
    using wf_clusterD(2) [OF assms(2)] get_slice_view [OF assms(1)] by blast+
  with Inr show ?thesis
    using assms(3) k8s_lawsD(8) [OF assms(1), of c s]
    by (auto simp: deleteEndpointsliceToResolver_def k8s_simps split: prod.splits option.splits)
qed

lemma deletePrivateService_ok:
  assumes "k8s_laws K view" "wf_cluster (view c)" "deletePrivateService K c ns svc = (None, c')"
  shows "view c' = del_svc ns (GetPrivateServiceName svc) (view c)"
proof (cases "get_svc K c ns (GetPrivateServiceName svc)")
  case (Inl err)
  with assms(3) have "IsNotFound err" "c' = c" by (auto simp: deletePrivateService_def split: if_splits)
  moreover from this Inl have "C_svcs (view c) (ns, GetPrivateServiceName svc) = None"
    using k8s_lawsD(1) [OF assms(1), of c ns "GetPrivateServiceName svc"] by (simp add: k8s_simps)
  ultimately show ?thesis by (simp add: del_svc_absent)
next
  case (Inr s)
  then have "SvcNamespace s = ns" "SvcName s = GetPrivateServiceName svc"
    using wf_clusterD(1) [OF assms(2)] get_svc_view [OF assms(1)] by blast+
  with Inr show ?thesis
    using assms(3) k8s_lawsD(4) [OF assms(1), of c s]
    by (auto simp: deletePrivateService_def k8s_simps split: prod.splits option.splits)
qed

text \<open>The private service exists already, or a copy of the public one is stored.\<close>

lemma checkAndCreate_ok:
  assumes "k8s_laws K view" "checkAndCreatePrivateService K c pub es = ((n, None), c')"
  shows "(view c' = view c \<and> C_svcs (view c) (SvcNamespace pub, GetPrivateServiceName (SvcName pub)) \<noteq> None) \<or>
    view c' = put_svc ((privateCopy pub)\<lparr>SvcOwner := Some (ES_Name es)\<rparr>) (view c)"
proof (cases "get_svc K c (SvcNamespace pub) (GetPrivateServiceName (SvcName pub))")
  case (Inr s)
  with assms get_svc_view [OF assms(1) Inr] show ?thesis by (simp add: checkAndCreatePrivateService_def)
next
  case (Inl err)
  with assms(2) obtain s where s: "set_controller K es (privateCopy pub) = Inr s" "create_svc K c s = (None, c')"
    by (auto simp: checkAndCreatePrivateService_def Let_def split: sum.splits prod.splits option.splits)
  from k8s_lawsD(18) [OF assms(1) s(1)] s(2) k8s_lawsD(2) [OF assms(1), of c s] show ?thesis
    by (simp add: k8s_simps)
qed

lemma sliceFound_cases:
  assumes "createOrUpdateEndpointsliceToResolver K c service = Ret (None, c')"
  obtains ips found port ports where
    "getIPsForResolver K c = Inr ips" "Ports service = port # ports"
    "(if found then update_slice K c (sliceToResolver service (PortName port) ips)
      else create_slice K c (sliceToResolver service (PortName port) ips)) = (None, c')"
proof -
  from assms obtain ips where ips: "getIPsForResolver K c = Inr ips"
    by (cases "getIPsForResolver K c") (auto simp: createOrUpdateEndpointsliceToResolver_def)
  let ?found = "case get_slice K c (SvcNamespace service) (GetEndpointSliceToResolverName (SvcName service)) of
      Inl err \<Rightarrow> if IsNotFound err then Inr False else Inl err | Inr s \<Rightarrow> Inr True"
  obtain found where found: "?found = Inr found"
    using assms ips by (cases ?found) (simp_all add: createOrUpdateEndpointsliceToResolver_def Let_def)
  obtain port ports where ports: "Ports service = port # ports"
    using assms ips found by (cases "Ports service") (simp_all add: createOrUpdateEndpointsliceToResolver_def Let_def)
  obtain e c2 where w: "(if found then update_slice K c (sliceToResolver service (PortName port) ips)
      else create_slice K c (sliceToResolver service (PortName port) ips)) = (e, c2)" by fastforce
  have "e = None \<and> c2 = c'"
    using assms ips found ports w
    by (simp add: createOrUpdateEndpointsliceToResolver_def Let_def split: option.splits)
  with w have "(if found then update_slice K c (sliceToResolver service (PortName port) ips)
      else create_slice K c (sliceToResolver service (PortName port) ips)) = (None, c')" by simp
  from that [OF ips ports this] show thesis .
qed

lemma createOrUpdate_ok:
  assumes "k8s_laws K view" "createOrUpdateEndpointsliceToResolver K c service = Ret (None, c')"
  shows "\<exists>ips. getIPsForResolver K c = Inr ips \<and> ips \<noteq> [] \<and> Ports service \<noteq> [] \<and>
    view c' = put_slice (sliceToResolver service (PortName (hd (Ports service))) ips) (view c)"
proof -
  from sliceFound_cases [OF assms(2)] obtain ips found port ports where
    ips: "getIPsForResolver K c = Inr ips" and p: "Ports service = port # ports"
    and w: "(if found then update_slice K c (sliceToResolver service (PortName port) ips)
      else create_slice K c (sliceToResolver service (PortName port) ips)) = (None, c')" .
  from ips have ne: "ips \<noteq> []" by (auto simp: getIPsForResolver_def Let_def split: sum.splits if_splits)
  let ?s = "sliceToResolver service (PortName port) ips"
  have "view c' = put_slice ?s (view c)"
    using w k8s_lawsD(6,7) [OF assms(1), of c ?s] by (cases found) (simp_all add: k8s_simps)
  with ips ne p show ?thesis by simp
qed

lemma cluster_once:
  assumes "\<And>r e r'. f r = (e, r') \<Longrightarrow> cluster r' = cluster r" "once_Do r key f = (e, r')"
  shows "cluster r' = cluster r"
  using assms by (auto simp: once_Do_def split: if_splits prod.splits)

lemma cluster_im_Add: "im_Add E r w = (e, r') \<Longrightarrow> cluster r' = cluster r"
  by (auto simp: im_Add_def split: prod.splits)

lemma cluster_watchPublicService:
  assumes "watchPublicService E es req r = (e, r')"
  shows "cluster r' = cluster r"
proof (cases "SpecService (Spec es) = []")
  case True
  with assms show ?thesis by (simp add: watchPublicService_def)
next
  case False
  let ?f = "\<lambda>r. case im_Add E r (service_watch es req) of
      (Some err, r') \<Rightarrow> (Some (Wrap ''failed to add public service Informer'' err), r')
    | (None, r') \<Rightarrow> (None, r')"
  have f: "cluster r2 = cluster r1" if "?f r1 = (e2, r2)" for r1 e2 r2
    using that cluster_im_Add [of E r1 "service_watch es req"] by (auto split: prod.splits option.splits)
  have "once_Do r (getMutexKeyForPublicSVC req) ?f = (e, r')"
    using assms False by (simp add: watchPublicService_def)
  from cluster_once [OF f this] show ?thesis by simp
qed

section \<open>A server that answers\<close>

text \<open>
  \<open>api_up\<close>: lookups fail only for objects that do not exist, writes are accepted, and a listing of
  slices depends on the stored slices only.
\<close>

definition api_up :: "'c K8s \<Rightarrow> ('c \<Rightarrow> Cluster) \<Rightarrow> bool" where
  "api_up K view =
     ((\<forall>c ns n e. get_svc K c ns n = Inl e \<longrightarrow> IsNotFound e) \<and>
      (\<forall>c ns n e. get_slice K c ns n = Inl e \<longrightarrow> IsNotFound e) \<and>
      (\<forall>c ns n e. get_es K c ns n = Inl e \<longrightarrow> IsNotFound e) \<and>
      (\<forall>c s. fst (create_svc K c s) = None) \<and> (\<forall>c s. fst (delete_svc K c s) = None) \<and>
      (\<forall>c s. fst (update_svc K c s) = None) \<and>
      (\<forall>c ns n e. get_deployment K c ns n = Inl e \<longrightarrow> IsNotFound e) \<and>
      (\<forall>c ns n i. fst (patch_deployment K c ns n i) = None) \<and>
      (\<forall>c ns n as. fst (patch_scaledobject K c ns n as) = None) \<and>
      (\<forall>c s. fst (create_slice K c s) = None) \<and> (\<forall>c s. fst (update_slice K c s) = None) \<and>
      (\<forall>c s. fst (delete_slice K c s) = None) \<and> (\<forall>c e. fst (update_es K c e) = None) \<and>
      (\<forall>c ns n f. fst (patch_status K c ns n f) = None) \<and>
      (\<forall>e s. \<exists>s'. set_controller K e s = Inr s') \<and>
      (\<exists>f. \<forall>c svc. list_slices K c svc = f svc (C_slices (view c))))"

lemma api_upD:
  assumes "api_up K view"
  shows "get_svc K c ns n = Inl e \<Longrightarrow> IsNotFound e" "get_slice K c ns n = Inl e \<Longrightarrow> IsNotFound e"
    "get_es K c ns n = Inl e \<Longrightarrow> IsNotFound e"
    "fst (create_svc K c s) = None" "fst (delete_svc K c s) = None" "fst (create_slice K c sl) = None"
    "fst (update_slice K c sl) = None" "fst (delete_slice K c sl) = None" "fst (update_es K c es) = None"
    "fst (patch_status K c ns n f) = None" "\<exists>s'. set_controller K es s = Inr s'"
    "C_slices (view c) = C_slices (view c') \<Longrightarrow> list_slices K c svc = list_slices K c' svc"
    "fst (update_svc K c s) = None" "get_deployment K c ns n = Inl e \<Longrightarrow> IsNotFound e"
    "fst (patch_deployment K c ns n i) = None" "fst (patch_scaledobject K c ns n as) = None"
  using assms unfolding api_up_def by (elim conjE exE; simp)+

lemma memory_client_up: "api_up (memory_client ks) id"
  by (auto simp: api_up_def memory_client_def find_obj_def IsNotFound_def split: option.splits
      intro!: exI [of _ "\<lambda>svc m. Inr (filter (\<lambda>s. SliceService s = svc) (List.map_filter m ks))"])

lemma get_svc_up:
  assumes "k8s_laws K view" "api_up K view"
  shows "C_svcs (view c) (ns, n) = Some s \<Longrightarrow> get_svc K c ns n = Inr s"
    "C_svcs (view c) (ns, n) = None \<Longrightarrow> \<exists>e. get_svc K c ns n = Inl e"
  using k8s_lawsD(1) [OF assms(1), of c ns n] api_upD(1) [OF assms(2), of c ns n]
  by (cases "get_svc K c ns n"; simp add: k8s_simps)+

lemma get_es_up:
  assumes "k8s_laws K view" "api_up K view" "C_es (view c) (ns, n) = Some e"
  shows "getCRD K c ns n = Inr e"
  using k8s_lawsD(9) [OF assms(1), of c ns n] api_upD(3) [OF assms(2), of c ns n] assms(3)
  by (cases "get_es K c ns n"; simp add: k8s_simps getCRD_def)

lemma fst_None_pair: "fst p = None \<Longrightarrow> \<exists>x. p = (None, x)"
  by (cases p) simp

lemma deleteEndpointslice_up:
  assumes "api_up K view"
  shows "fst (deleteEndpointsliceToResolver K c ns svc) = None"
proof (cases "get_slice K c ns (GetEndpointSliceToResolverName svc)")
  case (Inl e)
  with api_upD(2) [OF assms Inl] show ?thesis by (simp add: deleteEndpointsliceToResolver_def)
next
  case (Inr s)
  from fst_None_pair [OF api_upD(8) [OF assms, of c s]] Inr show ?thesis
    by (auto simp: deleteEndpointsliceToResolver_def)
qed

lemma deletePrivateService_up:
  assumes "api_up K view"
  shows "fst (deletePrivateService K c ns svc) = None"
proof (cases "get_svc K c ns (GetPrivateServiceName svc)")
  case (Inl e)
  with api_upD(1) [OF assms Inl] show ?thesis by (simp add: deletePrivateService_def)
next
  case (Inr s)
  from fst_None_pair [OF api_upD(5) [OF assms, of c s]] Inr show ?thesis
    by (auto simp: deletePrivateService_def)
qed

lemma checkAndCreate_up:
  assumes "api_up K view"
  shows "snd (fst (checkAndCreatePrivateService K c pub es)) = None"
proof -
  obtain s' where s': "set_controller K es (privateCopy pub) = Inr s'" using api_upD(11) [OF assms] by blast
  with fst_None_pair [OF api_upD(4) [OF assms, of c s']] show ?thesis
    by (auto simp: checkAndCreatePrivateService_def Let_def split: sum.splits)
qed

lemma createOrUpdate_up:
  assumes "api_up K view" "getIPsForResolver K c = Inr ips" "Ports service \<noteq> []"
  shows "\<exists>c'. createOrUpdateEndpointsliceToResolver K c service = Ret (None, c')"
proof -
  obtain port ports where p: "Ports service = port # ports" using assms(3) by (cases "Ports service") auto
  let ?s = "sliceToResolver service (PortName port) ips"
  let ?get = "get_slice K c (SvcNamespace service) (GetEndpointSliceToResolverName (SvcName service))"
  obtain c1 c2 where w: "update_slice K c ?s = (None, c1)" "create_slice K c ?s = (None, c2)"
    using api_upD(6,7) [OF assms(1), of c ?s] by (metis prod.collapse)
  show ?thesis
  proof (cases ?get)
    case (Inl e)
    with api_upD(2) [OF assms(1) Inl] assms(2) p w show ?thesis
      by (simp add: createOrUpdateEndpointsliceToResolver_def)
  next
    case (Inr s)
    with assms(2) p w show ?thesis by (simp add: createOrUpdateEndpointsliceToResolver_def)
  qed
qed

lemma IPs_same_slices:
  "api_up K view \<Longrightarrow> C_slices (view c') = C_slices (view c) \<Longrightarrow> getIPsForResolver K c' = getIPsForResolver K c"
  using api_upD(12) [of K view c' c] by (simp add: getIPsForResolver_def)

text \<open>Starting the watch on the public service does not depend on the cluster.\<close>

lemma watchPublicService_cluster:
  "fst (watchPublicService E es req (r\<lparr>cluster := c\<rparr>)) = fst (watchPublicService E es req r)"
  by (auto simp: watchPublicService_def once_Do_def im_Add_def split: prod.splits option.splits)

section \<open>The two modes\<close>

lemma enableServeMode_ok:
  assumes "k8s_laws K view" "wf_cluster (view c)" "enableServeMode K es c = (None, c')"
  shows "view c' = del_slice (ES_Namespace es) (GetEndpointSliceToResolverName (SpecService (Spec es))) (view c)"
  using assms(3) deleteEndpointslice_ok [OF assms(1,2)]
  by (auto simp: enableServeMode_def split: prod.splits option.splits)

text \<open>Success is guaranteed when the server answers, the public service has ports and a resolver pod exists.\<close>

lemma enableProxyMode_up:
  assumes laws: "k8s_laws (client E) view" and up: "api_up (client E) view"
    and svc: "C_svcs (view (cluster r)) (ES_Namespace es, SpecService (Spec es)) = Some svc" "Ports svc \<noteq> []"
    and ips: "getIPsForResolver (client E) (cluster r) = Inr ips"
    and w: "fst (watchPublicService E es req r) = None"
  shows "\<exists>r'. enableProxyMode E req es r = Ret (None, r')"
proof -
  let ?K = "client E"
  have g: "get_svc ?K (cluster r) (ES_Namespace es) (SpecService (Spec es)) = Inr svc"
    by (rule get_svc_up(1) [OF laws up svc(1)])
  obtain n c1 where p: "checkAndCreatePrivateService ?K (cluster r) svc es = ((n, None), c1)"
    using checkAndCreate_up [OF up, of "cluster r" svc es]
    by (cases "checkAndCreatePrivateService ?K (cluster r) svc es") (metis prod.collapse fst_conv)
  obtain r2 where r2: "watchPublicService E es req (r\<lparr>cluster := c1\<rparr>) = (None, r2)"
    using fst_None_pair [of "watchPublicService E es req (r\<lparr>cluster := c1\<rparr>)"] w
    by (auto simp: watchPublicService_cluster)
  have "C_slices (view c1) = C_slices (view (cluster r))"
    using checkAndCreate_ok [OF laws p] by (auto simp: put_svc_def)
  with cluster_watchPublicService [OF r2] ips have "getIPsForResolver ?K (cluster r2) = Inr ips"
    using IPs_same_slices [OF up, of c1 "cluster r"] by simp
  from createOrUpdate_up [OF up this svc(2)] g p r2 show ?thesis
    by (auto simp: enableProxyMode_def)
qed

lemma enableServeMode_up: "api_up K view \<Longrightarrow> \<exists>c'. enableServeMode K es c = (None, c')"
  using deleteEndpointslice_up [of K view c "ES_Namespace es" "SpecService (Spec es)"]
  by (auto simp: enableServeMode_def split: prod.splits option.splits)

text \<open>What the proxy mode leaves in the cluster.\<close>

definition proxied :: "Service \<Rightarrow> ElastiService \<Rightarrow> string list \<Rightarrow> Cluster \<Rightarrow> Cluster" where
  "proxied svc es ips m =
     put_slice (sliceToResolver svc (PortName (hd (Ports svc))) ips)
       (if C_svcs m (SvcNamespace svc, GetPrivateServiceName (SvcName svc)) = None
        then put_svc ((privateCopy svc)\<lparr>SvcOwner := Some (ES_Name es)\<rparr>) m else m)"

lemma checkAndCreate_view:
  assumes laws: "k8s_laws K view" and up: "api_up K view"
    and run: "checkAndCreatePrivateService K c pub es = ((n, None), c')"
  shows "view c' = (if C_svcs (view c) (SvcNamespace pub, GetPrivateServiceName (SvcName pub)) = None
    then put_svc ((privateCopy pub)\<lparr>SvcOwner := Some (ES_Name es)\<rparr>) (view c) else view c)"
proof (cases "C_svcs (view c) (SvcNamespace pub, GetPrivateServiceName (SvcName pub))")
  case None
  with checkAndCreate_ok [OF laws run] show ?thesis by auto
next
  case (Some s)
  with get_svc_up(1) [OF laws up Some] run show ?thesis by (simp add: checkAndCreatePrivateService_def)
qed

lemma enableProxyMode_view:
  assumes laws: "k8s_laws (client E) view" and up: "api_up (client E) view"
    and svc: "C_svcs (view (cluster r)) (ES_Namespace es, SpecService (Spec es)) = Some svc" "Ports svc \<noteq> []"
    and ips: "getIPsForResolver (client E) (cluster r) = Inr ips"
    and w: "fst (watchPublicService E es req r) = None"
  shows "\<exists>r'. enableProxyMode E req es r = Ret (None, r') \<and>
    view (cluster r') = proxied svc es ips (view (cluster r))"
proof -
  let ?K = "client E"
  obtain r' where run: "enableProxyMode E req es r = Ret (None, r')"
    using enableProxyMode_up [OF laws up svc ips w] by blast
  have g: "get_svc ?K (cluster r) (ES_Namespace es) (SpecService (Spec es)) = Inr svc"
    by (rule get_svc_up(1) [OF laws up svc(1)])
  with run obtain n c1 r2 c3 where
    p: "checkAndCreatePrivateService ?K (cluster r) svc es = ((n, None), c1)"
    and r2: "watchPublicService E es req (r\<lparr>cluster := c1\<rparr>) = (None, r2)"
    and s: "createOrUpdateEndpointsliceToResolver ?K (cluster r2) svc = Ret (None, c3)"
    and r': "r' = r2\<lparr>cluster := c3\<rparr>"
    by (auto simp: enableProxyMode_def split: prod.splits option.splits go.splits)
  have c1: "cluster r2 = c1" using cluster_watchPublicService [OF r2] by simp
  have "C_slices (view c1) = C_slices (view (cluster r))"
    using checkAndCreate_ok [OF laws p] by (auto simp: put_svc_def)
  then have "getIPsForResolver ?K c1 = Inr ips" using IPs_same_slices [OF up, of c1 "cluster r"] ips by simp
  with createOrUpdate_ok [OF laws s] c1 have
    "view c3 = put_slice (sliceToResolver svc (PortName (hd (Ports svc))) ips) (view c1)" by auto
  with checkAndCreate_view [OF laws up p] r' run show ?thesis by (simp add: proxied_def)
qed

lemma wf_proxied: "wf_cluster m \<Longrightarrow> wf_cluster (proxied svc es ips m)"
  by (simp add: proxied_def wf_put)

section \<open>Deletion\<close>

lemma finalizeCRD_view:
  assumes laws: "k8s_laws (client E) view" and up: "api_up (client E) view"
    and wf: "wf_cluster (view (cluster r))" and im: "im_inv (InformerManager r)"
    and long: "list_all (\<lambda>(k, i). length (ReqName req) \<le> length k) (informers (InformerManager r))"
    and d: "dir r = Some al"
  shows "\<exists>r'. finalizeCRD E es req r = Ret (None, r') \<and>
    view (cluster r') = del_svc (ES_Namespace es) (GetPrivateServiceName (SpecService (Spec es)))
      (del_slice (ES_Namespace es) (GetEndpointSliceToResolverName (SpecService (Spec es))) (view (cluster r))) \<and>
    dir r' = Some (delete_entry (nn_String (ES_Namespace es) (SpecService (Spec es))) al) \<and>
    informers (InformerManager r') = filter (\<lambda>(k, i). \<not> has_prefix (ReqName req) k) (informers (InformerManager r)) \<and>
    InformerStartLocks r' = (InformerStartLocks r)
      (getMutexKeyForTargetRef req := None, getMutexKeyForPublicSVC req := None)"
proof -
  obtain m' where m': "StopForCRD (InformerManager r) (ReqName req) = Ret m'"
    "informers m' = filter (\<lambda>(k, i). \<not> has_prefix (ReqName req) k) (informers (InformerManager r))"
    using StopForCRD_ok [OF im long] by blast
  obtain c1 where c1: "deleteEndpointsliceToResolver (client E) (cluster r) (ES_Namespace es) (SpecService (Spec es)) = (None, c1)"
    using fst_None_pair [OF deleteEndpointslice_up [OF up]] by blast
  obtain c2 where c2: "deletePrivateService (client E) c1 (ES_Namespace es) (SpecService (Spec es)) = (None, c2)"
    using fst_None_pair [OF deletePrivateService_up [OF up]] by blast
  note v1 = deleteEndpointslice_ok [OF laws wf c1]
  have "wf_cluster (view c1)" using v1 wf by (simp add: wf_put)
  note v2 = deletePrivateService_ok [OF laws this c2]
  show ?thesis
    using m' c1 c2 v1 v2 d
    by (simp add: finalizeCRD_def Let_def resetMutexForInformer_def RemoveCRD_def)
qed

lemma put_es_last_finalizer:
  assumes "DeletionTimestamp es \<noteq> None" "set (Finalizers es) \<subseteq> {f}"
  shows "C_es (put_es (es\<lparr>Finalizers := filter (\<lambda>g. g \<noteq> f) (Finalizers es)\<rparr>) m) (ES_Namespace es, ES_Name es) = None"
proof -
  have "filter (\<lambda>g. g \<noteq> f) (Finalizers es) = []" using assms(2) by (auto simp: filter_empty_conv)
  with assms(1) show ?thesis by (simp add: put_es_def split: option.splits)
qed

section \<open>Reconciling\<close>

text \<open>The environment lets an informer for the watch start.\<close>

definition watchable :: "informer_env \<Rightarrow> RequestWatch \<Rightarrow> bool" where
  "watchable env w =
     (ie_Get env w = None \<and> ie_AddEventHandler env w = None \<and> ie_WaitForCacheSync env w)"

lemma Add_watchable: "watchable env w \<Longrightarrow> fst (Add env m w) = None"
  by (auto simp: watchable_def Add_def verifyTargetExist_def enableInformer_def Let_def split: option.splits)

lemma im_Add_watchable:
  assumes "watchable (informer_env E) w"
  obtains m where "im_Add E r w = (None, r\<lparr>InformerManager := m\<rparr>)" "running m (getKeyFromRequestWatch w)"
    "\<And>k. k \<noteq> getKeyFromRequestWatch w \<Longrightarrow> running m k = running (InformerManager r) k"
proof -
  obtain m where m: "Add (informer_env E) (InformerManager r) w = (None, m)"
    using fst_None_pair [OF Add_watchable [OF assms]] by blast
  show thesis
    by (rule that [of m]) (use m im.add_ok [OF m] im.add_other [OF m] in \<open>simp_all add: im_Add_def\<close>)
qed

text \<open>The key under which the informer of a target runs.\<close>

definition target_key :: "Req \<Rightarrow> ElastiServiceSpec \<Rightarrow> string" where
  "target_key req spec =
     informer_key (ReqName req) (ReqNamespace req) (ToLower (Kind (TargetRef spec))) (TargetRefName (TargetRef spec))"

lemma target_key_watch: "getKeyFromRequestWatch (target_watch es req g v) = target_key req (Spec es)"
  by (simp add: getKeyFromRequestWatch_def target_watch_def target_key_def)

definition complete_target :: "ElastiServiceSpec \<Rightarrow> bool" where
  "complete_target spec =
     (TargetRefName (TargetRef spec) \<noteq> '''' \<and> Kind (TargetRef spec) \<noteq> '''' \<and> APIVersion (TargetRef spec) \<noteq> '''')"

text \<open>The informer for the current target runs already, or its start is still to be tried.\<close>

definition start_pending :: "'c Reconciler \<Rightarrow> Req \<Rightarrow> ElastiService \<Rightarrow> bool" where
  "start_pending r req es =
     (InformerStartLocks r (getMutexKeyForTargetRef req) \<noteq> Some True \<or>
      running (InformerManager r) (target_key req (Spec es)))"

lemma start_target_once:
  assumes parse: "ParseAPIVersion (APIVersion (TargetRef (Spec es))) = Inr (g, v)"
    and w: "watchable (informer_env E) (target_watch es req g v)" and p: "start_pending r req es"
  obtains m l where "once_Do r (getMutexKeyForTargetRef req) (start_target_informer E es req) =
      (None, r\<lparr>InformerManager := m, InformerStartLocks := l\<rparr>)"
    "running m (target_key req (Spec es))"
    "\<And>k. k \<noteq> target_key req (Spec es) \<Longrightarrow> running m k = running (InformerManager r) k"
proof (cases "InformerStartLocks r (getMutexKeyForTargetRef req) = Some True")
  case True
  then show thesis
    using that [of "InformerStartLocks r" "InformerManager r"] p by (simp add: once_Do_def start_pending_def)
next
  case False
  obtain m where m: "im_Add E r (target_watch es req g v) = (None, r\<lparr>InformerManager := m\<rparr>)"
    "running m (target_key req (Spec es))"
    "\<And>k. k \<noteq> target_key req (Spec es) \<Longrightarrow> running m k = running (InformerManager r) k"
    using im_Add_watchable [OF w, of r] unfolding target_key_watch by metis
  have "once_Do r (getMutexKeyForTargetRef req) (start_target_informer E es req) =
      (None, r\<lparr>InformerManager := m, InformerStartLocks := (InformerStartLocks r)(getMutexKeyForTargetRef req \<mapsto> True)\<rparr>)"
    using False m(1) parse by (simp add: once_Do_def start_target_informer_def)
  from that [OF this m(2,3)] show thesis .
qed

lemma stop_old_target_ok:
  assumes "im_inv (InformerManager r)"
  obtains m l where "stop_old_target crd req r = Ret (r\<lparr>InformerManager := m, InformerStartLocks := l\<rparr>)"
    "l (getMutexKeyForTargetRef req) = None"
    "\<And>k. running m k = (running (InformerManager r) k \<and> k \<noteq> target_key req (CRDSpec crd))"
proof -
  let ?k = "target_key req (CRDSpec crd)"
  obtain e m where m: "StopInformer (InformerManager r) ?k = Ret (e, m)"
    using StopInformer_no_panic [OF assms] by blast
  have "stop_old_target crd req r = Ret (r\<lparr>InformerManager := m,
      InformerStartLocks := (InformerStartLocks r)(getMutexKeyForTargetRef req := None)\<rparr>)"
    using m by (simp add: stop_old_target_def GetKey_def target_key_def resetMutexForInformer_def)
  from that [OF this] im.stop_gone [OF m] show thesis by simp
qed

definition stored_target :: "'c Reconciler \<Rightarrow> ElastiService \<Rightarrow> CRDDetails option" where
  "stored_target r es =
     (case dir r of None \<Rightarrow> None | Some al \<Rightarrow> map_of al (nn_String (ES_Namespace es) (SpecService (Spec es))))"

text \<open>The directory holds another target for the service.\<close>

definition target_changed :: "'c Reconciler \<Rightarrow> ElastiService \<Rightarrow> bool" where
  "target_changed r es =
     (case stored_target r es of None \<Rightarrow> False | Some crd \<Rightarrow> \<not> same_target (Spec es) (CRDSpec crd))"

lemma watchScaleTargetRef_ok:
  assumes complete: "complete_target (Spec es)"
    and parse: "ParseAPIVersion (APIVersion (TargetRef (Spec es))) = Inr (g, v)"
    and w: "watchable (informer_env E) (target_watch es req g v)"
    and im: "im_inv (InformerManager r)" and d: "dir r \<noteq> None"
    and p: "target_changed r es \<or> start_pending r req es"
  obtains m l where "watchScaleTargetRef E es req r = Ret (None, r\<lparr>InformerManager := m, InformerStartLocks := l\<rparr>)"
    "running m (target_key req (Spec es))"
    "\<And>crd. target_changed r es \<Longrightarrow> stored_target r es = Some crd \<Longrightarrow>
       target_key req (CRDSpec crd) \<noteq> target_key req (Spec es) \<Longrightarrow> \<not> running m (target_key req (CRDSpec crd))"
proof -
  from d obtain al where al: "dir r = Some al" by blast
  let ?key = "nn_String (ES_Namespace es) (SpecService (Spec es))"
  have run: "watchScaleTargetRef E es req r =
      (case (if target_changed r es then stop_old_target (the (stored_target r es)) req r else Ret r) of
         Panic m \<Rightarrow> Panic m
       | Ret r1 \<Rightarrow> Ret (once_Do r1 (getMutexKeyForTargetRef req) (start_target_informer E es req)))"
    using complete al by (auto simp: watchScaleTargetRef_def complete_target_def GetCRD_def target_changed_def
        stored_target_def split: option.splits)
  show thesis
  proof (cases "target_changed r es")
    case False
    with p have "start_pending r req es" by simp
    from start_target_once [OF parse w this] obtain m l where m:
      "once_Do r (getMutexKeyForTargetRef req) (start_target_informer E es req) =
         (None, r\<lparr>InformerManager := m, InformerStartLocks := l\<rparr>)"
      "running m (target_key req (Spec es))" by metis
    show thesis by (rule that [of l m]) (use m run False in simp_all)
  next
    case True
    let ?crd = "the (stored_target r es)"
    obtain m1 l1 where s: "stop_old_target ?crd req r = Ret (r\<lparr>InformerManager := m1, InformerStartLocks := l1\<rparr>)"
      "l1 (getMutexKeyForTargetRef req) = None"
      "\<And>k. running m1 k = (running (InformerManager r) k \<and> k \<noteq> target_key req (CRDSpec ?crd))"
      using stop_old_target_ok [OF im, of ?crd req] by metis
    let ?r1 = "r\<lparr>InformerManager := m1, InformerStartLocks := l1\<rparr>"
    have "start_pending ?r1 req es" using s(2) by (simp add: start_pending_def)
    obtain m l where m:
      "once_Do ?r1 (getMutexKeyForTargetRef req) (start_target_informer E es req) =
         (None, ?r1\<lparr>InformerManager := m, InformerStartLocks := l\<rparr>)"
      "running m (target_key req (Spec es))"
      "\<And>k. k \<noteq> target_key req (Spec es) \<Longrightarrow> running m k = running m1 k"
      by (rule start_target_once [OF parse w \<open>start_pending ?r1 req es\<close>]) simp
    show thesis by (rule that [of l m]) (use m s run True in simp_all)
  qed
qed

lemma addCRDFinalizer_view:
  assumes laws: "k8s_laws K view" and up: "api_up K view"
    and es: "C_es (view c) (ES_Namespace es, ES_Name es) = Some es" "DeletionTimestamp es = None"
  obtains c' es' where "addCRDFinalizer K c es = (None, c')"
    "C_es (view c') (ES_Namespace es, ES_Name es) = Some es'" "Spec es' = Spec es"
    "ElastiServiceFinalizer \<in> set (Finalizers es')" "C_deps (view c') = C_deps (view c)"
proof (cases "ContainsFinalizer es ElastiServiceFinalizer")
  case True
  then show thesis using that [of c es] es by (simp add: addCRDFinalizer_def ContainsFinalizer_def)
next
  case False
  let ?es = "es\<lparr>Finalizers := Finalizers es @ [ElastiServiceFinalizer]\<rparr>"
  obtain c' where c': "update_es K c ?es = (None, c')" using fst_None_pair [OF api_upD(9) [OF up]] by blast
  have v: "view c' = put_es ?es (view c)" using k8s_lawsD(10) [OF laws, of c ?es] c' by (simp add: k8s_simps)
  show thesis
    by (rule that [of c' "?es\<lparr>Status := Status es\<rparr>"]) (use c' v es False in \<open>simp_all add: addCRDFinalizer_def put_es_def\<close>)
qed

lemma Reconcile_live:
  assumes "k8s_laws (client E) view" "api_up (client E) view" "wf_cluster (view (cluster r))"
    and "C_es (view (cluster r)) (ReqNamespace req, ReqName req) = Some es" "DeletionTimestamp es = None"
    and "complete_target (Spec es)" "ParseAPIVersion (APIVersion (TargetRef (Spec es))) = Inr (g, v)"
    and "watchable (informer_env E) (target_watch es req g v)"
    and "im_inv (InformerManager r)" "dir r \<noteq> None" "target_changed r es \<or> start_pending r req es"
  shows "\<exists>r' es'. Reconcile E req r = Ret (None, r') \<and>
    C_es (view (cluster r')) (ReqNamespace req, ReqName req) = Some es' \<and> Spec es' = Spec es \<and>
    ElastiServiceFinalizer \<in> set (Finalizers es') \<and>
    GetCRD (nn_String (ReqNamespace req) (SpecService (Spec es))) (dir r') =
      Ret (Some \<lparr>CRDName = ReqName req, CRDSpec = Spec es, CRDStatus = Status es\<rparr>) \<and>
    running (InformerManager r') (target_key req (Spec es)) \<and>
    C_deps (view (cluster r')) = C_deps (view (cluster r)) \<and>
    (\<forall>crd. target_changed r es \<and> stored_target r es = Some crd \<and>
       target_key req (CRDSpec crd) \<noteq> target_key req (Spec es) \<longrightarrow>
       \<not> running (InformerManager r') (target_key req (CRDSpec crd)))"
proof -
  have n: "ES_Namespace es = ReqNamespace req" "ES_Name es = ReqName req"
    using wf_clusterD(3) [OF assms(3,4)] by auto
  obtain c2 es' where c2: "addCRDFinalizer (client E) (cluster r) es = (None, c2)"
    "C_es (view c2) (ReqNamespace req, ReqName req) = Some es'" "Spec es' = Spec es"
    "ElastiServiceFinalizer \<in> set (Finalizers es')" "C_deps (view c2) = C_deps (view (cluster r))"
    using addCRDFinalizer_view [OF assms(1,2), of "cluster r" es] assms(4,5) unfolding n by metis
  let ?r2 = "r\<lparr>cluster := c2\<rparr>"
  have eqs: "target_changed ?r2 es = target_changed r es" "stored_target ?r2 es = stored_target r es"
    "start_pending ?r2 req es = start_pending r req es"
    by (simp_all add: target_changed_def stored_target_def start_pending_def)
  obtain m l where w: "watchScaleTargetRef E es req ?r2 = Ret (None, ?r2\<lparr>InformerManager := m, InformerStartLocks := l\<rparr>)"
    "running m (target_key req (Spec es))"
    "\<And>crd. target_changed r es \<Longrightarrow> stored_target r es = Some crd \<Longrightarrow>
       target_key req (CRDSpec crd) \<noteq> target_key req (Spec es) \<Longrightarrow> \<not> running m (target_key req (CRDSpec crd))"
    by (rule watchScaleTargetRef_ok [OF assms(6-8), of ?r2]) (use assms(9-11) eqs in auto)
  let ?crd = "\<lparr>CRDName = ReqName req, CRDSpec = Spec es, CRDStatus = Status es\<rparr>"
  obtain d where d: "AddCRD (nn_String (ReqNamespace req) (SpecService (Spec es))) ?crd (dir r) = Ret d"
    using crd.add_ready [OF assms(10)] by blast
  let ?r' = "r\<lparr>cluster := c2, InformerManager := m, InformerStartLocks := l, dir := d\<rparr>"
  have "Reconcile E req r = Ret (None, ?r')"
    using get_es_up [OF assms(1,2,4)] assms(5) c2(1) w(1) d n
    by (simp add: Reconcile_def finalizeCRDIfDeleted_def)
  with c2 w(2,3) show ?thesis
    by (intro exI [of _ ?r'] exI [of _ es']) (simp add: crd.lookup_add [OF d])
qed

section \<open>Changes of the watched objects\<close>

lemma getCRD_up:
  assumes "k8s_laws K view" "api_up K view" "C_es (view c) (ns, n) = Some e"
  shows "get_es K c ns n = Inr e"
  using k8s_lawsD(9) [OF assms(1), of c ns n] api_upD(3) [OF assms(2), of c ns n] assms(3)
  by (cases "get_es K c ns n"; simp add: k8s_simps)

lemma updateCRDStatus_view:
  assumes laws: "k8s_laws K view" and up: "api_up K view" and es: "C_es (view c) (ns, n) = Some es"
    and c': "c' = snd (updateCRDStatus K now c ns n mode)"
  shows "view c' = patch_es_status ns n (\<lambda>st. st\<lparr>LastReconciledTime := now, Mode := mode\<rparr>) (view c)"
proof -
  let ?f = "\<lambda>st. st\<lparr>LastReconciledTime := now, Mode := mode\<rparr>"
  obtain c1 where c1: "patch_status K c ns n ?f = (None, c1)" using fst_None_pair [OF api_upD(10) [OF up]] by blast
  with getCRD_up [OF laws up es] c' k8s_lawsD(11) [OF laws, of c ns n ?f] show ?thesis
    by (simp add: updateCRDStatus_def k8s_simps)
qed

lemma proxied_es: "C_es (proxied svc es ips m) = C_es m"
  by (simp add: proxied_def put_slice_def put_svc_def)

lemma switchMode_proxy:
  assumes laws: "k8s_laws (client E) view" and up: "api_up (client E) view"
    and es: "C_es (view (cluster r)) (ReqNamespace req, ReqName req) = Some es"
    and svc: "C_svcs (view (cluster r)) (ES_Namespace es, SpecService (Spec es)) = Some svc" "Ports svc \<noteq> []"
    and ips: "getIPsForResolver (client E) (cluster r) = Inr ips"
    and w: "fst (watchPublicService E es req r) = None"
  shows "\<exists>r'. switchMode E req ProxyMode r = Ret (None, r') \<and>
    view (cluster r') = patch_es_status (ReqNamespace req) (ReqName req)
      (\<lambda>st. st\<lparr>LastReconciledTime := clock E, Mode := ProxyMode\<rparr>) (proxied svc es ips (view (cluster r)))"
proof -
  obtain r1 where r1: "enableProxyMode E req es r = Ret (None, r1)"
    "view (cluster r1) = proxied svc es ips (view (cluster r))"
    using enableProxyMode_view [OF laws up svc ips w] by blast
  have e1: "C_es (view (cluster r1)) (ReqNamespace req, ReqName req) = Some es"
    using es by (simp add: r1(2) proxied_es)
  note v = updateCRDStatus_view [OF laws up e1 refl]
  show ?thesis
    using get_es_up [OF laws up es] r1 v by (simp add: switchMode_def values_defs)
qed

lemma switchMode_serve:
  assumes laws: "k8s_laws (client E) view" and up: "api_up (client E) view" and wf: "wf_cluster (view (cluster r))"
    and es: "C_es (view (cluster r)) (ReqNamespace req, ReqName req) = Some es"
  shows "\<exists>r'. switchMode E req ServeMode r = Ret (None, r') \<and>
    view (cluster r') = patch_es_status (ReqNamespace req) (ReqName req)
      (\<lambda>st. st\<lparr>LastReconciledTime := clock E, Mode := ServeMode\<rparr>)
      (del_slice (ES_Namespace es) (GetEndpointSliceToResolverName (SpecService (Spec es))) (view (cluster r)))"
proof -
  obtain c1 where c1: "enableServeMode (client E) es (cluster r) = (None, c1)"
    using enableServeMode_up [OF up] by blast
  note v1 = enableServeMode_ok [OF laws wf c1]
  have e1: "C_es (view c1) (ReqNamespace req, ReqName req) = Some es" using es by (simp add: v1 del_slice_def)
  note v = updateCRDStatus_view [OF laws up e1 refl]
  show ?thesis
    using get_es_up [OF laws up es] c1 v v1 by (simp add: switchMode_def values_defs)
qed

lemma sync_ports_result:
  "sync_ports ps qs = (if length ps \<le> length qs then Ret (map2 sync_port ps qs) else Panic ''index out of range'')"
  by (induction ps qs rule: sync_ports.induct) auto

section \<open>An example\<close>

definition E0 :: "Cluster Env" where
  "E0 = \<lparr>client = memory_client [(''elasti'', ''resolver''), (''shop'', ''web-es'')],
        informer_env = example_informer_env, clock = 7\<rparr>"

definition example_service :: Service where
  "example_service =
     \<lparr>SvcName = ''web'', SvcNamespace = ''shop'', ResourceVersion = ''41'', Selector = [(''app'', ''web'')],
      ClusterIP = ''10.0.0.1'', ClusterIPs = [''10.0.0.1''],
      Ports = [\<lparr>PortName = ''http'', Protocol = ''TCP'', PortNumber = 80, TargetPort = ''8080'', NodePort = 0,
               AppProtocol = None\<rparr>], SvcOwner = None\<rparr>"

definition example_objects :: "ElastiService \<Rightarrow> Cluster" where
  "example_objects es = empty_cluster
     \<lparr>C_svcs := [(''shop'', ''web'') \<mapsto> example_service],
      C_slices := [(''elasti'', ''resolver'') \<mapsto>
        \<lparr>SliceName = ''resolver'', SliceNamespace = ''elasti'', SliceService = resolverServiceName,
         SlicePorts = [], SliceEndpoints = [[''10.1.0.5'']]\<rparr>],
      C_es := [(''shop'', ''web-es'') \<mapsto> es]\<rparr>"

definition example_reconciler :: "ElastiService \<Rightarrow> Cluster Reconciler" where
  "example_reconciler es =
     \<lparr>cluster = example_objects es, dir = InitDirectory None, InformerManager = NewInformerManager,
      InformerStartLocks = Map.empty\<rparr>"

definition example_req :: Req where "example_req = \<lparr>ReqNamespace = ''shop'', ReqName = ''web-es''\<rparr>"

lemma E0_client: "k8s_laws (client E0) id" "api_up (client E0) id"
  by (simp_all add: E0_def memory_client_laws memory_client_up)

lemma E0_watchable: "watchable (informer_env E0) w"
  by (simp add: E0_def watchable_def example_informer_env_def)

lemma example_wf:
  "ES_Namespace es = ''shop'' \<Longrightarrow> ES_Name es = ''web-es'' \<Longrightarrow> wf_cluster (example_objects es)"
  by (auto simp: wf_cluster_def example_objects_def example_service_def empty_cluster_def split: if_splits)

lemma example_IPs: "getIPsForResolver (client E0) (example_objects es) = Inr [''10.1.0.5'']"
  by (simp add: getIPsForResolver_def E0_def memory_client_def example_objects_def empty_cluster_def
      map_filter_simps resolverServiceName_def)

lemma example_watch_service: "fst (watchPublicService E0 example_es example_req (example_reconciler es)) = None"
proof -
  obtain m where "im_Add E0 (example_reconciler es) (service_watch example_es example_req) =
      (None, (example_reconciler es)\<lparr>InformerManager := m\<rparr>)"
    using im_Add_watchable [OF E0_watchable] by metis
  then show ?thesis
    by (simp add: watchPublicService_def once_Do_def) (simp add: example_reconciler_def example_es_def)
qed

lemma example_facts:
  "wf_cluster (id (cluster (example_reconciler example_es)))"
  "C_es (id (cluster (example_reconciler example_es))) (ReqNamespace example_req, ReqName example_req) = Some example_es"
  "C_svcs (id (cluster (example_reconciler example_es))) (ES_Namespace example_es, SpecService (Spec example_es)) =
     Some example_service"
  "Ports example_service \<noteq> []"
  "getIPsForResolver (client E0) (cluster (example_reconciler example_es)) = Inr [''10.1.0.5'']"
  "fst (watchPublicService E0 example_es example_req (example_reconciler example_es)) = None"
proof -
  show "wf_cluster (id (cluster (example_reconciler example_es)))"
    using example_wf [of example_es] by (simp add: example_reconciler_def example_es_def)
  show "C_es (id (cluster (example_reconciler example_es))) (ReqNamespace example_req, ReqName example_req) = Some example_es"
    by (simp add: example_reconciler_def example_objects_def example_req_def)
  show "C_svcs (id (cluster (example_reconciler example_es))) (ES_Namespace example_es, SpecService (Spec example_es)) =
     Some example_service"
    by (simp add: example_reconciler_def example_objects_def example_es_def)
  show "Ports example_service \<noteq> []" by (simp add: example_service_def)
  show "getIPsForResolver (client E0) (cluster (example_reconciler example_es)) = Inr [''10.1.0.5'']"
    by (simp add: example_reconciler_def example_IPs)
qed (rule example_watch_service)

section \<open>Properties\<close>



text \<open>C9: serve mode after proxy mode deletes the slice to the resolver and nothing else; the public
  service, its own slices and the private service stay.\<close>

theorem serve_mode_undoes_proxy:
  assumes "k8s_laws (client E) view" "api_up (client E) view" "wf_cluster (view (cluster r))"
    and "C_svcs (view (cluster r)) (ES_Namespace es, SpecService (Spec es)) = Some svc" "Ports svc \<noteq> []"
    and "getIPsForResolver (client E) (cluster r) = Inr ips" "fst (watchPublicService E es req r) = None"
  shows "\<exists>r' c'. enableProxyMode E req es r = Ret (None, r') \<and>
    enableServeMode (client E) es (cluster r') = (None, c') \<and>
    C_slices (view c') = (C_slices (view (cluster r)))
      ((ES_Namespace es, GetEndpointSliceToResolverName (SpecService (Spec es))) := None) \<and>
    C_svcs (view c') = C_svcs (view (cluster r')) \<and>
    C_svcs (view c') (ES_Namespace es, GetPrivateServiceName (SpecService (Spec es))) \<noteq> None"
proof -
  have n: "SvcNamespace svc = ES_Namespace es" "SvcName svc = SpecService (Spec es)"
    using wf_clusterD(1) [OF assms(3,4)] by auto
  obtain r' where r': "enableProxyMode E req es r = Ret (None, r')"
    "view (cluster r') = proxied svc es ips (view (cluster r))"
    using enableProxyMode_view [OF assms(1,2,4-7)] by blast
  obtain c' where c': "enableServeMode (client E) es (cluster r') = (None, c')"
    using enableServeMode_up [OF assms(2)] by blast
  have "wf_cluster (view (cluster r'))" using wf_proxied [OF assms(3)] r'(2) by simp
  note v = enableServeMode_ok [OF assms(1) this c']
  show ?thesis
    by (intro exI [of _ r'] exI [of _ c'])
      (simp add: r'(1) c' v, simp add: r'(2) proxied_def n put_slice_def put_svc_def del_slice_def
        sliceToResolver_def privateCopy_def)
qed

theorem serve_mode_undoes_proxy_witness:
  "\<exists>r' c'. enableProxyMode E0 example_req example_es (example_reconciler example_es) = Ret (None, r') \<and>
    enableServeMode (client E0) example_es (cluster r') = (None, c') \<and>
    C_slices c' (''shop'', GetEndpointSliceToResolverName ''web'') = None"
proof -
  from serve_mode_undoes_proxy [OF E0_client example_facts(1,3-6)] obtain r' c' where
    "enableProxyMode E0 example_req example_es (example_reconciler example_es) = Ret (None, r')"
    "enableServeMode (client E0) example_es (cluster r') = (None, c')"
    "C_slices c' = (C_slices (cluster (example_reconciler example_es)))
      ((ES_Namespace example_es, GetEndpointSliceToResolverName (SpecService (Spec example_es))) := None)" by auto
  then show ?thesis by (intro exI [of _ r'] exI [of _ c']) (simp add: example_es_def)
qed

text \<open>C25: reconciling a live resource with a complete target succeeds when the server answers and the
  target can be watched: the resource carries the finalizer, its service is in the directory with the
  current spec, an informer for the target runs, and one for the target the directory named before, if
  that was another, does not.\<close>

theorem reconcile_registers:
  assumes "k8s_laws (client E) view" "api_up (client E) view" "wf_cluster (view (cluster r))"
    and "C_es (view (cluster r)) (ReqNamespace req, ReqName req) = Some es" "DeletionTimestamp es = None"
    and "complete_target (Spec es)" "ParseAPIVersion (APIVersion (TargetRef (Spec es))) = Inr (g, v)"
    and "watchable (informer_env E) (target_watch es req g v)"
    and "im_inv (InformerManager r)" "dir r \<noteq> None" "target_changed r es \<or> start_pending r req es"
  shows "\<exists>r' es'. Reconcile E req r = Ret (None, r') \<and>
    C_es (view (cluster r')) (ReqNamespace req, ReqName req) = Some es' \<and> Spec es' = Spec es \<and>
    ElastiServiceFinalizer \<in> set (Finalizers es') \<and>
    GetCRD (nn_String (ReqNamespace req) (SpecService (Spec es))) (dir r') =
      Ret (Some \<lparr>CRDName = ReqName req, CRDSpec = Spec es, CRDStatus = Status es\<rparr>) \<and>
    running (InformerManager r') (target_key req (Spec es)) \<and>
    (\<forall>crd. target_changed r es \<and> stored_target r es = Some crd \<and>
       target_key req (CRDSpec crd) \<noteq> target_key req (Spec es) \<longrightarrow>
       \<not> running (InformerManager r') (target_key req (CRDSpec crd)))"
  using Reconcile_live [OF assms] by blast

theorem reconcile_registers_witness:
  "\<exists>r'. Reconcile E0 example_req (example_reconciler example_es) = Ret (None, r') \<and>
    GetCRD ''shop/web'' (dir r') =
      Ret (Some \<lparr>CRDName = ''web-es'', CRDSpec = Spec example_es, CRDStatus = Status example_es\<rparr>) \<and>
    running (InformerManager r') (target_key example_req (Spec example_es))"
proof -
  let ?r = "example_reconciler example_es"
  have live: "DeletionTimestamp example_es = None" by (simp add: example_es_def)
  have t: "complete_target (Spec example_es)"
    "ParseAPIVersion (APIVersion (TargetRef (Spec example_es))) = Inr (''apps'', ''v1'')"
    by (simp_all add: complete_target_def ParseAPIVersion_Inr_iff example_es_def)
  have i: "im_inv (InformerManager ?r)" "dir ?r \<noteq> None" "target_changed ?r example_es \<or> start_pending ?r example_req example_es"
    by (simp_all add: example_reconciler_def im_inv_new InitDirectory_def start_pending_def)
  from reconcile_registers [OF E0_client example_facts(1,2) live t E0_watchable i] show ?thesis
    by (auto simp: example_req_def example_es_def nn_String_def)
qed

text \<open>C26: reconciling a resource that is being deleted, and whose only finalizer is ours, removes the
  slice to the resolver, the private service, the entry of the directory, the informers whose key begins
  with its name, the start locks and, with the finalizer, the resource.\<close>

theorem deletion_cleans_up:
  assumes "k8s_laws (client E) view" "api_up (client E) view" "wf_cluster (view (cluster r))"
    and "C_es (view (cluster r)) (ReqNamespace req, ReqName req) = Some es" "DeletionTimestamp es \<noteq> None"
    and "set (Finalizers es) = {ElastiServiceFinalizer}"
    and "im_inv (InformerManager r)" "dir r \<noteq> None"
    and "list_all (\<lambda>(k, i). length (ReqName req) \<le> length k) (informers (InformerManager r))"
  shows "\<exists>r'. Reconcile E req r = Ret (None, r') \<and>
    C_es (view (cluster r')) = (C_es (view (cluster r)))((ReqNamespace req, ReqName req) := None) \<and>
    C_slices (view (cluster r')) = (C_slices (view (cluster r)))
      ((ReqNamespace req, GetEndpointSliceToResolverName (SpecService (Spec es))) := None) \<and>
    C_svcs (view (cluster r')) = (C_svcs (view (cluster r)))
      ((ReqNamespace req, GetPrivateServiceName (SpecService (Spec es))) := None) \<and>
    GetCRD (nn_String (ReqNamespace req) (SpecService (Spec es))) (dir r') = Ret None \<and>
    informers (InformerManager r') =
      filter (\<lambda>(k, i). \<not> has_prefix (ReqName req) k) (informers (InformerManager r)) \<and>
    InformerStartLocks r' (getMutexKeyForTargetRef req) = None \<and>
    InformerStartLocks r' (getMutexKeyForPublicSVC req) = None"
proof -
  have n: "ES_Namespace es = ReqNamespace req" "ES_Name es = ReqName req"
    using wf_clusterD(3) [OF assms(3,4)] by auto
  from assms(8) obtain al where al: "dir r = Some al" by blast
  obtain r1 where r1: "finalizeCRD E es req r = Ret (None, r1)"
    "view (cluster r1) = del_svc (ReqNamespace req) (GetPrivateServiceName (SpecService (Spec es)))
      (del_slice (ReqNamespace req) (GetEndpointSliceToResolverName (SpecService (Spec es))) (view (cluster r)))"
    "dir r1 = Some (delete_entry (nn_String (ReqNamespace req) (SpecService (Spec es))) al)"
    "informers (InformerManager r1) = filter (\<lambda>(k, i). \<not> has_prefix (ReqName req) k) (informers (InformerManager r))"
    "InformerStartLocks r1 = (InformerStartLocks r)
      (getMutexKeyForTargetRef req := None, getMutexKeyForPublicSVC req := None)"
    using finalizeCRD_view [OF assms(1,2,3,7,9) al, of es] unfolding n by blast
  let ?es = "es\<lparr>Finalizers := filter (\<lambda>f. f \<noteq> ElastiServiceFinalizer) (Finalizers es)\<rparr>"
  obtain c2 where c2: "update_es (client E) (cluster r1) ?es = (None, c2)"
    using fst_None_pair [OF api_upD(9) [OF assms(2)]] by blast
  have v: "view c2 = put_es ?es (view (cluster r1))"
    using k8s_lawsD(10) [OF assms(1), of "cluster r1" ?es] c2 by (simp add: k8s_simps)
  have gone: "C_es (view c2) (ReqNamespace req, ReqName req) = None"
    using put_es_last_finalizer [of es ElastiServiceFinalizer "view (cluster r1)"] assms(5,6) v n by simp
  have "Reconcile E req r = Ret (None, r1\<lparr>cluster := c2\<rparr>)"
    using get_es_up [OF assms(1,2,4)] assms(5,6) r1(1) c2
    by (simp add: Reconcile_def finalizeCRDIfDeleted_def ContainsFinalizer_def)
  moreover have "C_es (view c2) = (C_es (view (cluster r)))((ReqNamespace req, ReqName req) := None)"
  proof
    fix k show "C_es (view c2) k = ((C_es (view (cluster r)))((ReqNamespace req, ReqName req) := None)) k"
      using gone by (cases "k = (ReqNamespace req, ReqName req)") (simp_all add: v put_es_def r1(2) n del_svc_def del_slice_def)
  qed
  moreover have "C_slices (view c2) = C_slices (view (cluster r1))" "C_svcs (view c2) = C_svcs (view (cluster r1))"
    by (simp_all add: v put_es_def)
  ultimately show ?thesis
    by (intro exI [of _ "r1\<lparr>cluster := c2\<rparr>"]) (simp add: r1 del_svc_def del_slice_def GetCRD_def)
qed

definition deleted_es :: ElastiService where
  "deleted_es = example_es\<lparr>DeletionTimestamp := Some 9\<rparr>"

theorem deletion_cleans_up_witness:
  "\<exists>r'. Reconcile E0 example_req (example_reconciler deleted_es) = Ret (None, r') \<and>
    C_es (cluster r') (''shop'', ''web-es'') = None \<and> GetCRD ''shop/web'' (dir r') = Ret None"
proof -
  let ?r = "example_reconciler deleted_es"
  have wf: "wf_cluster (id (cluster ?r))"
    using example_wf [of deleted_es] by (simp add: example_reconciler_def example_es_def deleted_es_def)
  have es: "C_es (id (cluster ?r)) (ReqNamespace example_req, ReqName example_req) = Some deleted_es"
    "DeletionTimestamp deleted_es \<noteq> None" "set (Finalizers deleted_es) = {ElastiServiceFinalizer}"
    by (simp_all add: example_reconciler_def example_objects_def example_req_def deleted_es_def example_es_def)
  have i: "im_inv (InformerManager ?r)" "dir ?r \<noteq> None"
    "list_all (\<lambda>(k, i). length (ReqName example_req) \<le> length k) (informers (InformerManager ?r))"
    using im_inv_new by (simp_all add: example_reconciler_def InitDirectory_def NewInformerManager_def)
  from deletion_cleans_up [OF E0_client wf es i] show ?thesis
    by (auto simp: example_req_def example_es_def deleted_es_def nn_String_def)
qed

text \<open>C10: the state of the watched deployment drives the mode. With no replicas the traffic of the
  service goes to the resolver and the status says proxy; with a ready replica the slice to the resolver
  is gone and the status says serve; in between nothing changes.\<close>

theorem deployment_drives_mode:
  assumes "k8s_laws (client E) view" "api_up (client E) view" "wf_cluster (view (cluster r))"
    and "C_es (view (cluster r)) (ReqNamespace req, ReqName req) = Some es"
    and "C_svcs (view (cluster r)) (ES_Namespace es, SpecService (Spec es)) = Some svc" "Ports svc \<noteq> []"
    and "getIPsForResolver (client E) (cluster r) = Inr ips" "fst (watchPublicService E es req r) = None"
  shows "if StatusReplicas d = 0 then
      \<exists>r' es'. handleTargetDeploymentChanges E (Inr d) req r = Ret (None, r') \<and>
        C_slices (view (cluster r')) (ES_Namespace es, GetEndpointSliceToResolverName (SpecService (Spec es))) =
          Some (sliceToResolver svc (PortName (hd (Ports svc))) ips) \<and>
        C_es (view (cluster r')) (ReqNamespace req, ReqName req) = Some es' \<and> Mode (Status es') = ProxyMode
    else if 0 < ReadyReplicas d then
      \<exists>r' es'. handleTargetDeploymentChanges E (Inr d) req r = Ret (None, r') \<and>
        C_slices (view (cluster r')) (ES_Namespace es, GetEndpointSliceToResolverName (SpecService (Spec es))) = None \<and>
        C_es (view (cluster r')) (ReqNamespace req, ReqName req) = Some es' \<and> Mode (Status es') = ServeMode
    else handleTargetDeploymentChanges E (Inr d) req r = Ret (None, r)"
proof -
  have n: "SvcNamespace svc = ES_Namespace es" "SvcName svc = SpecService (Spec es)"
    using wf_clusterD(1) [OF assms(3,5)] by auto
  let ?k = "(ES_Namespace es, GetEndpointSliceToResolverName (SpecService (Spec es)))"
  obtain p where p: "switchMode E req ProxyMode r = Ret (None, p)"
    "view (cluster p) = patch_es_status (ReqNamespace req) (ReqName req)
      (\<lambda>st. st\<lparr>LastReconciledTime := clock E, Mode := ProxyMode\<rparr>) (proxied svc es ips (view (cluster r)))"
    using switchMode_proxy [OF assms(1,2,4-8)] by blast
  obtain s where s: "switchMode E req ServeMode r = Ret (None, s)"
    "view (cluster s) = patch_es_status (ReqNamespace req) (ReqName req)
      (\<lambda>st. st\<lparr>LastReconciledTime := clock E, Mode := ServeMode\<rparr>)
      (del_slice (ES_Namespace es) (GetEndpointSliceToResolverName (SpecService (Spec es))) (view (cluster r)))"
    using switchMode_serve [OF assms(1-4)] by blast
  have "C_slices (view (cluster p)) ?k = Some (sliceToResolver svc (PortName (hd (Ports svc))) ips)"
    by (simp add: p(2) patch_es_status_def proxied_def put_slice_def sliceToResolver_def n)
  moreover have "\<exists>es'. C_es (view (cluster p)) (ReqNamespace req, ReqName req) = Some es' \<and> Mode (Status es') = ProxyMode"
    using assms(4) by (simp add: p(2) patch_es_status_def proxied_es)
  moreover have "C_slices (view (cluster s)) ?k = None"
    by (simp add: s(2) patch_es_status_def del_slice_def)
  moreover have "\<exists>es'. C_es (view (cluster s)) (ReqNamespace req, ReqName req) = Some es' \<and> Mode (Status es') = ServeMode"
    using assms(4) by (simp add: s(2) patch_es_status_def del_slice_def)
  ultimately show ?thesis
    using p(1) s(1) by (simp add: handleTargetDeploymentChanges_def)
qed

theorem deployment_drives_mode_witness:
  "\<exists>r' es'. handleTargetDeploymentChanges E0
      (Inr \<lparr>DeployName = ''web'', SpecReplicas = Some 0, StatusReplicas = 0, ReadyReplicas = 0\<rparr>)
      example_req (example_reconciler example_es) = Ret (None, r') \<and>
    C_slices (cluster r') (''shop'', GetEndpointSliceToResolverName ''web'') =
      Some (sliceToResolver example_service ''http'' [''10.1.0.5'']) \<and>
    C_es (cluster r') (''shop'', ''web-es'') = Some es' \<and> Mode (Status es') = ProxyMode"
proof -
  from deployment_drives_mode [OF E0_client example_facts, of
      "\<lparr>DeployName = ''web'', SpecReplicas = Some 0, StatusReplicas = 0, ReadyReplicas = 0\<rparr>"]
  show ?thesis by (auto simp: example_req_def example_es_def example_service_def)
qed

text \<open>C32: a change of the public service carries its selector and its ports over to the private one,
  port by port. The private service keeps its number of ports, so ports added to the public service never
  reach it, and a public service with fewer ports than the private one ends the process.\<close>

theorem public_service_synced:
  assumes "k8s_laws K view" "api_up K view" "wf_cluster (view c)"
    and "C_svcs (view c) (SvcNamespace pub, GetPrivateServiceName (SvcName pub)) = Some prv"
  shows "if length (Ports prv) \<le> length (Ports pub) then
      \<exists>c'. handlePublicServiceChanges K c (Inr pub) (SvcName pub) = Ret (None, c') \<and>
        C_svcs (view c') = (C_svcs (view c))((SvcNamespace pub, GetPrivateServiceName (SvcName pub)) \<mapsto>
          prv\<lparr>Selector := Selector pub, Ports := map2 sync_port (Ports prv) (Ports pub)\<rparr>)
    else handlePublicServiceChanges K c (Inr pub) (SvcName pub) = Panic ''index out of range''"
proof -
  have n: "SvcNamespace prv = SvcNamespace pub" "SvcName prv = GetPrivateServiceName (SvcName pub)"
    using wf_clusterD(1) [OF assms(3,4)] by auto
  let ?s = "prv\<lparr>Selector := Selector pub, Ports := map2 sync_port (Ports prv) (Ports pub)\<rparr>"
  obtain c' where c': "update_svc K c ?s = (None, c')" using fst_None_pair [OF api_upD(13) [OF assms(2)]] by blast
  with k8s_lawsD(3) [OF assms(1), of c ?s] have "view c' = put_svc ?s (view c)" by (simp add: k8s_simps)
  with c' get_svc_up(1) [OF assms(1,2,4)] n show ?thesis
    by (simp add: handlePublicServiceChanges_def sync_ports_result put_svc_def)
qed

definition example_private :: Service where
  "example_private = privateCopy example_service"

theorem public_service_synced_witness:
  "\<exists>c'. handlePublicServiceChanges (client E0) (put_svc example_private (example_objects example_es))
      (Inr (example_service\<lparr>Selector := [(''app'', ''v2'')]\<rparr>)) ''web'' = Ret (None, c') \<and>
    map_option Selector (C_svcs c' (''shop'', GetPrivateServiceName ''web'')) = Some [(''app'', ''v2'')]"
proof -
  let ?pub = "example_service\<lparr>Selector := [(''app'', ''v2'')]\<rparr>"
  have "wf_cluster (id (put_svc example_private (example_objects example_es)))"
    using wf_put(1) [OF example_wf [of example_es]] by (simp add: example_es_def)
  moreover have "C_svcs (id (put_svc example_private (example_objects example_es)))
      (SvcNamespace ?pub, GetPrivateServiceName (SvcName ?pub)) = Some example_private"
    by (simp add: put_svc_def example_private_def privateCopy_def example_service_def)
  ultimately show ?thesis
    using public_service_synced [OF E0_client, of "put_svc example_private (example_objects example_es)" ?pub example_private]
    by (auto simp: example_private_def privateCopy_def example_service_def)
qed

text \<open>The status is not evidence of the mode. When the public service does not exist, switching to
  proxy mode fails and creates no slice, and the status of the resource says proxy all the same, because
  the deferred update runs on every return.\<close>

lemma failed_switch_recorded_as_proxy:
  assumes "k8s_laws (client E) view" "api_up (client E) view"
    and "C_es (view (cluster r)) (ReqNamespace req, ReqName req) = Some es"
    and "C_svcs (view (cluster r)) (ES_Namespace es, SpecService (Spec es)) = None"
  shows "\<exists>err r' es'. switchMode E req ProxyMode r = Ret (Some err, r') \<and>
    C_slices (view (cluster r')) = C_slices (view (cluster r)) \<and>
    C_es (view (cluster r')) (ReqNamespace req, ReqName req) = Some es' \<and> Mode (Status es') = ProxyMode"
proof -
  obtain e where e: "get_svc (client E) (cluster r) (ES_Namespace es) (SpecService (Spec es)) = Inl e"
    using get_svc_up(2) [OF assms(1,2,4)] by blast
  note v = updateCRDStatus_view [OF assms(1-3) refl]
  show ?thesis
    using get_es_up [OF assms(1-3)] e v [of "clock E" ProxyMode] assms(3)
    by (simp add: switchMode_def enableProxyMode_def values_defs patch_es_status_def)
qed

lemma failed_switch_recorded_as_proxy_example:
  "\<exists>err r' es'. switchMode E0 example_req ProxyMode ((example_reconciler example_es)
      \<lparr>cluster := del_svc ''shop'' ''web'' (example_objects example_es)\<rparr>) = Ret (Some err, r') \<and>
    C_es (cluster r') (''shop'', ''web-es'') = Some es' \<and> Mode (Status es') = ProxyMode"
proof -
  let ?r = "(example_reconciler example_es)\<lparr>cluster := del_svc ''shop'' ''web'' (example_objects example_es)\<rparr>"
  have "C_es (id (cluster ?r)) (ReqNamespace example_req, ReqName example_req) = Some example_es"
    "C_svcs (id (cluster ?r)) (ES_Namespace example_es, SpecService (Spec example_es)) = None"
    by (simp_all add: del_svc_def example_objects_def example_req_def example_es_def)
  from failed_switch_recorded_as_proxy [OF E0_client this] show ?thesis by (auto simp: example_req_def)
qed

text \<open>C40: a watch on the target that failed to start is not tried again. The target does not exist at the
  first reconciliation, which fails; from then on the same reconciliation step reports success, whatever
  the environment is by then, and no informer runs for the target.\<close>

theorem failed_watch_not_retried:
  assumes "complete_target (Spec es)" "ParseAPIVersion (APIVersion (TargetRef (Spec es))) = Inr (g, v)"
    and "ie_Get (informer_env E) (target_watch es req g v) = Some err" "dir r \<noteq> None"
    and "\<not> target_changed r es" "InformerStartLocks r (getMutexKeyForTargetRef req) \<noteq> Some True"
    and "\<not> running (InformerManager r) (target_key req (Spec es))"
  shows "\<exists>e r'. watchScaleTargetRef E es req r = Ret (Some e, r') \<and>
    watchScaleTargetRef E' es req r' = Ret (None, r') \<and>
    \<not> running (InformerManager r') (target_key req (Spec es))"
proof -
  from assms(4) obtain al where al: "dir r = Some al" by blast
  let ?r' = "r\<lparr>InformerStartLocks := (InformerStartLocks r)(getMutexKeyForTargetRef req \<mapsto> True)\<rparr>"
  have step: "watchScaleTargetRef F es req q =
      Ret (once_Do q (getMutexKeyForTargetRef req) (start_target_informer F es req))"
    if "dir q = dir r" for F q
    using assms(1,5) al that
    by (auto simp: watchScaleTargetRef_def complete_target_def GetCRD_def target_changed_def
        stored_target_def split: option.splits)
  have none: "map_of (informers (InformerManager r)) (getKeyFromRequestWatch (target_watch es req g v)) = None"
    using assms(7) by (simp add: running_def target_key_watch)
  obtain e where "watchScaleTargetRef E es req r = Ret (Some e, ?r')"
    using step [of r E] assms(2,3,6) none
    by (simp add: once_Do_def start_target_informer_def im_Add_def Add_def verifyTargetExist_def)
  with step [of ?r' E'] assms(7) show ?thesis by (auto simp: once_Do_def)
qed

theorem failed_watch_not_retried_witness:
  "\<exists>e r'. watchScaleTargetRef (E0\<lparr>informer_env := example_informer_env\<lparr>ie_Get := \<lambda>w. Some NotFound\<rparr>\<rparr>)
      example_es example_req (example_reconciler example_es) = Ret (Some e, r') \<and>
    watchScaleTargetRef E0 example_es example_req r' = Ret (None, r') \<and>
    \<not> running (InformerManager r') (target_key example_req (Spec example_es))"
  by (rule failed_watch_not_retried [where g = "''apps''" and v = "''v1''" and err = NotFound])
    (simp_all add: complete_target_def ParseAPIVersion_Inr_iff example_es_def example_reconciler_def
      InitDirectory_def target_changed_def stored_target_def running_def NewInformerManager_def)

end
