(* ===== verification/ElastiServer.thy ===== *)
theory ElastiServer
  imports ScaleHandler CrdDirectory Handler Mux
begin

text \<open>
  \<open>operator/internal/elastiserver/elastiServer.go\<close>: the endpoint the resolver posts to. The body of
  the request is given by the result of decoding it. The status goes out before the target is
  scaled, so the resolver never learns of a failed scaling.
\<close>

definition keda_resume ::
  "'c K8s \<Rightarrow> 'c \<Rightarrow> ElastiServiceSpec \<Rightarrow> string \<Rightarrow> goerr option \<times> 'c" where
  "keda_resume K c spec namespace =
     (case uses_keda spec of
        Some a \<Rightarrow> UpdateKedaScaledObjectPausedState K c (AutoscalerName a) namespace False
      | None \<Rightarrow> (None, c))"

definition scaleTargetForService ::
  "'c K8s \<Rightarrow> int \<Rightarrow> Directory \<Rightarrow> 'c \<Rightarrow> string \<Rightarrow> string \<Rightarrow> (goerr option \<times> 'c) go" where
  "scaleTargetForService K now d c serviceName namespace =
     (case GetCRD (nn_String namespace serviceName) d of
        Panic m \<Rightarrow> Panic m
      | Ret None \<Rightarrow>
          Ret (Some (Err ''scaleTargetForService - error: failed to get CRD details from directory''), c)
      | Ret (Some crd) \<Rightarrow>
          (let c0 = snd (UpdateLastScaledUpTime K now c (CRDName crd) namespace)
           in case keda_resume K c0 (CRDSpec crd) namespace of
                (Some err, c1) \<Rightarrow> Ret (Some (Wrap ''failed to update Keda ScaledObject'' err), c1)
              | (None, c1) \<Rightarrow>
                  (case ScaleTargetFromZero K c1 namespace (Kind (TargetRef (CRDSpec crd)))
                          (TargetRefName (TargetRef (CRDSpec crd))) (MinTargetReplicas (CRDSpec crd))
                          (CRDName crd) of
                     Panic m \<Rightarrow> Panic m
                   | Ret (Some err, c2) \<Rightarrow> Ret (Some (Wrap ''scaleTargetForService - error'' err), c2)
                   | Ret (None, c2) \<Rightarrow> Ret (None, c2))))"

definition raw_http_Error :: "ResponseWriter \<Rightarrow> string \<Rightarrow> int \<Rightarrow> ResponseWriter" where
  "raw_http_Error w msg code = inner (http_Error (newResponseWriter w) msg code)"

definition success_body :: string where
  "success_body = ''{\"message\":\"Request received successfully!\"}''"

definition resolverReqHandler ::
  "'c K8s \<Rightarrow> int \<Rightarrow> Directory \<Rightarrow> 'c \<Rightarrow> ResponseWriter \<Rightarrow> string \<Rightarrow> RequestCount result \<Rightarrow>
   (ResponseWriter \<times> 'c) go" where
  "resolverReqHandler K now d c w reqMethod reqBody =
     (if reqMethod \<noteq> ''POST'' then Ret (raw_http_Error w ''Invalid request method'' 405, c)
      else
        (case reqBody of
           Inl err \<Rightarrow> Ret (raw_http_Error w ''Invalid request body'' 400, c)
         | Inr reqCount \<Rightarrow>
             let w1 = raw_WriteHeader (raw_Set w ''Content-Type'' ''application/json'') 200
             in case raw_Write w1 success_body of
                  ((n, Some err), w2) \<Rightarrow> Ret (w2, c)
                | ((n, None), w2) \<Rightarrow>
                    (case scaleTargetForService K now d c (Svc reqCount) (RC_Namespace reqCount) of
                       Panic m \<Rightarrow> Panic m
                     | Ret (err, c') \<Rightarrow> Ret (w2, c'))))"

section \<open>The server\<close>

record 'h Server =
  srv_scaleHandler :: 'h
  rescaleDuration :: int

definition NewServer :: "'h \<Rightarrow> int \<Rightarrow> 'h Server" where
  "NewServer scaleHandler duration = \<lparr>srv_scaleHandler = scaleHandler, rescaleDuration = duration\<rparr>"

datatype server_endpoint = ServerMetrics | IncomingRequest

definition server_mux :: "(string \<times> server_endpoint) list" where
  "server_mux = [(''/metrics'', ServerMetrics), (''/informer/incoming-request'', IncomingRequest)]"

definition server_Addr :: "string \<Rightarrow> string" where
  "server_Addr port = '':'' @ TrimPrefix port '':''"

text \<open>
  \<open>Start\<close> after the listener has returned: \<open>quit\<close> tells whether a signal has arrived, after which the
  goroutine shuts the server down and closes \<open>done\<close>. \<open>None\<close> is waiting for \<open>done\<close> for ever.
\<close>

definition Server_Start :: "goerr option \<Rightarrow> bool \<Rightarrow> goerr option option" where
  "Server_Start listenErr quit =
     (case listenErr of
        Some err \<Rightarrow>
          if \<not> errors_Is err ErrServerClosed then Some (Some (Wrap ''failed to start ElastiServer'' err))
          else if quit then Some None else None
      | None \<Rightarrow> if quit then Some None else None)"

text \<open>A request to the server; \<open>promhttp\<close> answers the requests for the metrics.\<close>

definition server_ServeHTTP ::
  "'c K8s \<Rightarrow> (ResponseWriter \<Rightarrow> ResponseWriter) \<Rightarrow> int \<Rightarrow> Directory \<Rightarrow> 'c \<Rightarrow> ResponseWriter \<Rightarrow> string \<Rightarrow>
   string \<Rightarrow> string \<Rightarrow> RequestCount result \<Rightarrow> (ResponseWriter \<times> 'c) go answered" where
  "server_ServeHTTP K promhttp now d c w requestURI reqMethod path reqBody =
     (case mux_ServeHTTP server_mux requestURI reqMethod path of
        Route ServerMetrics \<Rightarrow> Handled (Ret (promhttp w, c))
      | Route IncomingRequest \<Rightarrow> Handled (resolverReqHandler K now d c w reqMethod reqBody)
      | Redirect p \<Rightarrow> Moved p
      | NoRoute \<Rightarrow> StatusOnly 404
      | BadRequest \<Rightarrow> StatusOnly 400)"

section \<open>Lemmas\<close>

lemma view_keda_resume:
  assumes "k8s_laws K view" "keda_resume K c spec ns = (e, c')"
  shows "target_replicas k (view c') ns' n = target_replicas k (view c) ns' n \<and> C_es (view c') = C_es (view c)"
proof (cases "uses_keda spec")
  case None
  then show ?thesis using assms(2) by (simp add: keda_resume_def)
next
  case (Some a)
  then show ?thesis
    using view_UpdateKeda [OF assms(1), of c "AutoscalerName a" ns False e c'] assms(2)
    by (simp add: keda_resume_def patch_so_def target_replicas_def deployment_replicas_def rollout_replicas_def)
qed

lemma scaleTargetForService_ok:
  assumes "k8s_laws K view" "GetCRD (nn_String ns svc) d = Ret (Some crd)"
    and "scaleTargetForService K now d c svc ns = Ret (None, c')" "0 < MinTargetReplicas (CRDSpec crd)"
  shows "\<exists>old. target_replicas (Kind (TargetRef (CRDSpec crd))) (view c) ns
      (TargetRefName (TargetRef (CRDSpec crd))) = Some old \<and>
    target_replicas (Kind (TargetRef (CRDSpec crd))) (view c') ns
      (TargetRefName (TargetRef (CRDSpec crd))) = Some (max old (MinTargetReplicas (CRDSpec crd)))"
proof -
  let ?tr = "\<lambda>c. target_replicas (Kind (TargetRef (CRDSpec crd))) (view c) ns
      (TargetRefName (TargetRef (CRDSpec crd)))"
  obtain e0 c0 where c0: "UpdateLastScaledUpTime K now c (CRDName crd) ns = (e0, c0)" by fastforce
  obtain e1 c1 where c1: "keda_resume K c0 (CRDSpec crd) ns = (e1, c1)" by fastforce
  from assms(2,3) c0 c1 have e1: "e1 = None"
    and f: "ScaleTargetFromZero K c1 ns (Kind (TargetRef (CRDSpec crd)))
      (TargetRefName (TargetRef (CRDSpec crd))) (MinTargetReplicas (CRDSpec crd)) (CRDName crd) = Ret (None, c')"
    by (auto simp: scaleTargetForService_def split: option.splits go.splits)
  have "?tr c1 = ?tr c"
    using view_keda_resume [OF assms(1) c1] view_UpdateLastScaledUpTime [OF assms(1) c0] by simp
  with from_zero_replicas [OF assms(1) f] assms(4) show ?thesis by auto
qed

section \<open>Properties\<close>

text \<open>A post that names a service the directory knows is answered with 200, and when the scaling
  succeeds the target of that service has at least its minimum number of replicas.\<close>

lemma post_scales_target:
  assumes "k8s_laws K view" "GetCRD (nn_String (RC_Namespace b) (Svc b)) d = Ret (Some crd)"
    and "0 < MinTargetReplicas (CRDSpec crd)" "fresh_writer w"
    and "scaleTargetForService K now d c (Svc b) (RC_Namespace b) = Ret (None, c')"
  shows "\<exists>w'. resolverReqHandler K now d c w ''POST'' (Inr b) = Ret (w', c') \<and> rw_status w' = Some 200 \<and>
    (\<exists>old. target_replicas (Kind (TargetRef (CRDSpec crd))) (view c') (RC_Namespace b)
       (TargetRefName (TargetRef (CRDSpec crd))) = Some (max old (MinTargetReplicas (CRDSpec crd))))"
  using scaleTargetForService_ok [OF assms(1,2,5,3)] assms(4,5)
  by (auto simp: resolverReqHandler_def writer_defs fresh_writer_def)

definition example_directory :: Directory where
  "example_directory = Some [(''shop/web'', example_details)]"

lemma example_scale_service:
  "\<exists>c'. scaleTargetForService K0 7 example_directory (example_cluster 0) ''web'' ''shop'' = Ret (None, c')"
  by (simp add: scaleTargetForService_def GetCRD_def example_directory_def nn_String_def example_details_def
      keda_resume_def uses_keda_def UpdateLastScaledUpTime_def ScaleTargetFromZero_def ScaleDeployment_def
      createEvent_def deployments_lower values_defs K0_defs patch_es_status_def)

lemma post_scales_target_example:
  "\<exists>w' c' old. resolverReqHandler K0 7 example_directory (example_cluster 0) empty_writer ''POST''
       (Inr \<lparr>Count = 1, Svc = ''web'', RC_Namespace = ''shop''\<rparr>) = Ret (w', c') \<and> rw_status w' = Some 200 \<and>
     target_replicas ''deployments'' c' ''shop'' ''web'' = Some (max old 1)"
proof -
  let ?b = "\<lparr>Count = 1, Svc = ''web'', RC_Namespace = ''shop''\<rparr>"
  obtain c' where c': "scaleTargetForService K0 7 example_directory (example_cluster 0) ''web'' ''shop'' = Ret (None, c')"
    using example_scale_service by blast
  have g: "GetCRD (nn_String (RC_Namespace ?b) (Svc ?b)) example_directory = Ret (Some example_details)"
    by (simp add: GetCRD_def example_directory_def nn_String_def)
  from post_scales_target [OF K0_laws g _ fresh_empty, of 7 "example_cluster 0" c'] c' show ?thesis
    by (auto simp: example_details_def)
qed

text \<open>Requests that are not posts or have a body that does not parse change nothing and are
  answered with 405 and 400; an unknown service is answered with 200 and changes nothing either.\<close>

lemma post_rejected:
  assumes "fresh_writer w" "GetCRD (nn_String (RC_Namespace b) (Svc b)) d = Ret None" "m \<noteq> ''POST''"
  shows "map (\<lambda>r. case r of Ret (w', c') \<Rightarrow> (rw_status w', c' = c) | Panic p \<Rightarrow> (None, False))
      [resolverReqHandler K now d c w m rb, resolverReqHandler K now d c w ''POST'' (Inl e),
       resolverReqHandler K now d c w ''POST'' (Inr b)] =
    [(Some 405, True), (Some 400, True), (Some 200, True)]"
  using assms
  by (simp add: resolverReqHandler_def raw_http_Error_def scaleTargetForService_def writer_defs fresh_writer_def)

lemma post_rejected_example:
  "map (\<lambda>r. case r of Ret (w', c') \<Rightarrow> (rw_status w', c' = example_cluster 0) | Panic p \<Rightarrow> (None, False))
     [resolverReqHandler K0 7 (InitDirectory None) (example_cluster 0) empty_writer ''GET'' (Inl Canceled),
      resolverReqHandler K0 7 (InitDirectory None) (example_cluster 0) empty_writer ''POST'' (Inl Canceled),
      resolverReqHandler K0 7 (InitDirectory None) (example_cluster 0) empty_writer ''POST''
        (Inr \<lparr>Count = 1, Svc = ''web'', RC_Namespace = ''shop''\<rparr>)] =
   [(Some 405, True), (Some 400, True), (Some 200, True)]"
  by (rule post_rejected) (simp_all add: InitDirectory_def GetCRD_def)

text \<open>The server returns an error exactly when it could not serve; a shutdown returns none.\<close>

lemma Server_Start_returns:
  assumes "\<And>err. listenErr = Some err \<Longrightarrow> errors_Is err ErrServerClosed \<Longrightarrow> quit" "listenErr \<noteq> None"
  shows "\<exists>r. Server_Start listenErr quit = Some r \<and>
    (r = None \<longleftrightarrow> (\<exists>err. listenErr = Some err \<and> errors_Is err ErrServerClosed))"
  using assms by (auto simp: Server_Start_def)

text \<open>The port may be given with or without its colon.\<close>

lemma server_Addr_colon: "server_Addr (CHR '':'' # p) = CHR '':'' # p" "hd p \<noteq> CHR '':'' \<Longrightarrow> server_Addr p = CHR '':'' # p"
proof -
  show "server_Addr (CHR '':'' # p) = CHR '':'' # p" by (simp add: server_Addr_def TrimPrefix_def HasPrefix_def)
  assume "hd p \<noteq> CHR '':''"
  then have "\<not> HasPrefix p '':''" by (cases p) (simp_all add: HasPrefix_def)
  then show "server_Addr p = CHR '':'' # p" by (simp add: server_Addr_def TrimPrefix_def)
qed

text \<open>The path the resolver posts to leads to the handler.\<close>

lemma server_routes_posts:
  "server_ServeHTTP K promhttp now d c w ''/informer/incoming-request'' ''POST'' ''/informer/incoming-request'' reqBody =
     Handled (resolverReqHandler K now d c w ''POST'' reqBody)"
proof -
  have "cleanPath ''/informer/incoming-request'' = ''/informer/incoming-request''" by code_simp
  then show ?thesis by (simp add: server_ServeHTTP_def mux_ServeHTTP_def mux_Handler_def server_mux_def)
qed

end
