(* ===== verification/ScaleWatcher.thy ===== *)
theory ScaleWatcher
  imports ElastiServer
begin

text \<open>
  The rest of \<open>pkg/scaling/scale_handler.go\<close>: the handler with its locks, the watcher that runs the
  check on every tick until its context is cancelled, and how the check and the posts of the resolver
  work together. \<open>time.ParseDuration\<close> is a parameter.
\<close>

section \<open>The handler and its locks\<close>

text \<open>A mutex is its address; \<open>LoadOrStore\<close> keeps the one that is there.\<close>

record ScaleHandler =
  scaleLocks :: "string \<rightharpoonup> nat"
  sh_watchNamespace :: string

definition getMutexForScale :: "nat \<Rightarrow> string \<Rightarrow> ScaleHandler \<Rightarrow> nat \<times> ScaleHandler" where
  "getMutexForScale newMutex key h =
     (case scaleLocks h key of
        Some l \<Rightarrow> (l, h)
      | None \<Rightarrow> (newMutex, h\<lparr>scaleLocks := (scaleLocks h)(key \<mapsto> newMutex)\<rparr>))"

text \<open>The two clients are made first; the process exits when that fails (\<open>Inl\<close>).\<close>

definition NewScaleHandler :: "goerr option \<Rightarrow> goerr option \<Rightarrow> string \<Rightarrow> ScaleHandler result" where
  "NewScaleHandler kErr dynErr watchNamespace =
     (case kErr of
        Some err \<Rightarrow> Inl (Wrap ''Error connecting with kubernetes'' err)
      | None \<Rightarrow>
          (case dynErr of
             Some err \<Rightarrow> Inl (Wrap ''Error connecting with kubernetes'' err)
           | None \<Rightarrow> Inr \<lparr>scaleLocks = Map.empty, sh_watchNamespace = watchNamespace\<rparr>))"

text \<open>Calls for one service share a mutex, calls for different services do not.\<close>

lemma getMutexForScale_same:
  "getMutexForScale a key h = (l, h1) \<Longrightarrow> getMutexForScale b key h1 = (l, h1)"
  by (auto simp: getMutexForScale_def split: option.splits)

lemma getMutexForScale_other:
  assumes "getMutexForScale a key h = (l, h1)" "getMutexForScale b key' h1 = (l', h2)" "key \<noteq> key'"
    and "inj_on (scaleLocks h) (dom (scaleLocks h))" "Some a \<notin> range (scaleLocks h)" "Some b \<notin> range (scaleLocks h)"
      "a \<noteq> b"
  shows "l \<noteq> l'"
proof -
  have "scaleLocks h key' \<noteq> Some b" "scaleLocks h key \<noteq> Some b" "scaleLocks h key' \<noteq> Some a"
    using assms(5,6) by (metis rangeI)+
  moreover have "scaleLocks h key \<noteq> scaleLocks h key' \<or> scaleLocks h key = None"
    using assms(3,4) by (auto dest: inj_onD)
  ultimately show ?thesis
    using assms(1-3,7) by (auto simp: getMutexForScale_def split: option.splits if_splits)
qed

section \<open>The watcher\<close>

definition pollingInterval :: "(string \<Rightarrow> int result) \<Rightarrow> string \<Rightarrow> int" where
  "pollingInterval ParseDuration envInterval =
     (if envInterval = '''' then 30 * time_Second
      else (case ParseDuration envInterval of Inl err \<Rightarrow> 30 * time_Second | Inr duration \<Rightarrow> duration))"

definition NewTicker :: "int \<Rightarrow> int go" where
  "NewTicker d = (if d \<le> 0 then Panic ''non-positive interval for NewTicker'' else Ret d)"

text \<open>Starting the watcher gives the interval of its ticker.\<close>

definition StartScaleDownWatcher :: "(string \<Rightarrow> int result) \<Rightarrow> string \<Rightarrow> int go" where
  "StartScaleDownWatcher ParseDuration envInterval = NewTicker (pollingInterval ParseDuration envInterval)"

datatype watch_event = Tick int | CtxCancelled

text \<open>The goroutine of the watcher; the error of a check is logged.\<close>

fun watcher_loop ::
  "'c K8s \<Rightarrow> prom_env \<Rightarrow> string \<Rightarrow> watch_event list \<Rightarrow> 'c \<times> promQueryResponse \<Rightarrow>
   ('c \<times> promQueryResponse) go" where
  "watcher_loop K E ns [] s = Ret s"
| "watcher_loop K E ns (CtxCancelled # evs) s = Ret s"
| "watcher_loop K E ns (Tick now # evs) s =
     (case checkAndScale K E now ns s of
        Panic m \<Rightarrow> Panic m
      | Ret (err, s') \<Rightarrow> watcher_loop K E ns evs s')"

text \<open>An interval that parses but is not positive ends the operator, while one that does not parse is ignored.\<close>

lemma StartScaleDownWatcher_panics:
  assumes "ParseDuration s = Inr d" "s \<noteq> ''''"
  shows "StartScaleDownWatcher ParseDuration s =
    (if d \<le> 0 then Panic ''non-positive interval for NewTicker'' else Ret d)"
  using assms by (simp add: StartScaleDownWatcher_def pollingInterval_def NewTicker_def)

lemma StartScaleDownWatcher_default:
  assumes "s = '''' \<or> ParseDuration s = Inl e"
  shows "StartScaleDownWatcher ParseDuration s = Ret (30 * time_Second)"
  using assms by (auto simp: StartScaleDownWatcher_def pollingInterval_def NewTicker_def time_Second_def)

section \<open>What a check leaves alone\<close>

definition same_kind :: "string \<Rightarrow> string \<Rightarrow> bool" where
  "same_kind k k' = (ToLower k = ToLower k')"

text \<open>All a check does to the stored resources is to record the time at which a target was scaled up.\<close>

definition es_scaled :: "int \<Rightarrow> Cluster \<Rightarrow> Cluster \<Rightarrow> bool" where
  "es_scaled now m m' =
     (\<forall>k. C_es m' k = C_es m k \<or>
        (\<exists>e. C_es m k = Some e \<and> C_es m' k = Some (e\<lparr>Status := (Status e)\<lparr>LastScaledUpTime := Some now\<rparr>\<rparr>)))"

lemma es_scaled_refl [simp]: "C_es m' = C_es m \<Longrightarrow> es_scaled now m m'"
  by (simp add: es_scaled_def)

lemma es_scaled_trans:
  assumes "es_scaled now m m1" "es_scaled now m1 m2"
  shows "es_scaled now m m2"
  unfolding es_scaled_def
proof
  fix k
  show "C_es m2 k = C_es m k \<or> (\<exists>e. C_es m k = Some e \<and>
      C_es m2 k = Some (e\<lparr>Status := (Status e)\<lparr>LastScaledUpTime := Some now\<rparr>\<rparr>))"
    using assms [unfolded es_scaled_def, THEN spec [of _ k]] by (elim disjE) (auto simp del: split_paired_All)
qed

lemma es_scaled_patch: "es_scaled now m (patch_es_status ns n (\<lambda>st. st\<lparr>LastScaledUpTime := Some now\<rparr>) m)"
  by (auto simp: es_scaled_def patch_es_status_def)

lemma C_es_other [simp]:
  "C_es (patch_so ns n as m) = C_es m" "C_es (add_event ev m) = C_es m"
  "C_es (patch_dep ns n r m) = C_es m" "C_es (patch_ro ns n r m) = C_es m"
  by (simp_all add: cluster_ops)

lemma target_replicas_other:
  "\<not> (same_kind k KindDeployments \<and> ns' = ns \<and> n' = n) \<Longrightarrow>
     target_replicas k (patch_dep ns n r m) ns' n' = target_replicas k m ns' n'"
  "\<not> (same_kind k KindRollout \<and> ns' = ns \<and> n' = n) \<Longrightarrow>
     target_replicas k (patch_ro ns n r m) ns' n' = target_replicas k m ns' n'"
proof -
  have l: "ToLower KindDeployments = KindDeployments" "ToLower KindRollout = KindRollout"
    unfolding values_defs by code_simp+
  show "\<not> (same_kind k KindDeployments \<and> ns' = ns \<and> n' = n) \<Longrightarrow>
      target_replicas k (patch_dep ns n r m) ns' n' = target_replicas k m ns' n'"
    by (auto simp: target_replicas_def deployment_replicas_def rollout_replicas_def patch_dep_def same_kind_def l)
  show "\<not> (same_kind k KindRollout \<and> ns' = ns \<and> n' = n) \<Longrightarrow>
      target_replicas k (patch_ro ns n r m) ns' n' = target_replicas k m ns' n'"
    by (auto simp: target_replicas_def deployment_replicas_def rollout_replicas_def patch_ro_def same_kind_def l)
qed

lemma scale_target_frame:
  assumes "k8s_laws K view" "scale_target K kind c ns n r = Ret ((b, e), c')"
    and "ToLower kind = KindDeployments \<or> ToLower kind = KindRollout"
  shows "C_es (view c') = C_es (view c) \<and>
    (\<not> (same_kind k kind \<and> ns' = ns \<and> n' = n) \<longrightarrow>
      target_replicas k (view c') ns' n' = target_replicas k (view c) ns' n')"
proof (cases e)
  case (Some err)
  with scale_target_err [OF assms(1)] assms(2) show ?thesis by auto
next
  case None
  have kinds: "ToLower KindDeployments = KindDeployments" "ToLower KindRollout = KindRollout"
    unfolding values_defs by code_simp+
  show ?thesis
  proof (cases "ToLower kind = KindDeployments")
    case True
    then have "ScaleDeployment K c ns n r = Ret ((b, None), c')"
      using assms(2) None by (simp add: scale_target_def)
    from deployments.scale_ok [OF assms(1) this]
    have "view c' = (if b then patch_dep ns n r (view c) else view c)" by blast
    then show ?thesis using True target_replicas_other(1) [of k ns' ns n' n r]
      by (simp add: same_kind_def kinds)
  next
    case False
    then have "ScaleArgoRollout K c ns n r = Ret ((b, None), c')" and k: "ToLower kind = KindRollout"
      using assms(2,3) None by (simp_all add: scale_target_def)
    from rollouts.scale_ok [OF assms(1) this(1)]
    have "view c' = (if b then patch_ro ns n r (view c) else view c)" by blast
    then show ?thesis using k target_replicas_other(2) [of k ns' ns n' n r]
      by (simp add: same_kind_def kinds)
  qed
qed

definition others_kept :: "string \<Rightarrow> string \<Rightarrow> string \<Rightarrow> Cluster \<Rightarrow> Cluster \<Rightarrow> bool" where
  "others_kept kind ns n m m' =
     (\<forall>k ns' n'. \<not> (same_kind k kind \<and> ns' = ns \<and> n' = n) \<longrightarrow>
        target_replicas k m' ns' n' = target_replicas k m ns' n')"

lemma others_kept_refl: "others_kept kind ns n m m"
  by (simp add: others_kept_def)

definition scaled_with_event ::
  "'c K8s \<Rightarrow> 'c \<Rightarrow> string \<Rightarrow> string \<Rightarrow> string \<Rightarrow> int \<Rightarrow> string \<Rightarrow> 'c \<Rightarrow> bool" where
  "scaled_with_event K c ns kind n r es c' =
     (c' = c \<or>
      ((ToLower kind = KindDeployments \<or> ToLower kind = KindRollout) \<and>
       (\<exists>x c1. scale_target K kind c ns n r = Ret (x, c1) \<and>
          (c' = c1 \<or> (\<exists>t reason. c' = createEvent K c1 ns es t reason)))))"

lemma FromZero_shape:
  assumes "ScaleTargetFromZero K c ns kind n r es = Ret (e, c')"
  shows "scaled_with_event K c ns kind n r es c'"
proof (cases "scale_target K kind c ns n r")
  case (Panic m)
  with assms show ?thesis
    by (auto simp: scaled_with_event_def ScaleTargetFromZero_def scale_target_def [symmetric] split: if_splits)
next
  case (Ret x)
  obtain b err c1 where "x = ((b, err), c1)" by (cases x) auto
  with Ret assms show ?thesis
    by (cases err; cases b) (auto simp: scaled_with_event_def ScaleTargetFromZero_def scale_target_def [symmetric]
        split: if_splits)
qed

lemma ToZero_shape:
  assumes "ScaleTargetToZero K c ns kind n es = Ret (e, c')"
  shows "scaled_with_event K c ns kind n 0 es c'"
proof (cases "scale_target K kind c ns n 0")
  case (Panic m)
  with assms show ?thesis
    by (auto simp: scaled_with_event_def ScaleTargetToZero_def scale_target_def [symmetric] split: if_splits)
next
  case (Ret x)
  obtain b err c1 where "x = ((b, err), c1)" by (cases x) auto
  with Ret assms show ?thesis
    by (cases err; cases b) (auto simp: scaled_with_event_def ScaleTargetToZero_def scale_target_def [symmetric]
        split: if_splits)
qed

lemma scaled_frame_of:
  assumes "k8s_laws K view" "scaled_with_event K c ns kind n r es c'"
  shows "C_es (view c') = C_es (view c) \<and> others_kept kind ns n (view c) (view c')"
proof -
  from assms(2) consider (none) "c' = c"
    | (scaled) b e' c1 where "scale_target K kind c ns n r = Ret ((b, e'), c1)"
      "ToLower kind = KindDeployments \<or> ToLower kind = KindRollout"
      "c' = c1 \<or> (\<exists>t reason. c' = createEvent K c1 ns es t reason)"
    unfolding scaled_with_event_def by (metis prod.exhaust)
  then show ?thesis
  proof cases
    case none
    then show ?thesis by (simp add: others_kept_refl)
  next
    case scaled
    then obtain ev where "view c' = view c1 \<or> view c' = add_event ev (view c1)"
      using view_createEvent [OF assms(1)] by metis
    with scale_target_frame [OF assms(1) scaled(1,2)] show ?thesis
      by (auto simp: others_kept_def)
  qed
qed

lemmas FromZero_frame = scaled_frame_of [OF _ FromZero_shape]
lemmas ToZero_frame = scaled_frame_of [OF _ ToZero_shape]

lemma handleScaleToZero_frame:
  assumes "k8s_laws K view" "handleScaleToZero K now c cooldown es = Ret (e, c')"
  shows "C_es (view c') = C_es (view c) \<and> others_kept (Kind (TargetRef (Spec es))) (ES_Namespace es)
      (TargetRefName (TargetRef (Spec es))) (view c) (view c') \<and>
    ((\<exists>t. LastScaledUpTime (Status es) = Some t \<and> now - t < cooldown) \<longrightarrow> view c' = view c)"
proof (cases "case LastScaledUpTime (Status es) of None \<Rightarrow> False | Some t \<Rightarrow> now - t < cooldown")
  case True
  then show ?thesis using assms(2) by (simp add: handleScaleToZero_def others_kept_refl)
next
  case False
  obtain e1 c1 where c1: "(case uses_keda (Spec es) of
      Some a \<Rightarrow> UpdateKedaScaledObjectPausedState K c (AutoscalerName a) (ES_Namespace es) True
    | None \<Rightarrow> (None, c)) = (e1, c1)" by fastforce
  then have v1: "C_es (view c1) = C_es (view c)" "target_replicas k (view c1) ns' n' = target_replicas k (view c) ns' n'"
    for k ns' n' using view_UpdateKeda [OF assms(1), of c] by (auto split: option.splits)
  have run: "handleScaleToZero K now c cooldown es =
     (case e1 of
           Some err \<Rightarrow> Ret (Some (Wrap ''failed to update Keda ScaledObject'' err), c1)
         | None \<Rightarrow>
             (case ScaleTargetToZero K c1 (ES_Namespace es) (Kind (TargetRef (Spec es)))
                     (TargetRefName (TargetRef (Spec es))) (ES_Name es) of
                Panic m \<Rightarrow> Panic m
              | Ret (Some err, c2) \<Rightarrow> Ret (Some (Wrap ''failed to scale target to zero'' err), c2)
              | Ret (None, c2) \<Rightarrow> Ret (None, c2)))"
    using False by (simp add: handleScaleToZero_def c1 split: option.splits)
  consider "c' = c1"
    | e2 where "ScaleTargetToZero K c1 (ES_Namespace es) (Kind (TargetRef (Spec es)))
        (TargetRefName (TargetRef (Spec es))) (ES_Name es) = Ret (e2, c')"
    using assms(2) run by (auto split: option.splits go.splits prod.splits)
  then have "C_es (view c') = C_es (view c1) \<and> others_kept (Kind (TargetRef (Spec es))) (ES_Namespace es)
      (TargetRefName (TargetRef (Spec es))) (view c1) (view c')"
  proof cases
    case 1
    then show ?thesis by (simp add: others_kept_refl)
  next
    case 2
    then show ?thesis by (rule ToZero_frame [OF assms(1)])
  qed
  with v1 False show ?thesis by (auto simp: others_kept_def)
qed

lemma handleScaleFromZero_frame:
  assumes "k8s_laws K view" "handleScaleFromZero K now c es = Ret (e, c')"
  shows "es_scaled now (view c) (view c') \<and> others_kept (Kind (TargetRef (Spec es))) (ES_Namespace es)
      (TargetRefName (TargetRef (Spec es))) (view c) (view c')"
proof -
  obtain e0 c0 where c0: "UpdateLastScaledUpTime K now c (ES_Name es) (ES_Namespace es) = (e0, c0)" by fastforce
  have v0: "es_scaled now (view c) (view c0)" "target_replicas k (view c0) ns' n' = target_replicas k (view c) ns' n'"
    for k ns' n' using view_UpdateLastScaledUpTime [OF assms(1) c0] by (simp_all add: es_scaled_patch)
  obtain e1 c1 where c1: "(case uses_keda (Spec es) of
      Some a \<Rightarrow> UpdateKedaScaledObjectPausedState K c0 (AutoscalerName a) (ES_Namespace es) False
    | None \<Rightarrow> (None, c0)) = (e1, c1)" by fastforce
  then have v1: "C_es (view c1) = C_es (view c0)" "target_replicas k (view c1) ns' n' = target_replicas k (view c0) ns' n'"
    for k ns' n' using view_UpdateKeda [OF assms(1), of c0] by (auto split: option.splits)
  consider "c' = c1"
    | e2 where "ScaleTargetFromZero K c1 (ES_Namespace es) (Kind (TargetRef (Spec es)))
        (TargetRefName (TargetRef (Spec es))) (MinTargetReplicas (Spec es)) (ES_Name es) = Ret (e2, c')"
    using assms(2) c0 c1
    by (cases e1) (auto simp: handleScaleFromZero_def Let_def split: option.splits go.splits prod.splits)
  then have "C_es (view c') = C_es (view c1) \<and> others_kept (Kind (TargetRef (Spec es))) (ES_Namespace es)
      (TargetRefName (TargetRef (Spec es))) (view c1) (view c')"
  proof cases
    case 1
    then show ?thesis by (simp add: others_kept_refl)
  next
    case 2
    then show ?thesis by (rule FromZero_frame [OF assms(1)])
  qed
  with v1 v0 es_scaled_trans [OF v0(1), of "view c'"] show ?thesis by (auto simp: others_kept_def)
qed

section \<open>Staying awake\<close>

text \<open>A listing holds stored resources.\<close>

definition lists_current :: "'c K8s \<Rightarrow> ('c \<Rightarrow> Cluster) \<Rightarrow> bool" where
  "lists_current K view =
     (\<forall>c ns items es. list_es_dynamic K c ns = Inr items \<longrightarrow> Inr es \<in> set items \<longrightarrow>
        (\<exists>k. C_es (view c) k = Some es))"

lemma memory_lists_current: "lists_current (memory_client ks) id"
proof -
  have "\<exists>k. C_es c k = Some es" if "es \<in> set (List.map_filter (C_es c) ks)" for c es
    using that by (auto simp: List.map_filter_def simp del: split_paired_Ex)
  then show ?thesis by (auto simp: lists_current_def memory_client_def simp del: split_paired_Ex)
qed

text \<open>Another resource does not scale the target of the given one.\<close>

definition own_item :: "ElastiService \<Rightarrow> ElastiService \<Rightarrow> bool" where
  "own_item es0 es = (ES_Namespace es = ES_Namespace es0 \<and> ES_Name es = ES_Name es0)"

definition other_target :: "ElastiService \<Rightarrow> ElastiService \<Rightarrow> bool" where
  "other_target es0 es =
     (\<not> (same_kind (Kind (TargetRef (Spec es0))) (Kind (TargetRef (Spec es))) \<and>
         ES_Namespace es0 = ES_Namespace es \<and>
         TargetRefName (TargetRef (Spec es0)) = TargetRefName (TargetRef (Spec es))))"

text \<open>The resource itself has the given specification and was scaled up at \<open>t\<close> or later.\<close>

definition item_ok :: "int \<Rightarrow> ElastiService \<Rightarrow> ElastiService \<Rightarrow> bool" where
  "item_ok t es0 es =
     (if own_item es0 es
      then Spec es = Spec es0 \<and> (\<exists>t'. LastScaledUpTime (Status es) = Some t' \<and> t \<le> t')
      else other_target es0 es)"

definition target_of :: "ElastiService \<Rightarrow> Cluster \<Rightarrow> int option" where
  "target_of es m = target_replicas (Kind (TargetRef (Spec es))) m (ES_Namespace es)
     (TargetRefName (TargetRef (Spec es)))"

definition awake :: "int \<Rightarrow> ElastiService \<Rightarrow> Cluster \<Rightarrow> bool" where
  "awake t es0 m =
     ((\<forall>k es. C_es m k = Some es \<longrightarrow> item_ok t es0 es) \<and> (\<exists>r. target_of es0 m = Some r \<and> MinTargetReplicas (Spec es0) \<le> r))"

lemma item_ok_scaled:
  "item_ok t es0 e \<Longrightarrow> t \<le> now \<Longrightarrow> item_ok t es0 (e\<lparr>Status := (Status e)\<lparr>LastScaledUpTime := Some now\<rparr>\<rparr>)"
  by (auto simp: item_ok_def own_item_def other_target_def)

lemma awake_scaled:
  assumes "awake t es0 m" "es_scaled now m m'" "t \<le> now" "\<exists>r. target_of es0 m' = Some r \<and> MinTargetReplicas (Spec es0) \<le> r"
  shows "awake t es0 m'"
proof -
  have "item_ok t es0 es" if "C_es m' k = Some es" for k es
    using assms(2) [unfolded es_scaled_def, THEN spec [of _ k]]
  proof
    assume "C_es m' k = C_es m k"
    with assms(1) that show ?thesis unfolding awake_def by (metis)
  next
    assume "\<exists>e. C_es m k = Some e \<and> C_es m' k = Some (e\<lparr>Status := (Status e)\<lparr>LastScaledUpTime := Some now\<rparr>\<rparr>)"
    then obtain e where e: "C_es m k = Some e"
      "C_es m' k = Some (e\<lparr>Status := (Status e)\<lparr>LastScaledUpTime := Some now\<rparr>\<rparr>)" by blast
    then have "es = e\<lparr>Status := (Status e)\<lparr>LastScaledUpTime := Some now\<rparr>\<rparr>" using that by simp
    moreover from e(1) have "item_ok t es0 e" using assms(1) unfolding awake_def by metis
    ultimately show ?thesis using item_ok_scaled assms(3) by simp
  qed
  with assms(4) show ?thesis by (simp add: awake_def del: split_paired_All)
qed

lemma others_kept_target:
  "others_kept (Kind (TargetRef (Spec es))) (ES_Namespace es) (TargetRefName (TargetRef (Spec es))) m m' \<Longrightarrow>
   other_target es0 es \<Longrightarrow> target_of es0 m' = target_of es0 m"
  unfolding others_kept_def other_target_def target_of_def by blast

lemma handle_down_awake:
  assumes "k8s_laws K view" "awake t es0 (view c)" "item_ok t es0 es" "t \<le> now"
    and "now < t + resolveCooldownPeriod es0"
    and "handleScaleToZero K now c (resolveCooldownPeriod es) es = Ret (e, c')"
  shows "awake t es0 (view c')"
proof -
  note fr = handleScaleToZero_frame [OF assms(1,6)]
  show ?thesis
  proof (cases "own_item es0 es")
    case True
    then obtain t' where "LastScaledUpTime (Status es) = Some t'" "t \<le> t'" "Spec es = Spec es0"
      using assms(3) by (auto simp: item_ok_def)
    moreover from this(3) have "resolveCooldownPeriod es = resolveCooldownPeriod es0"
      by (simp add: resolveCooldownPeriod_def)
    ultimately have "view c' = view c" using fr assms(5) by auto
    with assms(2) show ?thesis by simp
  next
    case False
    with assms(3) have "other_target es0 es" by (simp add: item_ok_def)
    then have "target_of es0 (view c') = target_of es0 (view c)" using fr others_kept_target by blast
    with assms(2) fr show ?thesis by (simp add: awake_def del: split_paired_All)
  qed
qed

lemma handle_up_awake:
  assumes "k8s_laws K view" "awake t es0 (view c)" "item_ok t es0 es" "t \<le> now"
    and "0 < MinTargetReplicas (Spec es0)" "handleScaleFromZero K now c es = Ret (e, c')"
  shows "awake t es0 (view c')"
proof -
  note fr = handleScaleFromZero_frame [OF assms(1,6)]
  obtain old where old: "target_of es0 (view c) = Some old" "MinTargetReplicas (Spec es0) \<le> old" using assms(2) by (auto simp: awake_def)
  have "\<exists>r. target_of es0 (view c') = Some r \<and> MinTargetReplicas (Spec es0) \<le> r"
  proof (cases "own_item es0 es")
    case True
    with assms(3) have sp: "Spec es = Spec es0" "ES_Namespace es = ES_Namespace es0"
      by (auto simp: item_ok_def own_item_def)
    then have "target_of es0 = target_of es" by (simp add: fun_eq_iff target_of_def)
    with old handleScaleFromZero_keeps [OF assms(1,6), of old] assms(5) sp(1) show ?thesis
      by (auto simp: target_of_def)
  next
    case False
    with assms(3) have "other_target es0 es" by (simp add: item_ok_def)
    then show ?thesis using fr others_kept_target old by metis
  qed
  with awake_scaled [OF assms(2) _ assms(4)] fr show ?thesis by blast
qed

lemma check_item_awake:
  assumes "k8s_laws K view" "awake t es0 (view c)" "\<And>es. item = Inr es \<Longrightarrow> item_ok t es0 es" "t \<le> now"
    and "now < t + resolveCooldownPeriod es0" "0 < MinTargetReplicas (Spec es0)"
    and "check_item K E now item (c, g) = Ret (c', g')"
  shows "awake t es0 (view c')"
proof (cases item)
  case (Inl err)
  then show ?thesis using assms(2,7) by (simp add: check_item_def)
next
  case (Inr es)
  from assms(7) consider "c' = c"
    | e where "handleScaleToZero K now c (resolveCooldownPeriod es) es = Ret (e, c')"
    | e where "handleScaleFromZero K now c es = Ret (e, c')"
    unfolding Inr
    by (auto simp: check_item_def Let_def split: go.splits sum.splits ScaleDirection.splits prod.splits)
  then show ?thesis
    using assms(2) handle_down_awake [OF assms(1,2,3) assms(4,5)] handle_up_awake [OF assms(1,2,3) assms(4,6)] Inr
    by cases auto
qed

lemma check_items_awake:
  assumes "k8s_laws K view" "awake t es0 (view c)" "\<And>es. Inr es \<in> set items \<Longrightarrow> item_ok t es0 es" "t \<le> now"
    and "now < t + resolveCooldownPeriod es0" "0 < MinTargetReplicas (Spec es0)"
    and "check_items K E now items (c, g) = Ret (c', g')"
  shows "awake t es0 (view c')"
  using assms(2,3,7)
proof (induction items arbitrary: c g)
  case Nil
  then show ?case by simp
next
  case (Cons item items)
  from Cons.prems(3) obtain c1 g1 where it: "check_item K E now item (c, g) = Ret (c1, g1)"
    and rest: "check_items K E now items (c1, g1) = Ret (c', g')"
    by (auto split: go.splits)
  have "awake t es0 (view c1)"
    by (rule check_item_awake [OF assms(1) Cons.prems(1) _ assms(4-6) it]) (use Cons.prems(2) in auto)
  then show ?case using Cons.IH [OF _ _ rest] Cons.prems(2) by simp
qed

lemma tick_awake:
  assumes "k8s_laws K view" "lists_current K view" "awake t es0 (view c)" "t \<le> now"
    and "now < t + resolveCooldownPeriod es0" "0 < MinTargetReplicas (Spec es0)"
    and "checkAndScale K E now ns (c, g) = Ret (err, c', g')"
  shows "awake t es0 (view c')"
proof (cases "list_es_dynamic K c ns")
  case (Inl e)
  then show ?thesis using assms(3,7) by (simp add: checkAndScale_def)
next
  case (Inr items)
  have "item_ok t es0 es" if "Inr es \<in> set items" for es
    using assms(2,3) Inr that unfolding lists_current_def awake_def by metis
  moreover have "check_items K E now items (c, g) = Ret (c', g')"
    using assms(7) Inr by (auto simp: checkAndScale_def split: go.splits)
  ultimately show ?thesis using check_items_awake [OF assms(1,3) _ assms(4-6)] by blast
qed

definition tick_within :: "int \<Rightarrow> int \<Rightarrow> watch_event \<Rightarrow> bool" where
  "tick_within t cooldown ev = (case ev of Tick now \<Rightarrow> t \<le> now \<and> now < t + cooldown | CtxCancelled \<Rightarrow> True)"

lemma watcher_awake:
  assumes "k8s_laws K view" "lists_current K view" "0 < MinTargetReplicas (Spec es0)"
    and "awake t es0 (view c)" "list_all (tick_within t (resolveCooldownPeriod es0)) evs"
    and "watcher_loop K E ns evs (c, g) = Ret (c', g')"
  shows "awake t es0 (view c')"
  using assms(4-6)
proof (induction evs arbitrary: c g)
  case Nil
  then show ?case by simp
next
  case (Cons ev evs)
  show ?case
  proof (cases ev)
    case CtxCancelled
    then show ?thesis using Cons.prems by simp
  next
    case (Tick now)
    with Cons.prems(3) obtain err c1 g1 where c1: "checkAndScale K E now ns (c, g) = Ret (err, c1, g1)"
      and rest: "watcher_loop K E ns evs (c1, g1) = Ret (c', g')"
      by (auto split: go.splits)
    have "awake t es0 (view c1)"
      by (rule tick_awake [OF assms(1,2) Cons.prems(1) _ _ assms(3) c1])
        (use Cons.prems(2) Tick in \<open>auto simp: tick_within_def\<close>)
    then show ?thesis using Cons.IH [OF _ _ rest] Cons.prems(2) by simp
  qed
qed

section \<open>After a post\<close>

lemma scaleTargetForService_es:
  assumes "k8s_laws K view" "GetCRD (nn_String ns svc) d = Ret (Some crd)"
    and "UpdateLastScaledUpTime K now c (CRDName crd) ns = (None, c0)"
    and "scaleTargetForService K now d c svc ns = Ret (e, c')"
  shows "C_es (view c') =
    C_es (patch_es_status ns (CRDName crd) (\<lambda>st. st\<lparr>LastScaledUpTime := Some now\<rparr>) (view c))"
proof -
  have v0: "view c0 = patch_es_status ns (CRDName crd) (\<lambda>st. st\<lparr>LastScaledUpTime := Some now\<rparr>) (view c)"
    using view_UpdateLastScaledUpTime [OF assms(1,3)] by simp
  obtain e1 c1 where c1: "keda_resume K c0 (CRDSpec crd) ns = (e1, c1)" by fastforce
  consider "c' = c1"
    | e2 where "ScaleTargetFromZero K c1 ns (Kind (TargetRef (CRDSpec crd)))
        (TargetRefName (TargetRef (CRDSpec crd))) (MinTargetReplicas (CRDSpec crd)) (CRDName crd) = Ret (e2, c')"
    using assms(2-4) c1
    by (cases e1) (auto simp: scaleTargetForService_def split: option.splits go.splits)
  then have "C_es (view c') = C_es (view c1)"
  proof cases
    case 1
    then show ?thesis by simp
  next
    case 2
    then show ?thesis using FromZero_frame [OF assms(1)] by blast
  qed
  then show ?thesis using view_keda_resume [OF assms(1) c1] v0 by simp
qed

lemma post_awake:
  assumes "k8s_laws K view" "wf_cluster (view c)" "C_es (view c) (ES_Namespace es, ES_Name es) = Some es"
    and "\<And>k e. C_es (view c) k = Some e \<Longrightarrow> own_item es e \<or> other_target es e"
    and "GetCRD (nn_String (ES_Namespace es) svc) d = Ret (Some crd)" "CRDName crd = ES_Name es" "CRDSpec crd = Spec es"
    and "fst (UpdateLastScaledUpTime K t c (ES_Name es) (ES_Namespace es)) = None"
    and "0 < MinTargetReplicas (Spec es)" "scaleTargetForService K t d c svc (ES_Namespace es) = Ret (None, c')"
  shows "awake t es (view c')"
proof -
  obtain c0 where c0: "UpdateLastScaledUpTime K t c (CRDName crd) (ES_Namespace es) = (None, c0)"
    using assms(6,8) by (metis prod.collapse)
  note es' = scaleTargetForService_es [OF assms(1,5) c0 assms(10)]
  have "item_ok t es e" if e: "C_es (view c') k = Some e" for k e
  proof (cases "k = (ES_Namespace es, ES_Name es)")
    case True
    then have "e = es\<lparr>Status := (Status es)\<lparr>LastScaledUpTime := Some t\<rparr>\<rparr>"
      using e es' assms(3,6) by (simp add: patch_es_status_def)
    then show ?thesis by (simp add: item_ok_def own_item_def)
  next
    case False
    then have old: "C_es (view c) k = Some e" using e es' assms(6) by (simp add: patch_es_status_def)
    moreover have "\<not> own_item es e"
      using False old wf_clusterD(3) [OF assms(2), of "fst k" "snd k" e] by (auto simp: own_item_def prod_eq_iff)
    ultimately show ?thesis using assms(4) [OF old] by (simp add: item_ok_def)
  qed
  moreover have "\<exists>r. target_of es (view c') = Some r \<and> MinTargetReplicas (Spec es) \<le> r"
    using scaleTargetForService_ok [OF assms(1,5,10)] assms(7,9) by (auto simp: target_of_def)
  ultimately show ?thesis by (simp add: awake_def del: split_paired_All)
qed

section \<open>Properties\<close>

text \<open>C7: after a post of the resolver at time \<open>t\<close> has scaled up a target that no other resource scales, no
  check whose listing is made during the cooldown period after \<open>t\<close> takes it below its minimum number of
  replicas again, whatever the triggers say and whatever else is scaled.\<close>

theorem woken_stays_awake:
  assumes "k8s_laws K view" "lists_current K view" "wf_cluster (view c)"
    and "C_es (view c) (ES_Namespace es, ES_Name es) = Some es"
    and "\<And>k e. C_es (view c) k = Some e \<Longrightarrow> own_item es e \<or> other_target es e"
    and "GetCRD (nn_String (ES_Namespace es) svc) d = Ret (Some crd)" "CRDName crd = ES_Name es" "CRDSpec crd = Spec es"
    and "fst (UpdateLastScaledUpTime K t c (ES_Name es) (ES_Namespace es)) = None"
    and "0 < MinTargetReplicas (Spec es)" "scaleTargetForService K t d c svc (ES_Namespace es) = Ret (None, c1)"
    and "list_all (tick_within t (resolveCooldownPeriod es)) evs" "watcher_loop K E ns evs (c1, g) = Ret (c2, g2)"
  shows "\<exists>r. target_of es (view c2) = Some r \<and> MinTargetReplicas (Spec es) \<le> r"
  using watcher_awake [OF assms(1,2,10) post_awake [OF assms(1,3-11)] assms(12,13)] by (simp add: awake_def)

definition woken_details :: CRDDetails where
  "woken_details = \<lparr>CRDName = ''web-es'', CRDSpec = Spec example_es, CRDStatus = Status example_es\<rparr>"

definition woken_directory :: Directory where
  "woken_directory = Some [(''shop/web'', woken_details)]"

lemmas post_defs =
  scaleTargetForService_def GetCRD_def woken_directory_def nn_String_def woken_details_def
  keda_resume_def uses_keda_def UpdateLastScaledUpTime_def UpdateKedaScaledObjectPausedState_def
  ScaleTargetFromZero_def ScaleDeployment_def createEvent_def deployments_lower values_defs K0_defs cluster_ops

definition example_woken :: ElastiService where
  "example_woken = example_es\<lparr>Status := (Status example_es)\<lparr>LastScaledUpTime := Some (9 * time_Second)\<rparr>\<rparr>"

lemma example_post:
  "\<exists>c1. scaleTargetForService K0 (9 * time_Second) woken_directory (example_cluster 0) ''web'' ''shop'' =
     Ret (None, c1) \<and> C_es c1 = [(''shop'', ''web-es'') \<mapsto> example_woken]"
  by (simp add: post_defs example_woken_def example_es_def)

lemma calculate_cong:
  "Spec es = Spec es' \<Longrightarrow> CreationTimestamp es = CreationTimestamp es' \<Longrightarrow>
   calculateScaleDirection E now cd es = calculateScaleDirection E now cd es'"
  by (simp add: fun_eq_iff calculateScaleDirection_def)

lemma example_check:
  assumes "C_es c1 = [(''shop'', ''web-es'') \<mapsto> example_woken]"
  shows "\<exists>g'. watcher_loop K0 (example_prom (Fin 0)) '''' [Tick (10 * time_Second)] (c1, []) = Ret (c1, g')"
proof -
  let ?E = "example_prom (Fin 0)" and ?cd = "resolveCooldownPeriod example_es" and ?now = "10 * time_Second"
  have cd: "resolveCooldownPeriod example_woken = ?cd" "?cd = 5 * time_Second"
    by (simp_all add: resolveCooldownPeriod_def example_woken_def example_es_def time_Second_def wrap64_def)
  obtain g' where g': "calculateScaleDirection ?E ?now ?cd example_es [] = Ret (Inr ScaleDown, g')"
    using example_calculate by blast
  have "calculateScaleDirection ?E ?now ?cd example_woken [] = Ret (Inr ScaleDown, g')"
    using g' calculate_cong [of example_woken example_es] by (simp add: example_woken_def)
  moreover have "handleScaleToZero K0 ?now c1 (5 * time_Second) example_woken = Ret (None, c1)"
    by (simp add: handleScaleToZero_def example_woken_def time_Second_def)
  ultimately have "check_item K0 ?E ?now (Inr example_woken) (c1, []) = Ret (c1, g')"
    by (simp add: check_item_def cd)
  moreover have "list_es_dynamic K0 c1 '''' = Inr [Inr example_woken]"
    using assms by (simp add: K0_def memory_client_def List.map_filter_simps)
  ultimately show ?thesis by (simp add: checkAndScale_def)
qed

theorem woken_stays_awake_witness:
  "\<exists>c1 g' r. scaleTargetForService K0 (9 * time_Second) woken_directory (example_cluster 0) ''web'' ''shop'' =
       Ret (None, c1) \<and>
     watcher_loop K0 (example_prom (Fin 0)) '''' [Tick (10 * time_Second)] (c1, []) = Ret (c1, g') \<and>
     target_replicas ''deployments'' c1 ''shop'' ''web'' = Some r \<and> 1 \<le> r"
proof -
  obtain c1 where c1: "scaleTargetForService K0 (9 * time_Second) woken_directory (example_cluster 0) ''web'' ''shop'' =
      Ret (None, c1)" "C_es c1 = [(''shop'', ''web-es'') \<mapsto> example_woken]" using example_post by blast
  obtain g' where g': "watcher_loop K0 (example_prom (Fin 0)) '''' [Tick (10 * time_Second)] (c1, []) = Ret (c1, g')"
    using example_check [OF c1(2)] by blast
  have cd: "resolveCooldownPeriod example_es = 5 * time_Second"
    by (simp add: resolveCooldownPeriod_def example_es_def time_Second_def wrap64_def)
  have sel: "ES_Namespace example_es = ''shop''" "ES_Name example_es = ''web-es''"
    "MinTargetReplicas (Spec example_es) = 1" "Kind (TargetRef (Spec example_es)) = ''deployments''"
    "TargetRefName (TargetRef (Spec example_es)) = ''web''"
    by (simp_all add: example_es_def)
  have "\<exists>r. target_of example_es (id c1) = Some r \<and> MinTargetReplicas (Spec example_es) \<le> r"
  proof (rule woken_stays_awake [OF K0_laws, where evs = "[Tick (10 * time_Second)]" and c = "example_cluster 0"
        and t = "9 * time_Second" and ns = "''''" and E = "example_prom (Fin 0)" and g = "[]" and crd = woken_details])
    show "lists_current K0 id" by (simp add: K0_def memory_lists_current)
    show "wf_cluster (id (example_cluster 0))"
      by (auto simp: wf_cluster_def example_cluster_def empty_cluster_def example_es_def split: if_splits)
    show "GetCRD (nn_String (ES_Namespace example_es) ''web'') woken_directory = Ret (Some woken_details)"
      by (simp add: GetCRD_def woken_directory_def nn_String_def sel)
    show "scaleTargetForService K0 (9 * time_Second) woken_directory (example_cluster 0) ''web''
        (ES_Namespace example_es) = Ret (None, c1)" using c1(1) by (simp add: sel)
    show "watcher_loop K0 (example_prom (Fin 0)) '''' [Tick (10 * time_Second)] (c1, []) = Ret (c1, g')" by (rule g')
    show "own_item example_es e \<or> other_target example_es e" if "C_es (id (example_cluster 0)) k = Some e" for k e
      using that by (auto simp: own_item_def example_cluster_def split: if_splits)
  qed (auto simp: sel woken_details_def example_cluster_def UpdateLastScaledUpTime_def K0_def memory_client_def
      tick_within_def cd time_Second_def)
  with c1(1) g' show ?thesis by (auto simp: target_of_def sel)
qed

text \<open>
  The cooldown is judged by the copy of the resource in the listing: a check that made its listing before
  the post scales the target down again right after it was scaled up.
\<close>

lemma stale_listing_scales_down:
  "\<exists>c1 c2 g'. scaleTargetForService K0 (9 * time_Second) woken_directory (example_cluster 0) ''web'' ''shop'' =
       Ret (None, c1) \<and>
     check_item K0 (example_prom (Fin 0)) (10 * time_Second) (Inr example_es) (c1, []) = Ret (c2, g') \<and>
     target_replicas ''deployments'' c2 ''shop'' ''web'' = Some 0"
proof -
  let ?E = "example_prom (Fin 0)" and ?cd = "resolveCooldownPeriod example_es" and ?now = "10 * time_Second"
  obtain g' where g': "calculateScaleDirection ?E ?now ?cd example_es [] = Ret (Inr ScaleDown, g')"
    using example_calculate by blast
  obtain c1 c2 where c1: "scaleTargetForService K0 (9 * time_Second) woken_directory (example_cluster 0) ''web'' ''shop'' =
      Ret (None, c1)" "handleScaleToZero K0 ?now c1 ?cd example_es = Ret (None, c2)"
    by (simp add: post_defs ScaleTargetToZero_def handleScaleToZero_def example_es_def)
  have "target_of example_es (id c2) = Some 0"
    unfolding target_of_def by (rule down_replicas [OF K0_laws c1(2)]) (simp add: example_es_def)
  moreover have "check_item K0 ?E ?now (Inr example_es) (c1, []) = Ret (c2, g')"
    using g' c1(2) by (simp add: check_item_def)
  ultimately show ?thesis using c1(1) by (auto simp: target_of_def example_es_def)
qed

end
