(* ===== verification/OperatorFrame.thy ===== *)
theory OperatorFrame
  imports ControllerCorrect ScaleWatcher
begin

text \<open>
  What the operator leaves alone, whatever it does and whichever of its calls fail. \<open>kept m m'\<close> says that
  from the objects \<open>m\<close> to the objects \<open>m'\<close> only what the operator owns has changed: services and slices
  under names it generates, the status and the finalizers of custom resources, the replicas of
  targets, the annotations of KEDA objects and the events. The locale \<open>api_server\<close> fixes a client
  that obeys the laws of the API server; the lemmas in it follow the calls of the operator.
\<close>

section \<open>The relation\<close>

definition private_name :: "string \<Rightarrow> bool" where
  "private_name n = (n \<in> range GetPrivateServiceName)"

definition resolver_slice_name :: "string \<Rightarrow> bool" where
  "resolver_slice_name n = (n \<in> range GetEndpointSliceToResolverName)"

definition es_core ::
  "ElastiService \<Rightarrow> string \<times> string \<times> int \<times> int option \<times> ElastiServiceSpec" where
  "es_core e = (ES_Namespace e, ES_Name e, CreationTimestamp e, DeletionTimestamp e, Spec e)"

definition dep_core :: "Deployment \<Rightarrow> Deployment" where
  "dep_core d = d\<lparr>SpecReplicas := None\<rparr>"

definition ro_core :: "Rollout \<Rightarrow> Rollout" where
  "ro_core r = r\<lparr>RolloutSpec := NoSpec\<rparr>"

text \<open>A custom resource disappears only if its deletion was asked for.\<close>

definition es_kept :: "ElastiService option \<Rightarrow> ElastiService option \<Rightarrow> bool" where
  "es_kept old new =
     (map_option es_core new = map_option es_core old \<or>
      (new = None \<and> (\<exists>e. old = Some e \<and> DeletionTimestamp e \<noteq> None)))"

definition user_kept :: "Cluster \<Rightarrow> Cluster \<Rightarrow> bool" where
  "user_kept m m' =
     ((\<forall>k. \<not> private_name (snd k) \<longrightarrow> C_svcs m' k = C_svcs m k) \<and>
      (\<forall>k. \<not> resolver_slice_name (snd k) \<longrightarrow> C_slices m' k = C_slices m k) \<and>
      (\<forall>k. es_kept (C_es m k) (C_es m' k)) \<and>
      (\<forall>k. map_option dep_core (C_deps m' k) = map_option dep_core (C_deps m k)) \<and>
      (\<forall>k. map_option ro_core (C_ros m' k) = map_option ro_core (C_ros m k)) \<and>
      dom (C_sos m') = dom (C_sos m))"

definition kept :: "Cluster \<Rightarrow> Cluster \<Rightarrow> bool" where
  "kept m m' = (user_kept m m' \<and> wf_cluster m')"

lemma es_kept_refl [simp]: "es_kept x x"
  by (simp add: es_kept_def)

lemma es_core_sel: "es_core e = es_core e' \<Longrightarrow> DeletionTimestamp e = DeletionTimestamp e'"
  by (simp add: es_core_def)

lemma es_kept_trans:
  assumes "es_kept a b" "es_kept b c"
  shows "es_kept a c"
proof (cases "map_option es_core b = map_option es_core a")
  case True
  then have "(\<exists>e. b = Some e \<and> DeletionTimestamp e \<noteq> None) \<Longrightarrow> \<exists>e. a = Some e \<and> DeletionTimestamp e \<noteq> None"
    by (cases a; cases b) (auto dest: es_core_sel)
  with True assms(2) show ?thesis unfolding es_kept_def by metis
next
  case False
  with assms(1) have "b = None" "\<exists>e. a = Some e \<and> DeletionTimestamp e \<noteq> None" unfolding es_kept_def by blast+
  with assms(2) show ?thesis by (auto simp: es_kept_def)
qed

lemma kept_refl: "wf_cluster m \<Longrightarrow> kept m m"
  by (simp add: kept_def user_kept_def)

lemma kept_trans:
  assumes "kept a b" "kept b c"
  shows "kept a c"
proof -
  have "es_kept (C_es a k) (C_es c k)" for k
    by (rule es_kept_trans [of _ "C_es b k"]) (use assms in \<open>unfold kept_def user_kept_def, blast+\<close>)
  with assms show ?thesis unfolding kept_def user_kept_def by (simp del: split_paired_All)
qed

lemma keptD: "kept m m' \<Longrightarrow> wf_cluster m'"
  by (simp add: kept_def)

section \<open>The writes\<close>

lemma kept_svc:
  assumes "wf_cluster m"
  shows "private_name (SvcName s) \<Longrightarrow> kept m (put_svc s m)" "private_name n \<Longrightarrow> kept m (del_svc ns n m)"
  using wf_put [OF assms] by (auto simp: kept_def user_kept_def put_svc_def del_svc_def)

lemma kept_slice:
  assumes "wf_cluster m"
  shows "resolver_slice_name (SliceName s) \<Longrightarrow> kept m (put_slice s m)"
    "resolver_slice_name n \<Longrightarrow> kept m (del_slice ns n m)"
  using wf_put [OF assms] by (auto simp: kept_def user_kept_def put_slice_def del_slice_def)

lemma es_core_upd [simp]:
  "es_core (e\<lparr>Status := s\<rparr>) = es_core e" "es_core (e\<lparr>Finalizers := fs\<rparr>) = es_core e"
  by (simp_all add: es_core_def)

lemma kept_status: "wf_cluster m \<Longrightarrow> kept m (patch_es_status ns n f m)"
  using wf_patch(2) [of m ns n f]
  by (simp add: kept_def user_kept_def patch_es_status_def es_kept_def option.map_comp comp_def)

lemma kept_put_es:
  assumes "wf_cluster m" "C_es m (ES_Namespace e, ES_Name e) = Some old" "es_core old = es_core e"
  shows "kept m (put_es e m)"
proof -
  from assms(2,3) es_core_sel [OF assms(3)] have "user_kept m (put_es e m)"
    by (auto simp: user_kept_def put_es_def es_kept_def)
  with wf_patch(1) [OF assms(1)] show ?thesis by (simp add: kept_def)
qed

lemma kept_replicas:
  assumes "wf_cluster m"
  shows "kept m (patch_dep ns n r m)" "kept m (patch_ro ns n r m)"
proof -
  have "dep_core (d\<lparr>SpecReplicas := x\<rparr>) = dep_core d" "ro_core (o'\<lparr>RolloutSpec := y\<rparr>) = ro_core o'" for d x o' y
    by (simp_all add: dep_core_def ro_core_def)
  with wf_patch [OF assms] show "kept m (patch_dep ns n r m)" "kept m (patch_ro ns n r m)"
    by (simp_all add: kept_def user_kept_def patch_dep_def patch_ro_def option.map_comp comp_def)
qed

lemma kept_other:
  assumes "wf_cluster m"
  shows "kept m (patch_so ns n as m)" "kept m (add_event ev m)"
  using wf_patch [OF assms] by (auto simp: kept_def user_kept_def patch_so_def add_event_def)

lemma applies_kept:
  assumes "applies view r c f" "wf_cluster (view c)" "kept (view c) (f (view c))"
  shows "kept (view c) (view (snd r))"
  using assms kept_refl by (cases r; cases "fst r") (auto simp: applies_def)

section \<open>The calls of the reconciler\<close>

lemma handlePublicServiceChanges_shape:
  assumes "handlePublicServiceChanges K' c obj serviceName = Ret (e, c')"
  shows "c' = c \<or> (\<exists>(pub :: Service) s ports. get_svc K' c (SvcNamespace pub) (GetPrivateServiceName (SvcName pub)) = Inr s \<and>
    c' = snd (update_svc K' c (s\<lparr>Selector := Selector pub, Ports := ports\<rparr>)))"
proof (cases obj)
  case (Inl err)
  then show ?thesis using assms by (simp add: handlePublicServiceChanges_def)
next
  case pub: (Inr pub)
  show ?thesis
  proof (cases "get_svc K' c (SvcNamespace pub) (GetPrivateServiceName (SvcName pub))")
    case (Inl err)
    then show ?thesis using assms pub by (auto simp: handlePublicServiceChanges_def split: if_splits)
  next
    case s: (Inr s)
    show ?thesis
    proof (cases "sync_ports (Ports s) (Ports pub)")
      case (Panic m)
      then show ?thesis using assms pub s by (auto simp: handlePublicServiceChanges_def split: if_splits)
    next
      case (Ret ports)
      let ?s = "s\<lparr>Selector := Selector pub, Ports := ports\<rparr>"
      obtain e2 c2 where w: "update_svc K' c ?s = (e2, c2)" by fastforce
      then have "c' = c \<or> c' = snd (update_svc K' c ?s)"
        using assms pub s Ret by (cases e2) (auto simp: handlePublicServiceChanges_def split: if_splits)
      with s show ?thesis by blast
    qed
  qed
qed

locale api_server =
  fixes K :: "'c K8s" and view :: "'c \<Rightarrow> Cluster"
  assumes laws: "k8s_laws K view"
begin

lemma kept_updateCRDStatus:
  assumes "wf_cluster (view c)"
  shows "kept (view c) (view (snd (updateCRDStatus K now c ns n mode)))"
proof -
  let ?p = "patch_status K c ns n (\<lambda>st. st\<lparr>LastReconciledTime := now, Mode := mode\<rparr>)"
  have "kept (view c) (view (snd ?p))"
    by (rule applies_kept [OF k8s_lawsD(11) [OF laws] assms kept_status [OF assms]])
  then show ?thesis
    using kept_refl [OF assms]
    by (cases ?p; cases "fst ?p") (auto simp: updateCRDStatus_def split: sum.splits)
qed

lemma kept_deleteEndpointslice:
  assumes "wf_cluster (view c)"
  shows "kept (view c) (view (snd (deleteEndpointsliceToResolver K c ns svc))) \<and>
    C_es (view (snd (deleteEndpointsliceToResolver K c ns svc))) = C_es (view c)"
proof (cases "get_slice K c ns (GetEndpointSliceToResolverName svc)")
  case (Inl err)
  then show ?thesis using kept_refl [OF assms] by (simp add: deleteEndpointsliceToResolver_def)
next
  case (Inr s)
  then have "SliceName s = GetEndpointSliceToResolverName svc"
    using wf_clusterD(2) [OF assms] get_slice_view [OF laws] by blast
  then have "resolver_slice_name (SliceName s)" by (simp add: resolver_slice_name_def)
  then have "kept (view c) (view (snd (delete_slice K c s)))"
    by (rule applies_kept [OF k8s_lawsD(8) [OF laws] assms kept_slice(2) [OF assms]])
  moreover have "C_es (view (snd (delete_slice K c s))) = C_es (view c)"
    using k8s_lawsD(8) [OF laws, of c s] by (auto simp: applies_def del_slice_def split: prod.splits option.splits)
  moreover have "snd (deleteEndpointsliceToResolver K c ns svc) = snd (delete_slice K c s)"
    using Inr by (auto simp: deleteEndpointsliceToResolver_def split: prod.splits option.splits)
  ultimately show ?thesis by simp
qed

lemma kept_deletePrivateService:
  assumes "wf_cluster (view c)"
  shows "kept (view c) (view (snd (deletePrivateService K c ns svc))) \<and>
    C_es (view (snd (deletePrivateService K c ns svc))) = C_es (view c)"
proof (cases "get_svc K c ns (GetPrivateServiceName svc)")
  case (Inl err)
  then show ?thesis using kept_refl [OF assms] by (simp add: deletePrivateService_def)
next
  case (Inr s)
  then have "SvcName s = GetPrivateServiceName svc"
    using wf_clusterD(1) [OF assms] get_svc_view [OF laws] by blast
  then have "private_name (SvcName s)" by (simp add: private_name_def)
  then have "kept (view c) (view (snd (delete_svc K c s)))"
    by (rule applies_kept [OF k8s_lawsD(4) [OF laws] assms kept_svc(2) [OF assms]])
  moreover have "C_es (view (snd (delete_svc K c s))) = C_es (view c)"
    using k8s_lawsD(4) [OF laws, of c s] by (auto simp: applies_def del_svc_def split: prod.splits option.splits)
  moreover have "snd (deletePrivateService K c ns svc) = snd (delete_svc K c s)"
    using Inr by (auto simp: deletePrivateService_def split: prod.splits option.splits)
  ultimately show ?thesis by simp
qed

lemma kept_checkAndCreate:
  assumes "wf_cluster (view c)"
  shows "kept (view c) (view (snd (checkAndCreatePrivateService K c pub es)))"
proof -
  have "snd (checkAndCreatePrivateService K c pub es) = c \<or>
      (\<exists>s. set_controller K es (privateCopy pub) = Inr s \<and>
        snd (checkAndCreatePrivateService K c pub es) = snd (create_svc K c s))"
    by (auto simp: checkAndCreatePrivateService_def Let_def split: sum.splits prod.splits option.splits)
  then show ?thesis
  proof
    assume "\<exists>s. set_controller K es (privateCopy pub) = Inr s \<and>
        snd (checkAndCreatePrivateService K c pub es) = snd (create_svc K c s)"
    then obtain s where s: "set_controller K es (privateCopy pub) = Inr s"
      "snd (checkAndCreatePrivateService K c pub es) = snd (create_svc K c s)" by blast
    have "private_name (SvcName s)"
      using k8s_lawsD(18) [OF laws s(1)] by (simp add: privateCopy_def private_name_def)
    then show ?thesis
      unfolding s(2) by (rule applies_kept [OF k8s_lawsD(2) [OF laws] assms kept_svc(1) [OF assms]])
  qed (simp add: kept_refl [OF assms])
qed

lemma kept_createOrUpdate:
  assumes "wf_cluster (view c)" "createOrUpdateEndpointsliceToResolver K c service = Ret (e, c')"
  shows "kept (view c) (view c')"
proof (cases "getIPsForResolver K c")
  case (Inl err)
  then show ?thesis using assms(2) kept_refl [OF assms(1)] by (simp add: createOrUpdateEndpointsliceToResolver_def)
next
  case (Inr ips)
  let ?found = "case get_slice K c (SvcNamespace service) (GetEndpointSliceToResolverName (SvcName service)) of
      Inl err \<Rightarrow> if IsNotFound err then Inr False else Inl err | Inr s \<Rightarrow> Inr True"
  show ?thesis
  proof (cases ?found)
    case (Inl err)
    then show ?thesis using assms(2) Inr kept_refl [OF assms(1)]
      by (simp add: createOrUpdateEndpointsliceToResolver_def Let_def)
  next
    case found: (Inr found)
    obtain port ports where ports: "Ports service = port # ports"
      using assms(2) Inr found by (cases "Ports service") (simp_all add: createOrUpdateEndpointsliceToResolver_def Let_def)
    let ?s = "sliceToResolver service (PortName port) ips"
    obtain e2 c2 where w: "(if found then update_slice K c ?s else create_slice K c ?s) = (e2, c2)" by fastforce
    then have c2: "c' = c2" using assms(2) Inr found ports
      by (cases e2) (simp_all add: createOrUpdateEndpointsliceToResolver_def Let_def)
    have "resolver_slice_name (SliceName ?s)" by (simp add: sliceToResolver_def resolver_slice_name_def)
    note k = kept_slice(1) [OF assms(1) this]
    from applies_kept [OF k8s_lawsD(7) [OF laws] assms(1) k] applies_kept [OF k8s_lawsD(6) [OF laws] assms(1) k]
    show ?thesis using w unfolding c2 by (cases found) auto
  qed
qed

lemma kept_handlePublicServiceChanges:
  assumes "wf_cluster (view c)" "handlePublicServiceChanges K c obj serviceName = Ret (e, c')"
  shows "kept (view c) (view c')"
  using handlePublicServiceChanges_shape [OF assms(2)]
proof
  assume "\<exists>(pub :: Service) s ports. get_svc K c (SvcNamespace pub) (GetPrivateServiceName (SvcName pub)) = Inr s \<and>
    c' = snd (update_svc K c (s\<lparr>Selector := Selector pub, Ports := ports\<rparr>))"
  then obtain pub :: Service and s ports where s: "get_svc K c (SvcNamespace pub) (GetPrivateServiceName (SvcName pub)) = Inr s"
    "c' = snd (update_svc K c (s\<lparr>Selector := Selector pub, Ports := ports\<rparr>))" by blast
  have "SvcName s = GetPrivateServiceName (SvcName pub)"
    using wf_clusterD(1) [OF assms(1) get_svc_view [OF laws s(1)]] by simp
  then have "private_name (SvcName (s\<lparr>Selector := Selector pub, Ports := ports\<rparr>))" by (simp add: private_name_def)
  from applies_kept [OF k8s_lawsD(3) [OF laws] assms(1) kept_svc(1) [OF assms(1) this]]
  show ?thesis unfolding s(2) .
qed (simp add: kept_refl [OF assms(1)])

lemma kept_update_es:
  assumes "wf_cluster (view c)" "C_es (view c) (ns, n) = Some es"
  shows "kept (view c) (view (snd (update_es K c (es\<lparr>Finalizers := fs\<rparr>))))"
proof -
  have "C_es (view c) (ES_Namespace (es\<lparr>Finalizers := fs\<rparr>), ES_Name (es\<lparr>Finalizers := fs\<rparr>)) = Some es"
    using wf_clusterD(3) [OF assms] assms(2) by simp
  from kept_put_es [OF assms(1) this] show ?thesis
    by (intro applies_kept [OF k8s_lawsD(10) [OF laws] assms(1)]) simp
qed

end

section \<open>The reconciler's own state\<close>

text \<open>
  The informer manager is consistent and its health check runs; the directory exists and keeps every
  entry under the name of its service.
\<close>

definition dir_ok :: "Directory \<Rightarrow> bool" where
  "dir_ok d =
     (case d of
        None \<Rightarrow> False
      | Some al \<Rightarrow> distinct (map fst al) \<and>
          (\<forall>(k, x) \<in> set al. \<exists>ns. k = nn_String ns (SpecService (CRDSpec x))))"

definition r_inv :: "'c Reconciler \<Rightarrow> bool" where
  "r_inv r = (im_inv (InformerManager r) \<and> \<not> healthCheckStopped (InformerManager r) \<and> dir_ok (dir r))"

lemma r_inv_upd [simp]:
  "r_inv (r\<lparr>cluster := c\<rparr>) = r_inv r" "r_inv (r\<lparr>InformerStartLocks := l\<rparr>) = r_inv r"
  "r_inv (resetMutexForInformer r k) = r_inv r"
  by (simp_all add: r_inv_def resetMutexForInformer_def)

lemma dir_ok_Add: "dir_ok d \<Longrightarrow> AddCRD (nn_String ns (SpecService (CRDSpec x))) x d = Ret d' \<Longrightarrow> dir_ok d'"
  by (auto simp: dir_ok_def AddCRD_def store_entry_def distinct_map_filter split: option.splits)

lemma dir_ok_Remove: "dir_ok d \<Longrightarrow> RemoveCRD k d = Ret d' \<Longrightarrow> dir_ok d'"
  by (auto simp: dir_ok_def RemoveCRD_def delete_entry_def distinct_map_filter split: option.splits)

lemma r_inv_im_Add: "r_inv r \<Longrightarrow> im_Add E r w = (e, r') \<Longrightarrow> r_inv r'"
  using im_inv_Add health_Add by (fastforce simp: r_inv_def im_Add_def split: prod.splits)

lemma r_inv_once:
  assumes "r_inv r" "once_Do r key f = (e, r')" "\<And>e1 r1. f r = (e1, r1) \<Longrightarrow> r_inv r1"
  shows "r_inv r'"
  using assms by (auto simp: once_Do_def split: if_splits prod.splits)

lemma r_inv_start_target: "r_inv r \<Longrightarrow> start_target_informer E es req r = (e, r') \<Longrightarrow> r_inv r'"
  using r_inv_im_Add
  by (fastforce simp: start_target_informer_def split: sum.splits prod.splits option.splits)

lemma r_inv_watchPublicService:
  assumes "r_inv r" "watchPublicService E es req r = (e, r')"
  shows "r_inv r'"
proof (cases "SpecService (Spec es) = ''''")
  case True
  with assms show ?thesis by (simp add: watchPublicService_def)
next
  case False
  let ?f = "\<lambda>r. case im_Add E r (service_watch es req) of
      (Some err, r') \<Rightarrow> (Some (Wrap ''failed to add public service Informer'' err), r')
    | (None, r') \<Rightarrow> (None, r')"
  have "once_Do r (getMutexKeyForPublicSVC req) ?f = (e, r')"
    using assms(2) False by (simp add: watchPublicService_def)
  then show ?thesis
    by (rule r_inv_once [OF assms(1)])
      (use r_inv_im_Add [OF assms(1)] in \<open>auto split: prod.splits option.splits\<close>)
qed

lemma r_inv_stop_old: "r_inv r \<Longrightarrow> stop_old_target crd req r = Ret r' \<Longrightarrow> r_inv r'"
  using im_inv_stop health_StopInformer
  by (fastforce simp: stop_old_target_def r_inv_def resetMutexForInformer_def Let_def split: go.splits)

lemma r_inv_watchScaleTargetRef:
  assumes "r_inv r" "watchScaleTargetRef E es req r = Ret (e, r')"
  shows "r_inv r'"
proof -
  from assms(2) consider (same) "r' = r"
    | (run) r1 where "r1 = r \<or> (\<exists>crd. stop_old_target crd req r = Ret r1)"
      "once_Do r1 (getMutexKeyForTargetRef req) (start_target_informer E es req) = (e, r')"
    by (auto simp: watchScaleTargetRef_def split: if_splits go.splits option.splits)
  then show ?thesis
  proof cases
    case same
    with assms(1) show ?thesis by simp
  next
    case run
    have r1: "r_inv r1" using run(1) r_inv_stop_old assms(1) by blast
    show ?thesis by (rule r_inv_once [OF r1 run(2)]) (rule r_inv_start_target [OF r1])
  qed
qed

lemma r_inv_enableProxyMode:
  assumes "r_inv r" "enableProxyMode E req es r = Ret (e, r')"
  shows "r_inv r'"
proof (cases "get_svc (client E) (cluster r) (ES_Namespace es) (SpecService (Spec es))")
  case (Inl err)
  with assms show ?thesis by (simp add: enableProxyMode_def)
next
  case (Inr svc)
  obtain n e1 c1 where c1: "checkAndCreatePrivateService (client E) (cluster r) svc es = ((n, e1), c1)"
    by (metis prod.exhaust)
  obtain e2 r2 where r2: "watchPublicService E es req (r\<lparr>cluster := c1\<rparr>) = (e2, r2)" by fastforce
  have "r_inv r2" using r_inv_watchPublicService [OF _ r2] assms(1) by simp
  then show ?thesis
    using assms Inr c1 r2
    by (cases e1; cases e2) (auto simp: enableProxyMode_def split: go.splits option.splits)
qed

lemma switchMode_shape:
  assumes "switchMode E req mode r = Ret (e, r')"
  obtains (same) "r' = r"
  | (run) es r1 where
    "r' = r1\<lparr>cluster := snd (updateCRDStatus (client E) (clock E) (cluster r1) (ReqNamespace req) (ReqName req) mode)\<rparr>"
    "r1 = r \<or> r1 = r\<lparr>cluster := snd (enableServeMode (client E) es (cluster r))\<rparr> \<or>
     (\<exists>e1. enableProxyMode E req es r = Ret (e1, r1))"
proof (cases "getCRD (client E) (cluster r) (ReqNamespace req) (ReqName req)")
  case (Inl err)
  then show thesis using assms same by (simp add: switchMode_def)
next
  case (Inr es)
  let ?x = "if mode = ServeMode then
      (case enableServeMode (client E) es (cluster r) of (e, c1) \<Rightarrow> Ret (e, r\<lparr>cluster := c1\<rparr>))
    else if mode = ProxyMode then enableProxyMode E req es r else Ret (None, r)"
  obtain e1 r1 where x: "?x = Ret (e1, r1)"
    using assms Inr by (cases ?x) (auto simp: switchMode_def)
  then have "r' = r1\<lparr>cluster := snd (updateCRDStatus (client E) (clock E) (cluster r1) (ReqNamespace req) (ReqName req) mode)\<rparr>"
    using assms Inr by (simp add: switchMode_def)
  moreover have "r1 = r \<or> r1 = r\<lparr>cluster := snd (enableServeMode (client E) es (cluster r))\<rparr> \<or>
      (\<exists>e1. enableProxyMode E req es r = Ret (e1, r1))"
    using x by (cases "enableServeMode (client E) es (cluster r)") (auto split: if_splits)
  ultimately show thesis by (rule run)
qed

lemma r_inv_switchMode:
  assumes "r_inv r" "switchMode E req mode r = Ret (e, r')"
  shows "r_inv r'"
  using assms(2)
proof (cases rule: switchMode_shape)
  case same
  with assms(1) show ?thesis by simp
next
  case (run es r1)
  have "r_inv r1" using run(2) assms(1) r_inv_enableProxyMode [OF assms(1)] by auto
  then show ?thesis by (simp add: run(1))
qed

lemma r_inv_finalizeCRD:
  assumes "r_inv r" "finalizeCRD E es req r = Ret (e, r')"
  shows "r_inv r'"
proof -
  from assms(2) obtain m' d where m': "StopForCRD (InformerManager r) (ReqName req) = Ret m'"
    and d: "RemoveCRD (nn_String (ES_Namespace es) (SpecService (Spec es))) (dir r) = Ret d"
    and r': "InformerManager r' = m'" "dir r' = d"
    by (auto simp: finalizeCRD_def Let_def resetMutexForInformer_def split: go.splits prod.splits)
  have "im_inv m'" "\<not> healthCheckStopped m'"
    using m' assms(1) stop_matching_inv health_stop_matching unfolding StopForCRD_def r_inv_def by metis+
  moreover have "dir_ok d" using dir_ok_Remove [OF _ d] assms(1) by (simp add: r_inv_def)
  ultimately show ?thesis by (simp add: r_inv_def r')
qed

section \<open>The reconciler\<close>

text \<open>A call keeps the user's objects and the reconciler's own state.\<close>

definition r_kept :: "('c \<Rightarrow> Cluster) \<Rightarrow> 'c Reconciler \<Rightarrow> 'c Reconciler \<Rightarrow> bool" where
  "r_kept view r r' = (kept (view (cluster r)) (view (cluster r')) \<and> r_inv r')"

definition r_good :: "('c \<Rightarrow> Cluster) \<Rightarrow> 'c Reconciler \<Rightarrow> bool" where
  "r_good view r = (wf_cluster (view (cluster r)) \<and> r_inv r)"

lemma r_kept_refl: "r_good view r \<Longrightarrow> r_kept view r r"
  by (simp add: r_good_def r_kept_def kept_refl)

lemma r_kept_trans: "r_kept view a b \<Longrightarrow> r_kept view b c \<Longrightarrow> r_kept view a c"
  unfolding r_kept_def using kept_trans by blast

lemma r_kept_good: "r_kept view r r' \<Longrightarrow> r_good view r'"
  by (simp add: r_kept_def r_good_def kept_def)

context api_server
begin

lemma kept_enableServeMode:
  "wf_cluster (view c) \<Longrightarrow> kept (view c) (view (snd (enableServeMode K es c)))"
  using kept_deleteEndpointslice [of c "ES_Namespace es" "SpecService (Spec es)"]
  by (auto simp: enableServeMode_def split: prod.splits option.splits)

lemma kept_enableProxyMode:
  assumes "client E = K" "wf_cluster (view (cluster r))" "enableProxyMode E req es r = Ret (e, r')"
  shows "kept (view (cluster r)) (view (cluster r'))"
proof (cases "get_svc K (cluster r) (ES_Namespace es) (SpecService (Spec es))")
  case (Inl err)
  with assms kept_refl show ?thesis by (simp add: enableProxyMode_def)
next
  case (Inr svc)
  obtain n e1 c1 where c1: "checkAndCreatePrivateService K (cluster r) svc es = ((n, e1), c1)"
    by (metis prod.exhaust)
  have k1: "kept (view (cluster r)) (view c1)"
    using kept_checkAndCreate [OF assms(2), of svc es] c1 by simp
  obtain e2 r2 where r2: "watchPublicService E es req (r\<lparr>cluster := c1\<rparr>) = (e2, r2)" by fastforce
  have c2: "cluster r2 = c1" using cluster_watchPublicService [OF r2] by simp
  consider "cluster r' = c1"
    | e3 c3 where "createOrUpdateEndpointsliceToResolver K c1 svc = Ret (e3, c3)" "cluster r' = c3"
    using assms(1,3) Inr c1 r2 c2
    by (cases e1; cases e2) (auto simp: enableProxyMode_def split: go.splits option.splits)
  then show ?thesis
  proof cases
    case 1
    with k1 show ?thesis by simp
  next
    case 2
    with kept_createOrUpdate [OF keptD [OF k1] 2(1)] kept_trans [OF k1] show ?thesis by simp
  qed
qed

lemma switchMode_kept:
  assumes "client E = K" "r_good view r" "switchMode E req mode r = Ret (e, r')"
  shows "r_kept view r r'"
proof -
  have wf: "wf_cluster (view (cluster r))" using assms(2) by (simp add: r_good_def)
  from assms(3) have "kept (view (cluster r)) (view (cluster r'))"
  proof (cases rule: switchMode_shape)
    case same
    with wf show ?thesis by (simp add: kept_refl)
  next
    case (run es r1)
    have k: "kept (view (cluster r)) (view (cluster r1))"
      using run(2) kept_refl [OF wf] kept_enableServeMode [OF wf] kept_enableProxyMode [OF assms(1) wf] assms(1) by auto
    have "kept (view (cluster r1)) (view (cluster r'))"
      using run(1) assms(1) kept_updateCRDStatus [OF keptD [OF k], of "clock E" "ReqNamespace req" "ReqName req" mode]
      by simp
    with k show ?thesis by (rule kept_trans)
  qed
  with r_inv_switchMode [OF _ assms(3)] assms(2) show ?thesis by (simp add: r_kept_def r_good_def)
qed

lemma finalizeCRD_kept:
  assumes "client E = K" "r_good view r" "finalizeCRD E es req r = Ret (e, r')"
  shows "r_kept view r r' \<and> C_es (view (cluster r')) = C_es (view (cluster r))"
proof -
  have wf: "wf_cluster (view (cluster r))" using assms(2) by (simp add: r_good_def)
  let ?ns = "ES_Namespace es" and ?svc = "SpecService (Spec es)"
  define c1 where "c1 = snd (deleteEndpointsliceToResolver K (cluster r) ?ns ?svc)"
  have k1: "kept (view (cluster r)) (view c1) \<and> C_es (view c1) = C_es (view (cluster r))"
    unfolding c1_def by (rule kept_deleteEndpointslice [OF wf])
  define c2 where "c2 = snd (deletePrivateService K c1 ?ns ?svc)"
  have k2: "kept (view c1) (view c2) \<and> C_es (view c2) = C_es (view c1)"
    unfolding c2_def by (rule kept_deletePrivateService) (use k1 keptD in blast)
  have "cluster r' = c2"
    using assms(1,3) by (auto simp: finalizeCRD_def Let_def resetMutexForInformer_def c1_def c2_def
        split: go.splits prod.splits)
  then show ?thesis
    using k1 k2 kept_trans r_inv_finalizeCRD [OF _ assms(3)] assms(2) by (auto simp: r_kept_def r_good_def)
qed

lemma finalizeCRDIfDeleted_kept:
  assumes "client E = K" "r_good view r" "C_es (view (cluster r)) (ns, n) = Some es"
    and "finalizeCRDIfDeleted E es req r = Ret ((b, e), r')"
  shows "r_kept view r r' \<and> (\<not> b \<longrightarrow> r' = r)"
proof -
  from assms(1,4) consider (same) "r' = r"
    | (failed) e1 where "finalizeCRD E es req r = Ret (e1, r')" b
    | (removed) r1 where "finalizeCRD E es req r = Ret (None, r1)" b
      "r' = r1\<lparr>cluster := snd (update_es K (cluster r1)
         (es\<lparr>Finalizers := filter (\<lambda>f. f \<noteq> ElastiServiceFinalizer) (Finalizers es)\<rparr>))\<rparr>"
    by (fastforce simp: finalizeCRDIfDeleted_def split: if_splits go.splits prod.splits option.splits)
  then show ?thesis
  proof cases
    case same
    with assms(2) show ?thesis by (simp add: r_kept_refl)
  next
    case failed
    with finalizeCRD_kept [OF assms(1,2)] show ?thesis by blast
  next
    case removed
    have k: "r_kept view r r1" "C_es (view (cluster r1)) (ns, n) = Some es"
      using finalizeCRD_kept [OF assms(1,2) removed(1)] assms(3) by auto
    have "r_kept view r1 r'"
      using kept_update_es [OF _ k(2)] r_kept_good [OF k(1)] removed(3) by (simp add: r_kept_def r_good_def)
    with k(1) removed(2) show ?thesis using r_kept_trans by blast
  qed
qed

end

lemma cluster_start_target: "start_target_informer E es req r = (e, r') \<Longrightarrow> cluster r' = cluster r"
  using cluster_im_Add by (fastforce simp: start_target_informer_def split: sum.splits prod.splits option.splits)

lemma cluster_stop_old: "stop_old_target crd req r = Ret r' \<Longrightarrow> cluster r' = cluster r"
  by (auto simp: stop_old_target_def resetMutexForInformer_def Let_def split: go.splits)

lemma cluster_watchScaleTargetRef:
  assumes "watchScaleTargetRef E es req r = Ret (e, r')"
  shows "cluster r' = cluster r"
proof -
  from assms consider "r' = r"
    | r1 where "r1 = r \<or> (\<exists>crd. stop_old_target crd req r = Ret r1)"
      "once_Do r1 (getMutexKeyForTargetRef req) (start_target_informer E es req) = (e, r')"
    by (auto simp: watchScaleTargetRef_def split: if_splits go.splits option.splits)
  then show ?thesis
  proof cases
    case 2
    have "cluster r' = cluster r1" by (rule cluster_once [OF cluster_start_target 2(2)])
    with 2(1) cluster_stop_old show ?thesis by auto
  qed simp
qed

context api_server
begin

lemma Reconcile_kept:
  assumes "client E = K" "r_good view r" "Reconcile E req r = Ret (e, r')"
  shows "r_kept view r r'"
proof (cases "getCRD K (cluster r) (ReqNamespace req) (ReqName req)")
  case (Inl err)
  then show ?thesis using assms r_kept_refl by (auto simp: Reconcile_def split: if_splits)
next
  case (Inr es)
  note stored = get_es_view [OF laws Inr]
  obtain b e1 r1 where r1: "finalizeCRDIfDeleted E es req r = Ret ((b, e1), r1)"
    using assms(1,3) Inr by (cases "finalizeCRDIfDeleted E es req r") (auto simp: Reconcile_def)
  note k1 = finalizeCRDIfDeleted_kept [OF assms(1,2) stored r1]
  show ?thesis
  proof (cases "b \<or> e1 \<noteq> None")
    case True
    then have "r' = r1" using assms(1,3) Inr r1 by (cases e1) (auto simp: Reconcile_def)
    with k1 show ?thesis by simp
  next
    case False
    then have nb: "\<not> b" "e1 = None" "r1 = r" using k1 by auto
    obtain e2 c2 where c2: "addCRDFinalizer K (cluster r) es = (e2, c2)" by fastforce
    have k2: "r_kept view r (r\<lparr>cluster := c2\<rparr>)"
    proof -
      have "kept (view (cluster r)) (view c2)"
        using c2 kept_update_es [OF _ stored, of "Finalizers es @ [ElastiServiceFinalizer]"] kept_refl assms(2)
        by (auto simp: addCRDFinalizer_def r_good_def split: if_splits prod.splits option.splits)
      with assms(2) show ?thesis by (simp add: r_kept_def r_good_def)
    qed
    show ?thesis
    proof (cases e2)
      case (Some err)
      then have "r' = r\<lparr>cluster := c2\<rparr>" using assms(1,3) Inr r1 nb c2 by (simp add: Reconcile_def)
      with k2 show ?thesis by simp
    next
      case None
      obtain e3 r3 where r3: "watchScaleTargetRef E es req (r\<lparr>cluster := c2\<rparr>) = Ret (e3, r3)"
        using assms(1,3) Inr r1 nb c2 None
        by (cases "watchScaleTargetRef E es req (r\<lparr>cluster := c2\<rparr>)") (auto simp: Reconcile_def)
      have k3: "r_inv r3" "cluster r3 = c2"
        using r_inv_watchScaleTargetRef [OF _ r3] cluster_watchScaleTargetRef [OF r3] k2 by (simp_all add: r_kept_def)
      have "r' = r3 \<or> (\<exists>d. AddCRD (nn_String (ES_Namespace es) (SpecService (Spec es)))
          \<lparr>CRDName = ES_Name es, CRDSpec = Spec es, CRDStatus = Status es\<rparr> (dir r3) = Ret d \<and> r' = r3\<lparr>dir := d\<rparr>)"
        using assms(1,3) Inr r1 nb c2 None r3
        by (cases e3) (auto simp: Reconcile_def split: go.splits)
      then have "r_inv r' \<and> cluster r' = c2"
        using k3 dir_ok_Add [of "dir r3" "ES_Namespace es"
            "\<lparr>CRDName = ES_Name es, CRDSpec = Spec es, CRDStatus = Status es\<rparr>"]
        by (auto simp: r_inv_def)
      with k2 show ?thesis by (simp add: r_kept_def)
    qed
  qed
qed

lemma reconcile_all_kept:
  "client E = K \<Longrightarrow> r_good view r \<Longrightarrow> reconcile_all E ess r = Ret r' \<Longrightarrow> r_kept view r r'"
proof (induction ess arbitrary: r)
  case Nil
  then show ?case by (simp add: r_kept_refl)
next
  case (Cons es ess)
  show ?case
  proof (cases "DeletionTimestamp es")
    case (Some t)
    then show ?thesis using Cons by simp
  next
    case None
    then obtain e1 r1 where r1: "Reconcile E \<lparr>ReqNamespace = ES_Namespace es, ReqName = ES_Name es\<rparr> r = Ret (e1, r1)"
      "reconcile_all E ess r1 = Ret r'"
      using Cons.prems(3) by (auto split: go.splits)
    have k: "r_kept view r r1" by (rule Reconcile_kept [OF Cons.prems(1,2) r1(1)])
    from Cons.IH [OF Cons.prems(1) r_kept_good [OF k] r1(2)] k show ?thesis using r_kept_trans by blast
  qed
qed

lemma Initialize_kept:
  assumes "client E = K" "r_good view r" "Initialize E h sy ns r = Ret (e, r')"
  shows "r_kept view r r'"
proof -
  from assms(1,3) consider "r' = r"
    | items r1 where "reconcile_all E items r = Ret r1" "r' = r1 \<or> (\<exists>e2 m.
        InitializeResolverInformer h sy (InformerManager r1) = Ret (e2, m) \<and> r' = r1\<lparr>InformerManager := m\<rparr>)"
    by (auto simp: Initialize_def reconcileExistingCRDs_def split: sum.splits go.splits option.splits prod.splits)
  then show ?thesis
  proof cases
    case 1
    with assms(2) show ?thesis by (simp add: r_kept_refl)
  next
    case 2
    have k: "r_kept view r r1" by (rule reconcile_all_kept [OF assms(1,2) 2(1)])
    have "r_inv r' \<and> cluster r' = cluster r1"
      using 2(2)
    proof
      assume "\<exists>e2 m. InitializeResolverInformer h sy (InformerManager r1) = Ret (e2, m) \<and> r' = r1\<lparr>InformerManager := m\<rparr>"
      then obtain e2 m where m: "InitializeResolverInformer h sy (InformerManager r1) = Ret (e2, m)"
        "r' = r1\<lparr>InformerManager := m\<rparr>" by blast
      have "healthCheckStopped m = healthCheckStopped (InformerManager r1)"
        using m(1) by (auto simp: InitializeResolverInformer_def Let_def split: option.splits if_splits)
      with im_inv_resolver [OF _ m(1)] k m(2) show ?thesis by (simp add: r_kept_def r_inv_def)
    qed (use k in \<open>simp add: r_kept_def\<close>)
    with k show ?thesis by (simp add: r_kept_def)
  qed
qed

lemma target_handlers_kept:
  assumes "client E = K" "r_good view r" "handleScaleTargetRefChanges E obj es req r = Ret (e, r')"
  shows "r_kept view r r'"
proof -
  have "r' = r \<or> (\<exists>mode e1. switchMode E req mode r = Ret (e1, r'))"
    using assms(3)
    by (auto simp: handleScaleTargetRefChanges_def handleTargetDeploymentChanges_def handleTargetRolloutChanges_def
        split: if_splits sum.splits go.splits option.splits prod.splits)
  then show ?thesis using r_kept_refl [OF assms(2)] switchMode_kept [OF assms(1,2)] by auto
qed

lemma refresh_slices_kept:
  "wf_cluster (view c) \<Longrightarrow> refresh_slices K entries c = Ret c' \<Longrightarrow> kept (view c) (view c')"
proof (induction entries arbitrary: c)
  case Nil
  then show ?case by (simp add: kept_refl)
next
  case (Cons entry entries)
  then obtain c1 where c1: "refresh_slice K entry c = Ret c1" "refresh_slices K entries c1 = Ret c'"
    by (auto split: go.splits)
  have "c1 = c \<or> (\<exists>svc e. createOrUpdateEndpointsliceToResolver K c svc = Ret (e, c1))"
    using c1(1) by (auto simp: refresh_slice_def Let_def split: prod.splits if_splits sum.splits go.splits)
  then have k: "kept (view c) (view c1)" using kept_refl kept_createOrUpdate Cons.prems(1) by auto
  from Cons.IH [OF keptD [OF k] c1(2)] k show ?case using kept_trans by blast
qed

lemma handleResolverChanges_kept:
  assumes "client E = K" "r_good view r" "handleResolverChanges E obj r = Ret (e, r')"
  shows "r_kept view r r'"
proof -
  have "r' = r \<or> (\<exists>entries c'. refresh_slices K entries (cluster r) = Ret c' \<and> r' = r\<lparr>cluster := c'\<rparr>)"
    using assms(1,3) by (auto simp: handleResolverChanges_def split: sum.splits if_splits option.splits go.splits)
  then show ?thesis
    using r_kept_refl [OF assms(2)] refresh_slices_kept assms(2) by (auto simp: r_kept_def r_good_def)
qed

end

section \<open>The scale handler and the server\<close>

lemma handleScaleToZero_shape:
  assumes "handleScaleToZero K' now c cooldown es = Ret (e, c')"
  obtains (same) "c' = c"
  | (run) e1 c1 where "(case uses_keda (Spec es) of
      Some a \<Rightarrow> UpdateKedaScaledObjectPausedState K' c (AutoscalerName a) (ES_Namespace es) True
    | None \<Rightarrow> (None, c)) = (e1, c1)"
    "c' = c1 \<or> (\<exists>e2. ScaleTargetToZero K' c1 (ES_Namespace es) (Kind (TargetRef (Spec es)))
        (TargetRefName (TargetRef (Spec es))) (ES_Name es) = Ret (e2, c'))"
proof (cases "case LastScaledUpTime (Status es) of None \<Rightarrow> False | Some t \<Rightarrow> now - t < cooldown")
  case True
  then show thesis using assms same by (simp add: handleScaleToZero_def)
next
  case False
  obtain e1 c1 where c1: "(case uses_keda (Spec es) of
      Some a \<Rightarrow> UpdateKedaScaledObjectPausedState K' c (AutoscalerName a) (ES_Namespace es) True
    | None \<Rightarrow> (None, c)) = (e1, c1)" by fastforce
  have "c' = c1 \<or> (\<exists>e2. ScaleTargetToZero K' c1 (ES_Namespace es) (Kind (TargetRef (Spec es)))
        (TargetRefName (TargetRef (Spec es))) (ES_Name es) = Ret (e2, c'))"
    using assms False c1
    by (cases e1) (auto simp: handleScaleToZero_def split: option.splits go.splits prod.splits)
  with c1 show thesis by (rule run)
qed

lemma handleScaleFromZero_shape:
  assumes "handleScaleFromZero K' now c es = Ret (e, c')"
  obtains e1 c1 where "(case uses_keda (Spec es) of
      Some a \<Rightarrow> UpdateKedaScaledObjectPausedState K' (snd (UpdateLastScaledUpTime K' now c (ES_Name es) (ES_Namespace es)))
        (AutoscalerName a) (ES_Namespace es) False
    | None \<Rightarrow> (None, snd (UpdateLastScaledUpTime K' now c (ES_Name es) (ES_Namespace es)))) = (e1, c1)"
    "c' = c1 \<or> (\<exists>e2. ScaleTargetFromZero K' c1 (ES_Namespace es) (Kind (TargetRef (Spec es)))
        (TargetRefName (TargetRef (Spec es))) (MinTargetReplicas (Spec es)) (ES_Name es) = Ret (e2, c'))"
proof -
  obtain e1 c1 where c1: "(case uses_keda (Spec es) of
      Some a \<Rightarrow> UpdateKedaScaledObjectPausedState K' (snd (UpdateLastScaledUpTime K' now c (ES_Name es) (ES_Namespace es)))
        (AutoscalerName a) (ES_Namespace es) False
    | None \<Rightarrow> (None, snd (UpdateLastScaledUpTime K' now c (ES_Name es) (ES_Namespace es)))) = (e1, c1)" by fastforce
  have "c' = c1 \<or> (\<exists>e2. ScaleTargetFromZero K' c1 (ES_Namespace es) (Kind (TargetRef (Spec es)))
        (TargetRefName (TargetRef (Spec es))) (MinTargetReplicas (Spec es)) (ES_Name es) = Ret (e2, c'))"
    using assms c1
    by (cases e1) (auto simp: handleScaleFromZero_def Let_def split: option.splits go.splits prod.splits)
  with c1 that show thesis by blast
qed

context api_server
begin

lemma kept_UpdateKeda:
  "wf_cluster (view c) \<Longrightarrow> UpdateKedaScaledObjectPausedState K c so ns p = (e, c') \<Longrightarrow> kept (view c) (view c')"
  using view_UpdateKeda [OF laws, of c so ns p e c'] kept_refl kept_other(1) by (simp split: if_splits)

lemma kept_UpdateLastScaledUpTime:
  "wf_cluster (view c) \<Longrightarrow> kept (view c) (view (snd (UpdateLastScaledUpTime K now c n ns)))"
  using view_UpdateLastScaledUpTime [OF laws, of now c n ns] kept_refl kept_status
  by (cases "UpdateLastScaledUpTime K now c n ns") (simp split: if_splits)

lemma kept_scale_target:
  assumes "wf_cluster (view c)" "scale_target K kind c ns n r = Ret (x, c')"
  shows "kept (view c) (view c')"
proof -
  obtain b e where x: "x = (b, e)" by (cases x)
  show ?thesis
  proof (cases e)
    case (Some err)
    then show ?thesis using scale_target_err [OF laws] assms(2) kept_refl [OF assms(1)] by (simp add: x)
  next
    case None
    have "view c' = view c \<or> view c' = patch_dep ns n r (view c) \<or> view c' = patch_ro ns n r (view c)"
      using assms(2) None deployments.scale_ok [OF laws, of c ns n r b c'] rollouts.scale_ok [OF laws, of c ns n r b c']
      by (auto simp: x scale_target_def split: if_splits)
    then show ?thesis using kept_refl [OF assms(1)] kept_replicas [OF assms(1)] by auto
  qed
qed

lemma kept_scaled:
  assumes "wf_cluster (view c)" "scaled_with_event K c ns kind n r es c'"
  shows "kept (view c) (view c')"
proof -
  from assms(2) consider "c' = c"
    | x c1 where "scale_target K kind c ns n r = Ret (x, c1)"
      "c' = c1 \<or> (\<exists>t reason. c' = createEvent K c1 ns es t reason)"
    unfolding scaled_with_event_def by blast
  then show ?thesis
  proof cases
    case 1
    then show ?thesis using kept_refl [OF assms(1)] by simp
  next
    case 2
    note k = kept_scale_target [OF assms(1) 2(1)]
    have "kept (view c1) (view c')"
      using 2(2) kept_refl [OF keptD [OF k]] kept_other(2) [OF keptD [OF k]] view_createEvent [OF laws] by auto
    with k show ?thesis by (rule kept_trans)
  qed
qed

lemmas kept_FromZero = kept_scaled [OF _ FromZero_shape]
lemmas kept_ToZero = kept_scaled [OF _ ToZero_shape]

lemma kept_keda_step:
  assumes "wf_cluster (view c)" "(case o' of Some a \<Rightarrow> UpdateKedaScaledObjectPausedState K c (AutoscalerName a) ns p
    | None \<Rightarrow> (None, c)) = (e1, c1)"
  shows "kept (view c) (view c1)"
  using assms kept_refl kept_UpdateKeda by (auto split: option.splits)

lemma kept_handleScaleToZero:
  assumes "wf_cluster (view c)" "handleScaleToZero K now c cooldown es = Ret (e, c')"
  shows "kept (view c) (view c')"
  using assms(2)
proof (cases rule: handleScaleToZero_shape)
  case same
  then show ?thesis using kept_refl [OF assms(1)] by simp
next
  case (run e1 c1)
  note k = kept_keda_step [OF assms(1) run(1)]
  have "kept (view c1) (view c')"
    using run(2) kept_refl [OF keptD [OF k]] kept_ToZero [OF keptD [OF k]] by auto
  with k show ?thesis by (rule kept_trans)
qed

lemma kept_handleScaleFromZero:
  assumes "wf_cluster (view c)" "handleScaleFromZero K now c es = Ret (e, c')"
  shows "kept (view c) (view c')"
  using assms(2)
proof (rule handleScaleFromZero_shape)
  fix e1 c1
  let ?c0 = "snd (UpdateLastScaledUpTime K now c (ES_Name es) (ES_Namespace es))"
  assume c1: "(case uses_keda (Spec es) of
      Some a \<Rightarrow> UpdateKedaScaledObjectPausedState K ?c0 (AutoscalerName a) (ES_Namespace es) False
    | None \<Rightarrow> (None, ?c0)) = (e1, c1)"
    and c': "c' = c1 \<or> (\<exists>e2. ScaleTargetFromZero K c1 (ES_Namespace es) (Kind (TargetRef (Spec es)))
        (TargetRefName (TargetRef (Spec es))) (MinTargetReplicas (Spec es)) (ES_Name es) = Ret (e2, c'))"
  have k0: "kept (view c) (view ?c0)" by (rule kept_UpdateLastScaledUpTime [OF assms(1)])
  have k: "kept (view c) (view c1)" by (rule kept_trans [OF k0 kept_keda_step [OF keptD [OF k0] c1]])
  have "kept (view c1) (view c')"
    using c' kept_refl [OF keptD [OF k]] kept_FromZero [OF keptD [OF k]] by auto
  with k show ?thesis by (rule kept_trans)
qed

lemma kept_check_items:
  "wf_cluster (view c) \<Longrightarrow> check_items K P now items (c, g) = Ret (c', g') \<Longrightarrow> kept (view c) (view c')"
proof (induction items arbitrary: c g)
  case Nil
  then show ?case by (simp add: kept_refl)
next
  case (Cons item items)
  from Cons.prems(2) obtain c1 g1 where it: "check_item K P now item (c, g) = Ret (c1, g1)"
    and rest: "check_items K P now items (c1, g1) = Ret (c', g')"
    by (auto split: go.splits)
  from it consider "c1 = c" | e es cd where "handleScaleToZero K now c cd es = Ret (e, c1)"
    | e es where "handleScaleFromZero K now c es = Ret (e, c1)"
    by (auto simp: check_item_def Let_def split: sum.splits go.splits ScaleDirection.splits prod.splits)
  then have k: "kept (view c) (view c1)"
    using kept_refl kept_handleScaleToZero kept_handleScaleFromZero Cons.prems(1) by cases auto
  from Cons.IH [OF keptD [OF k] rest] k show ?case using kept_trans by blast
qed

lemma kept_checkAndScale:
  assumes "wf_cluster (view c)" "checkAndScale K P now ns (c, g) = Ret (e, c', g')"
  shows "kept (view c) (view c')"
  using assms kept_refl kept_check_items
  by (auto simp: checkAndScale_def split: sum.splits go.splits)

lemma kept_scaleTargetForService:
  assumes "wf_cluster (view c)" "scaleTargetForService K now d c svc ns = Ret (e, c')"
  shows "kept (view c) (view c')"
proof (cases "GetCRD (nn_String ns svc) d")
  case (Panic m)
  then show ?thesis using assms(2) by (simp add: scaleTargetForService_def)
next
  case (Ret found)
  show ?thesis
  proof (cases found)
    case None
    then show ?thesis using assms Ret kept_refl by (simp add: scaleTargetForService_def)
  next
    case (Some crd)
    let ?c0 = "snd (UpdateLastScaledUpTime K now c (CRDName crd) ns)"
    have k0: "kept (view c) (view ?c0)" by (rule kept_UpdateLastScaledUpTime [OF assms(1)])
    obtain e1 c1 where c1: "keda_resume K ?c0 (CRDSpec crd) ns = (e1, c1)" by fastforce
    have k: "kept (view c) (view c1)"
      using kept_trans [OF k0 kept_keda_step [OF keptD [OF k0]]] c1 unfolding keda_resume_def by blast
    have "c' = c1 \<or> (\<exists>e2. ScaleTargetFromZero K c1 ns (Kind (TargetRef (CRDSpec crd)))
        (TargetRefName (TargetRef (CRDSpec crd))) (MinTargetReplicas (CRDSpec crd)) (CRDName crd) = Ret (e2, c'))"
      using assms(2) Ret Some c1 by (cases e1) (auto simp: scaleTargetForService_def split: option.splits go.splits)
    then have "kept (view c1) (view c')"
      using kept_refl [OF keptD [OF k]] kept_FromZero [OF keptD [OF k]] by auto
    with k show ?thesis by (rule kept_trans)
  qed
qed

lemma kept_resolverReqHandler:
  assumes "wf_cluster (view c)" "resolverReqHandler K now d c w meth reqBody = Ret (w', c')"
  shows "kept (view c) (view c')"
proof -
  have "c' = c \<or> (\<exists>(b :: RequestCount) e. scaleTargetForService K now d c (Svc b) (RC_Namespace b) = Ret (e, c'))"
    using assms(2)
    by (auto simp: resolverReqHandler_def Let_def split: if_splits sum.splits option.splits go.splits prod.splits)
  then show ?thesis using kept_refl [OF assms(1)] kept_scaleTargetForService [OF assms(1)] by auto
qed

end

interpretation mc: api_server "memory_client ks" id
  by unfold_locales (rule memory_client_laws)

end
