(* ===== verification/OperatorSystem.thy ===== *)
theory OperatorSystem
  imports OperatorFrame
begin

text \<open>
  The operator as a transition system: everything that can happen to it is an \<open>action\<close>, and
  \<open>op_step\<close> is what the operator does then. Between its actions the cluster may change in any way that
  keeps objects under their own names. The calls of one action are taken as one step; API calls may
  fail in any of them.
\<close>

record 'c Operator =
  op_rec :: "'c Reconciler"
  op_prom :: promQueryResponse

definition start_operator :: "'c \<Rightarrow> 'c Operator" where
  "start_operator c =
     \<lparr>op_rec = \<lparr>cluster = c, dir = InitDirectory None, InformerManager = NewInformerManager,
                InformerStartLocks = Map.empty\<rparr>,
      op_prom = []\<rparr>"

datatype 'c action =
    DoInitialize "'c Env" "goerr option" bool string
  | DoReconcile "'c Env" Req
  | TargetEvent "'c Env" ElastiService Req "Obj Controller.event"
  | ServiceEvent "'c Env" ElastiService "Service result Controller.event"
  | ResolverEvent "'c Env" "Deployment result Controller.event"
  | Post "'c K8s" int ResponseWriter string "RequestCount result"
  | CheckTick "'c K8s" prom_env int string
  | HealthCheck informer_env

fun uses_client :: "'c K8s \<Rightarrow> 'c action \<Rightarrow> bool" where
  "uses_client K (DoInitialize E h sy ns) = (client E = K)"
| "uses_client K (DoReconcile E req) = (client E = K)"
| "uses_client K (TargetEvent E es req ev) = (client E = K)"
| "uses_client K (ServiceEvent E es ev) = (client E = K)"
| "uses_client K (ResolverEvent E ev) = (client E = K)"
| "uses_client K (Post K' now w meth reqBody) = (K' = K)"
| "uses_client K (CheckTick K' P now ns) = (K' = K)"
| "uses_client K (HealthCheck env) = True"

definition with_rec :: "'c Operator \<Rightarrow> 'c Reconciler go \<Rightarrow> 'c Operator go" where
  "with_rec x res = (case res of Panic m \<Rightarrow> Panic m | Ret r \<Rightarrow> Ret (x\<lparr>op_rec := r\<rparr>))"

fun op_step :: "'c action \<Rightarrow> 'c Operator \<Rightarrow> 'c Operator go" where
  "op_step (DoInitialize E h sy ns) x = with_rec x (drop_error (Initialize E h sy ns (op_rec x)))"
| "op_step (DoReconcile E req) x = with_rec x (drop_error (Reconcile E req (op_rec x)))"
| "op_step (TargetEvent E es req ev) x = with_rec x (getScaleTargetRefChangeHandler E es req ev (op_rec x))"
| "op_step (ServiceEvent E es ev) x = with_rec x (getPublicServiceChangeHandler E es ev (op_rec x))"
| "op_step (ResolverEvent E ev) x = with_rec x (getResolverChangeHandler E ev (op_rec x))"
| "op_step (Post K now w meth reqBody) x =
     (case resolverReqHandler K now (dir (op_rec x)) (cluster (op_rec x)) w meth reqBody of
        Panic m \<Rightarrow> Panic m
      | Ret (w', c) \<Rightarrow> Ret (x\<lparr>op_rec := (op_rec x)\<lparr>cluster := c\<rparr>\<rparr>))"
| "op_step (CheckTick K P now ns) x =
     (case checkAndScale K P now ns (cluster (op_rec x), op_prom x) of
        Panic m \<Rightarrow> Panic m
      | Ret (e, c, g) \<Rightarrow> Ret (x\<lparr>op_rec := (op_rec x)\<lparr>cluster := c\<rparr>, op_prom := g\<rparr>))"
| "op_step (HealthCheck env) x =
     (case monitorInformers env (InformerManager (op_rec x)) of
        Panic m \<Rightarrow> Panic m
      | Ret im \<Rightarrow> Ret (x\<lparr>op_rec := (op_rec x)\<lparr>InformerManager := im\<rparr>\<rparr>))"

fun op_run :: "'c action list \<Rightarrow> 'c Operator \<Rightarrow> 'c Operator go" where
  "op_run [] x = Ret x"
| "op_run (a # as) x = (case op_step a x of Panic m \<Rightarrow> Panic m | Ret x' \<Rightarrow> op_run as x')"

inductive op_reach :: "'c K8s \<Rightarrow> ('c \<Rightarrow> Cluster) \<Rightarrow> 'c Operator \<Rightarrow> bool" for K view where
  start: "wf_cluster (view c) \<Longrightarrow> op_reach K view (start_operator c)"
| act: "op_reach K view x \<Longrightarrow> uses_client K a \<Longrightarrow> op_step a x = Ret x' \<Longrightarrow> op_reach K view x'"
| world: "op_reach K view x \<Longrightarrow> wf_cluster (view c) \<Longrightarrow>
    op_reach K view (x\<lparr>op_rec := (op_rec x)\<lparr>cluster := c\<rparr>\<rparr>)"

section \<open>Every step keeps what it must\<close>

lemma with_rec_Ret:
  "with_rec x res = Ret x' \<longleftrightarrow> (\<exists>r. res = Ret r \<and> x' = x\<lparr>op_rec := r\<rparr>)"
  by (auto simp: with_rec_def split: go.splits)

lemma drop_error_Ret: "drop_error res = Ret r \<longleftrightarrow> (\<exists>e. res = Ret (e, r))"
  by (auto simp: drop_error_def split: go.splits)

lemma r_kept_same_cluster: "r_good view r \<Longrightarrow> cluster r' = cluster r \<Longrightarrow> r_inv r' \<Longrightarrow> r_kept view r r'"
  by (simp add: r_kept_def r_good_def kept_refl)

lemma r_kept_cluster: "r_good view r \<Longrightarrow> kept (view (cluster r)) (view c) \<Longrightarrow> r_kept view r (r\<lparr>cluster := c\<rparr>)"
  by (simp add: r_kept_def r_good_def)

context api_server
begin

lemma events_kept:
  assumes "client E = K" "r_good view r"
  shows "getScaleTargetRefChangeHandler E es req ev r = Ret r' \<Longrightarrow> r_kept view r r'"
    "getResolverChangeHandler E dev r = Ret r' \<Longrightarrow> r_kept view r r'"
    "getPublicServiceChangeHandler E es sev r = Ret r' \<Longrightarrow> r_kept view r r'"
proof -
  show "getScaleTargetRefChangeHandler E es req ev r = Ret r' \<Longrightarrow> r_kept view r r'"
    using r_kept_refl [OF assms(2)] target_handlers_kept [OF assms]
    by (auto simp: getScaleTargetRefChangeHandler_def drop_error_Ret split: Controller.event.splits)
  show "getResolverChangeHandler E dev r = Ret r' \<Longrightarrow> r_kept view r r'"
    using r_kept_refl [OF assms(2)] handleResolverChanges_kept [OF assms]
    by (auto simp: getResolverChangeHandler_def drop_error_Ret split: Controller.event.splits)
  have on: "on_public_service E es obj r = Ret r' \<Longrightarrow> r_kept view r r'" for obj
    using kept_handlePublicServiceChanges assms r_kept_cluster [OF assms(2)]
    by (auto simp: on_public_service_def r_good_def split: go.splits)
  then show "getPublicServiceChangeHandler E es sev r = Ret r' \<Longrightarrow> r_kept view r r'"
    using r_kept_refl [OF assms(2)] by (auto simp: getPublicServiceChangeHandler_def split: Controller.event.splits)
qed

lemma step_kept:
  assumes "r_good view (op_rec x)" "uses_client K a" "op_step a x = Ret x'"
  shows "r_kept view (op_rec x) (op_rec x')"
proof (cases a)
  case (DoInitialize E h sy ns)
  then show ?thesis using assms Initialize_kept by (auto simp: with_rec_Ret drop_error_Ret)
next
  case (DoReconcile E req)
  then show ?thesis using assms Reconcile_kept by (auto simp: with_rec_Ret drop_error_Ret)
next
  case (TargetEvent E es req ev)
  then show ?thesis using assms events_kept(1) by (auto simp: with_rec_Ret)
next
  case (ServiceEvent E es ev)
  then show ?thesis using assms events_kept(3) by (auto simp: with_rec_Ret)
next
  case (ResolverEvent E ev)
  then show ?thesis using assms events_kept(2) by (auto simp: with_rec_Ret)
next
  case (Post K' now w meth reqBody)
  have wf: "wf_cluster (view (cluster (op_rec x)))" using assms(1) by (simp add: r_good_def)
  from assms(2,3) Post obtain w' c where
    "resolverReqHandler K now (dir (op_rec x)) (cluster (op_rec x)) w meth reqBody = Ret (w', c)"
    "x' = x\<lparr>op_rec := (op_rec x)\<lparr>cluster := c\<rparr>\<rparr>" by (auto split: go.splits)
  with kept_resolverReqHandler [OF wf] r_kept_cluster [OF assms(1)] show ?thesis by simp
next
  case (CheckTick K' P now ns)
  have wf: "wf_cluster (view (cluster (op_rec x)))" using assms(1) by (simp add: r_good_def)
  from assms(2,3) CheckTick obtain e c g where
    "checkAndScale K P now ns (cluster (op_rec x), op_prom x) = Ret (e, c, g)"
    "x' = x\<lparr>op_rec := (op_rec x)\<lparr>cluster := c\<rparr>, op_prom := g\<rparr>" by (auto split: go.splits)
  with kept_checkAndScale [OF wf] r_kept_cluster [OF assms(1)] show ?thesis by simp
next
  case (HealthCheck env)
  from assms(3) HealthCheck obtain im where im: "monitorInformers env (InformerManager (op_rec x)) = Ret im"
    "x' = x\<lparr>op_rec := (op_rec x)\<lparr>InformerManager := im\<rparr>\<rparr>" by (auto split: go.splits)
  have "im_inv im" "\<not> healthCheckStopped im"
    using im(1) restart_ok [of "InformerManager (op_rec x)" env "informers (InformerManager (op_rec x))"]
      health_restart [of env "informers (InformerManager (op_rec x))" "InformerManager (op_rec x)" im] assms(1)
    by (auto simp: monitorInformers_def r_good_def r_inv_def)
  then have "r_inv (op_rec x')" using assms(1) im(2) by (simp add: r_good_def r_inv_def)
  then show ?thesis using r_kept_same_cluster [OF assms(1)] im(2) by simp
qed

lemma run_kept:
  "r_good view (op_rec x) \<Longrightarrow> list_all (uses_client K) as \<Longrightarrow> op_run as x = Ret x' \<Longrightarrow>
   r_kept view (op_rec x) (op_rec x')"
proof (induction as arbitrary: x)
  case Nil
  then show ?case by (simp add: r_kept_refl)
next
  case (Cons a as)
  then obtain x1 where x1: "op_step a x = Ret x1" "op_run as x1 = Ret x'" by (auto split: go.splits)
  have k: "r_kept view (op_rec x) (op_rec x1)" using step_kept [OF Cons.prems(1) _ x1(1)] Cons.prems(2) by simp
  from Cons.IH [OF r_kept_good [OF k] _ x1(2)] Cons.prems(2) k show ?case using r_kept_trans by auto
qed

lemma reach_good: "op_reach K view x \<Longrightarrow> r_good view (op_rec x)"
proof (induction rule: op_reach.induct)
  case (start c)
  then show ?case
    by (simp add: start_operator_def r_good_def r_inv_def im_inv_new dir_ok_def InitDirectory_def)
      (simp add: NewInformerManager_def)
next
  case (act x a x')
  then show ?case using step_kept r_kept_good by blast
next
  case (world x c)
  then show ?case by (simp add: r_good_def)
qed

end

section \<open>Properties\<close>

lemma web_not_private: "\<not> private_name ''web''"
proof
  assume "private_name ''web''"
  then obtain s where "''web'' = GetPrivateServiceName s" by (auto simp: private_name_def)
  then have "length ''web'' = length s + 22" by (simp add: length_private_name)
  then show False by simp
qed

lemma example_reconciled:
  "\<exists>r'. Reconcile E0 example_req (example_reconciler example_es) = Ret (None, r')"
proof -
  let ?r = "example_reconciler example_es"
  have live: "DeletionTimestamp example_es = None" by (simp add: example_es_def)
  have t: "complete_target (Spec example_es)"
    "ParseAPIVersion (APIVersion (TargetRef (Spec example_es))) = Inr (''apps'', ''v1'')"
    by (simp_all add: complete_target_def ParseAPIVersion_Inr_iff example_es_def)
  have i: "im_inv (InformerManager ?r)" "dir ?r \<noteq> None" "target_changed ?r example_es \<or> start_pending ?r example_req example_es"
    by (simp_all add: example_reconciler_def im_inv_new InitDirectory_def start_pending_def)
  from Reconcile_live [OF E0_client example_facts(1,2) live t E0_watchable i] show ?thesis by blast
qed

lemma example_start: "op_rec (start_operator (example_objects example_es)) = example_reconciler example_es"
  by (simp add: start_operator_def example_reconciler_def)

lemma example_reach: "op_reach (client E0) id (start_operator (example_objects example_es))"
  using op_reach.start [of id "example_objects example_es"] example_facts(1) by (simp add: example_reconciler_def)

lemma example_run:
  "\<exists>x'. op_run [DoReconcile E0 example_req] (start_operator (example_objects example_es)) = Ret x'"
  using example_reconciled by (auto simp: with_rec_def drop_error_def example_start)

text \<open>C3: whatever the operator does, in whatever order and whichever of its API calls fail, the objects of
  the users stay as they are: services and slices other than those under generated names are unchanged, a
  custom resource keeps its specification and goes away only if its deletion was asked for, deployments and
  rollouts change in their replicas only, and no object of KEDA appears or disappears.\<close>

theorem operator_keeps_user_objects:
  assumes "k8s_laws K view" "op_reach K view x" "list_all (uses_client K) as" "op_run as x = Ret x'"
  shows "user_kept (view (cluster (op_rec x))) (view (cluster (op_rec x')))"
  using api_server.run_kept [OF api_server.intro [OF assms(1)]
      api_server.reach_good [OF api_server.intro [OF assms(1)] assms(2)] assms(3,4)]
  by (simp add: r_kept_def kept_def)

theorem operator_keeps_user_objects_witness:
  "\<exists>x'. op_run [DoReconcile E0 example_req] (start_operator (example_objects example_es)) = Ret x' \<and>
     C_svcs (cluster (op_rec x')) (''shop'', ''web'') = Some example_service"
proof -
  obtain x' where x': "op_run [DoReconcile E0 example_req] (start_operator (example_objects example_es)) = Ret x'"
    using example_run by blast
  have "user_kept (id (cluster (op_rec (start_operator (example_objects example_es))))) (id (cluster (op_rec x')))"
    by (rule operator_keeps_user_objects [OF E0_client(1) example_reach _ x']) simp
  then have "C_svcs (cluster (op_rec x')) (''shop'', ''web'') =
      C_svcs (cluster (op_rec (start_operator (example_objects example_es)))) (''shop'', ''web'')"
    using web_not_private by (simp add: user_kept_def)
  also have "\<dots> = Some example_service"
    by (simp add: start_operator_def example_objects_def)
  finally show ?thesis using x' by blast
qed



end
