(* ===== verification/OperatorMain.thy ===== *)
theory OperatorMain
  imports OperatorSystem Logger
begin

text \<open>
  \<open>operator/cmd/main.go\<close>: the start of the operator, the wait for the manager and the deferred stop of the
  informers. What comes from outside (flags, zap, the controller manager, clients of the cluster) is in the
  record \<open>op_env\<close>; what the goroutines of the operator do in the meantime are the three lists of actions:
  until the manager is started, until the controller is initialised, and while \<open>main\<close> waits.
\<close>

section \<open>Flags and the options of the controller manager\<close>

record op_flags =
  watchNamespace :: string
  metricsAddr :: string
  probeAddr :: string
  enableLeaderElection :: bool
  secureMetrics :: bool
  enableHTTP2 :: bool

text \<open>The values of flags that are not given.\<close>

definition default_flags :: op_flags where
  "default_flags = \<lparr>watchNamespace = '''', metricsAddr = '':8080'', probeAddr = '':8081'',
     enableLeaderElection = False, secureMetrics = False, enableHTTP2 = False\<rparr>"

text \<open>A TLS configuration, as far as \<open>main\<close> looks at it, and the list of functions that adjust one.\<close>

type_synonym tls_Config = "string list"

definition disableHTTP2 :: "tls_Config \<Rightarrow> tls_Config" where
  "disableHTTP2 c = [''http/1.1'']"

definition tlsOpts :: "op_flags \<Rightarrow> (tls_Config \<Rightarrow> tls_Config) list" where
  "tlsOpts fl = (if \<not> enableHTTP2 fl then [disableHTTP2] else [])"

record ctrl_Options =
  Metrics_BindAddress :: string
  Metrics_SecureServing :: bool
  Metrics_TLSOpts :: "(tls_Config \<Rightarrow> tls_Config) list"
  Webhook_TLSOpts :: "(tls_Config \<Rightarrow> tls_Config) list"
  HealthProbeBindAddress :: string
  LeaderElection :: bool
  LeaderElectionID :: string
  LeaderElectionReleaseOnCancel :: bool

definition manager_Options :: "op_flags \<Rightarrow> ctrl_Options" where
  "manager_Options fl =
     \<lparr>Metrics_BindAddress = metricsAddr fl, Metrics_SecureServing = secureMetrics fl,
      Metrics_TLSOpts = tlsOpts fl, Webhook_TLSOpts = tlsOpts fl,
      HealthProbeBindAddress = probeAddr fl, LeaderElection = enableLeaderElection fl,
      LeaderElectionID = ''acf50383.truefoundry.io'', LeaderElectionReleaseOnCancel = True\<rparr>"

text \<open>
  Without the flag neither of the two servers negotiates HTTP/2, whatever the configuration it starts
  from; with it the configuration is left alone.
\<close>

lemma http2_only_when_enabled:
  "fold (\<lambda>f. f) (Metrics_TLSOpts (manager_Options fl)) c = (if enableHTTP2 fl then c else [''http/1.1''])"
  "fold (\<lambda>f. f) (Webhook_TLSOpts (manager_Options fl)) c = (if enableHTTP2 fl then c else [''http/1.1''])"
  by (simp_all add: manager_Options_def tlsOpts_def disableHTTP2_def)

section \<open>Starting and ending\<close>

datatype 'c op_outcome =
    OpReturned "goerr option" "Manager option"
  | OpFatal goerr
  | OpPanic string
  | OpBlocked "'c Operator"

record ('b, 'c) op_env =
  SENTRY_DSN :: string
  flag_Parse :: op_flags
  op_zap :: "'b zap"
  ctrl_NewManager :: "ctrl_Options \<Rightarrow> goerr option"
  informer_client_Err :: "goerr option"
  scale_kErr :: "goerr option"
  scale_dynErr :: "goerr option"
  builder_Complete :: "goerr option"
  server_Err :: "goerr option"
  AddHealthzCheck :: "goerr option"
  AddReadyzCheck :: "goerr option"
  mgr_WaitForCacheSync :: bool
  init_Env :: "'c Env"
  init_handlerErr :: "goerr option"
  init_synced :: bool
  time_ParseDuration :: "string \<Rightarrow> int result"
  POLLING_VARIABLE :: string

definition SetupWithManager :: "goerr option \<Rightarrow> goerr option" where
  "SetupWithManager completeErr = map_option (Wrap ''SetupWithManager'') completeErr"

text \<open>Returning from \<open>mainWithError\<close> once the informer manager was started runs its \<open>Stop\<close>.\<close>

definition return_stop :: "'c Operator \<Rightarrow> goerr option \<Rightarrow> 'c op_outcome" where
  "return_stop x err =
     (case Stop (InformerManager (op_rec x)) of
        Panic m \<Rightarrow> OpPanic m
      | Ret im \<Rightarrow> OpReturned err (Some im))"

definition run_then :: "'c action list \<Rightarrow> 'c Operator \<Rightarrow> ('c Operator \<Rightarrow> 'c op_outcome) \<Rightarrow> 'c op_outcome" where
  "run_then as x k = (case op_run as x of Panic m \<Rightarrow> OpPanic m | Ret x' \<Rightarrow> k x')"

text \<open>
  The wait for \<open>mgrErrChan\<close>: \<open>mgr.Start\<close> has not returned (\<open>None\<close>), has returned \<open>nil\<close>, or an error. Only an
  error is sent on the channel.
\<close>

definition await_manager :: "goerr option option \<Rightarrow> 'c Operator \<Rightarrow> 'c op_outcome" where
  "await_manager started x =
     (case started of
        Some (Some err) \<Rightarrow> return_stop x (Some (Wrap ''main'' (Wrap ''manager'' err)))
      | _ \<Rightarrow> OpBlocked x)"

text \<open>\<open>Initialize\<close> with the start of the scale-down watcher at its end.\<close>

definition initialize_controller :: "('b, 'c) op_env \<Rightarrow> 'c Operator \<Rightarrow> (goerr option \<times> 'c Operator) go" where
  "initialize_controller V x =
     (case Initialize (init_Env V) (init_handlerErr V) (init_synced V) (watchNamespace (flag_Parse V)) (op_rec x) of
        Panic m \<Rightarrow> Panic m
      | Ret (Some err, r) \<Rightarrow> Ret (Some err, x\<lparr>op_rec := r\<rparr>)
      | Ret (None, r) \<Rightarrow>
          (case StartScaleDownWatcher (time_ParseDuration V) (POLLING_VARIABLE V) of
             Panic m \<Rightarrow> Panic m
           | Ret interval \<Rightarrow> Ret (None, x\<lparr>op_rec := r\<rparr>)))"

definition run_manager :: 
  "('b, 'c) op_env \<Rightarrow> goerr option option \<Rightarrow> 'c action list \<Rightarrow> 'c action list \<Rightarrow> 'c Operator \<Rightarrow>
   'c op_outcome" where
  "run_manager V started acts1 acts2 x =
     run_then acts1 x (\<lambda>x1.
       if \<not> mgr_WaitForCacheSync V then return_stop x1 (Some (Err ''failed to sync cache''))
       else
         (case initialize_controller V x1 of
            Panic m \<Rightarrow> OpPanic m
          | Ret (Some err, x2) \<Rightarrow> return_stop x2 (Some (Wrap ''main'' err))
          | Ret (None, x2) \<Rightarrow> run_then acts2 x2 (await_manager started)))"

text \<open>From the start of the informer manager on, with the server and the probes in between.\<close>

definition run_operator ::
  "('b, 'c) op_env \<Rightarrow> goerr option option \<Rightarrow> 'c action list \<Rightarrow> 'c action list \<Rightarrow> 'c action list \<Rightarrow>
   'c Operator \<Rightarrow> 'c op_outcome" where
  "run_operator V started acts0 acts1 acts2 x =
     run_then acts0 x (\<lambda>x0.
       case NewScaleHandler (scale_kErr V) (scale_dynErr V) (watchNamespace (flag_Parse V)) of
         Inl err \<Rightarrow> OpFatal err
       | Inr scaleHandler \<Rightarrow>
           (case SetupWithManager (builder_Complete V) of
              Some err \<Rightarrow> return_stop x0 (Some (Wrap ''main'' err))
            | None \<Rightarrow>
                (case server_Err V of
                   Some err \<Rightarrow> return_stop x0 (Some (Wrap ''main'' (Wrap ''elasti server'' err)))
                 | None \<Rightarrow>
                     (case AddHealthzCheck V of
                        Some err \<Rightarrow> return_stop x0 (Some (Wrap ''main'' err))
                      | None \<Rightarrow>
                          (case AddReadyzCheck V of
                             Some err \<Rightarrow> return_stop x0 (Some (Wrap ''main'' err))
                           | None \<Rightarrow> run_manager V started acts1 acts2 x0)))))"

text \<open>
  A logger that could not be made is only reported; the first use of the nil logger, in
  \<open>InitDirectory\<close>, panics.
\<close>

definition mainWithError ::
  "('b, 'c) op_env \<Rightarrow> goerr option option \<Rightarrow> 'c action list \<Rightarrow> 'c action list \<Rightarrow> 'c action list \<Rightarrow> 'c \<Rightarrow>
   'c op_outcome" where
  "mainWithError V started acts0 acts1 acts2 c =
     (let zapLogger = NewLogger (op_zap V) ''dev'' (SENTRY_DSN V \<noteq> '''')
      in case ctrl_NewManager V (manager_Options (flag_Parse V)) of
           Some err \<Rightarrow> OpReturned (Some (Wrap ''main'' err)) None
         | None \<Rightarrow>
             (case zapLogger of
                Inl err \<Rightarrow> OpPanic ''invalid memory address or nil pointer dereference''
              | Inr logger \<Rightarrow>
                  (case informer_client_Err V of
                     Some err \<Rightarrow> OpFatal err
                   | None \<Rightarrow> run_operator V started acts0 acts1 acts2 (start_operator c))))"

definition op_main :: "'c op_outcome \<Rightarrow> int option" where
  "op_main res =
     (case res of
        OpReturned None im \<Rightarrow> Some 0
      | OpReturned (Some err) im \<Rightarrow> Some 1
      | OpFatal err \<Rightarrow> Some 1
      | OpPanic m \<Rightarrow> Some 2
      | OpBlocked x \<Rightarrow> None)"

section \<open>Lemmas\<close>

lemma return_stop_not_nil: "return_stop x (Some err) \<noteq> OpReturned None im" "return_stop x e \<noteq> OpBlocked y"
  by (simp_all add: return_stop_def split: go.splits)

text \<open>
  What follows the choices of \<open>main\<close> down to the wait: every outcome is an early end, which does not depend
  on the manager, or the outcome of the wait.
\<close>

definition waits_or_ends :: "(goerr option option \<Rightarrow> 'c op_outcome) \<Rightarrow> bool" where
  "waits_or_ends f =
     ((\<exists>res. (\<forall>s. f s = res) \<and> (\<forall>y. res \<noteq> OpBlocked y) \<and> (\<forall>im. res \<noteq> OpReturned None im)) \<or>
      (\<exists>y. \<forall>s. f s = await_manager s y))"

lemma await_not_nil: "await_manager s y \<noteq> OpReturned None im"
  using return_stop_not_nil(1) by (auto simp: await_manager_def split: option.splits)

lemma ends [intro]:
  "waits_or_ends (\<lambda>s. OpPanic m)" "waits_or_ends (\<lambda>s. OpFatal err)" "waits_or_ends (\<lambda>s. return_stop x (Some e))"
  "waits_or_ends (\<lambda>s. OpReturned (Some e) im)" "waits_or_ends (\<lambda>s. await_manager s y)"
  by (auto simp: waits_or_ends_def return_stop_def split: go.splits)

lemma ends_option:
  "waits_or_ends f \<Longrightarrow> (\<And>a. waits_or_ends (g a)) \<Longrightarrow>
   waits_or_ends (\<lambda>s. case x of None \<Rightarrow> f s | Some a \<Rightarrow> g a s)"
  by (cases x) auto

lemma ends_sum:
  "(\<And>a. waits_or_ends (f a)) \<Longrightarrow> (\<And>a. waits_or_ends (g a)) \<Longrightarrow>
   waits_or_ends (\<lambda>s. case x of Inl a \<Rightarrow> f a s | Inr a \<Rightarrow> g a s)"
  by (cases x) auto

lemma ends_run_then: "(\<And>x'. waits_or_ends (\<lambda>s. k s x')) \<Longrightarrow> waits_or_ends (\<lambda>s. run_then as x (k s))"
  by (cases "op_run as x") (auto simp: run_then_def)

lemma run_manager_ends: "waits_or_ends (\<lambda>s. run_manager V s acts1 acts2 x)"
  unfolding run_manager_def
proof (rule ends_run_then)
  fix x1
  have "waits_or_ends (\<lambda>s. case initialize_controller V x1 of
        Panic m \<Rightarrow> OpPanic m
      | Ret (Some err, x2) \<Rightarrow> return_stop x2 (Some (Wrap ''main'' err))
      | Ret (None, x2) \<Rightarrow> run_then acts2 x2 (await_manager s))"
    by (cases "initialize_controller V x1") (auto split: prod.splits intro!: ends_option ends_run_then)
  then show "waits_or_ends (\<lambda>s. if \<not> mgr_WaitForCacheSync V then return_stop x1 (Some (Err ''failed to sync cache''))
      else (case initialize_controller V x1 of
            Panic m \<Rightarrow> OpPanic m
          | Ret (Some err, x2) \<Rightarrow> return_stop x2 (Some (Wrap ''main'' err))
          | Ret (None, x2) \<Rightarrow> run_then acts2 x2 (await_manager s)))"
    by (cases "mgr_WaitForCacheSync V") auto
qed

lemma run_operator_ends: "waits_or_ends (\<lambda>s. run_operator V s acts0 acts1 acts2 x)"
  unfolding run_operator_def
  by (intro ends_run_then ends_sum ends_option ends run_manager_ends)

lemma main_ends: "waits_or_ends (\<lambda>s. mainWithError V s acts0 acts1 acts2 c)"
  unfolding mainWithError_def Let_def by (intro ends_sum ends_option ends run_operator_ends)

section \<open>The state in which main returns\<close>

definition good_outcome :: "('c \<Rightarrow> Cluster) \<Rightarrow> 'c op_outcome \<Rightarrow> bool" where
  "good_outcome view res =
     (case res of OpReturned e (Some im) \<Rightarrow> e \<noteq> None \<and> informers im = [] \<and> healthCheckStopped im
      | OpBlocked x \<Rightarrow> r_good view (op_rec x) | _ \<Rightarrow> True)"

lemma good_return_stop: "r_good view (op_rec x) \<Longrightarrow> good_outcome view (return_stop x (Some e))"
  using Stop_ok [of "InformerManager (op_rec x)"]
  by (auto simp: good_outcome_def return_stop_def r_good_def r_inv_def)

lemma good_await: "r_good view (op_rec x) \<Longrightarrow> good_outcome view (await_manager s x)"
  using good_return_stop by (auto simp: await_manager_def good_outcome_def split: option.splits)

context api_server
begin

lemma good_run_then:
  assumes "r_good view (op_rec x)" "list_all (uses_client K) as"
    and "\<And>x'. r_good view (op_rec x') \<Longrightarrow> good_outcome view (k x')"
  shows "good_outcome view (run_then as x k)"
  using run_kept [OF assms(1,2)] r_kept_good assms(3)
  by (cases "op_run as x") (auto simp: run_then_def good_outcome_def [of _ "OpPanic _"])

lemma good_initialize:
  assumes "client (init_Env V) = K" "r_good view (op_rec x)" "initialize_controller V x = Ret (e, x')"
  shows "r_good view (op_rec x')"
proof -
  obtain e1 r where r: "Initialize (init_Env V) (init_handlerErr V) (init_synced V) (watchNamespace (flag_Parse V)) (op_rec x) =
      Ret (e1, r)" "op_rec x' = r"
    using assms(3) by (auto simp: initialize_controller_def split: go.splits option.splits prod.splits)
  with Initialize_kept [OF assms(1,2)] r_kept_good show ?thesis by blast
qed

lemma good_run_manager:
  assumes "client (init_Env V) = K" "r_good view (op_rec x)"
    "list_all (uses_client K) acts1" "list_all (uses_client K) acts2"
  shows "good_outcome view (run_manager V s acts1 acts2 x)"
  unfolding run_manager_def
proof (rule good_run_then [OF assms(2,3)])
  fix x1 :: "'c Operator" assume g: "r_good view (op_rec x1)"
  have "good_outcome view (case initialize_controller V x1 of
        Panic m \<Rightarrow> OpPanic m
      | Ret (Some err, x2) \<Rightarrow> return_stop x2 (Some (Wrap ''main'' err))
      | Ret (None, x2) \<Rightarrow> run_then acts2 x2 (await_manager s))"
  proof (cases "initialize_controller V x1")
    case (Panic m)
    then show ?thesis by (simp add: good_outcome_def)
  next
    case (Ret p)
    obtain e x2 where p: "p = (e, x2)" by (cases p)
    have "r_good view (op_rec x2)" using good_initialize [OF assms(1) g] Ret p by blast
    with Ret p show ?thesis
      by (cases e) (auto intro: good_return_stop good_run_then [OF _ assms(4)] good_await)
  qed
  with good_return_stop [OF g] show "good_outcome view (if \<not> mgr_WaitForCacheSync V
      then return_stop x1 (Some (Err ''failed to sync cache''))
      else (case initialize_controller V x1 of
            Panic m \<Rightarrow> OpPanic m
          | Ret (Some err, x2) \<Rightarrow> return_stop x2 (Some (Wrap ''main'' err))
          | Ret (None, x2) \<Rightarrow> run_then acts2 x2 (await_manager s)))" by simp
qed

lemma good_main:
  assumes "client (init_Env V) = K" "wf_cluster (view c)"
    "list_all (uses_client K) (acts0 @ acts1 @ acts2)"
  shows "good_outcome view (mainWithError V s acts0 acts1 acts2 c)"
proof -
  have "good_outcome view (run_operator V s acts0 acts1 acts2 (start_operator c))"
    unfolding run_operator_def
  proof (rule good_run_then)
    show "r_good view (op_rec (start_operator c))" by (rule reach_good [OF op_reach.start]) (rule assms(2))
    show "list_all (uses_client K) acts0" using assms(3) by simp
    fix x0 :: "'c Operator" assume g: "r_good view (op_rec x0)"
    have "good_outcome view (run_manager V s acts1 acts2 x0)"
      using good_run_manager [OF assms(1) g] assms(3) by simp
    with good_return_stop [OF g] show "good_outcome view (case NewScaleHandler (scale_kErr V) (scale_dynErr V) (watchNamespace (flag_Parse V)) of
         Inl err \<Rightarrow> OpFatal err
       | Inr scaleHandler \<Rightarrow>
           (case SetupWithManager (builder_Complete V) of
              Some err \<Rightarrow> return_stop x0 (Some (Wrap ''main'' err))
            | None \<Rightarrow>
                (case server_Err V of
                   Some err \<Rightarrow> return_stop x0 (Some (Wrap ''main'' (Wrap ''elasti server'' err)))
                 | None \<Rightarrow>
                     (case AddHealthzCheck V of
                        Some err \<Rightarrow> return_stop x0 (Some (Wrap ''main'' err))
                      | None \<Rightarrow>
                          (case AddReadyzCheck V of
                             Some err \<Rightarrow> return_stop x0 (Some (Wrap ''main'' err))
                           | None \<Rightarrow> run_manager V s acts1 acts2 x0)))))"
      by (auto simp: good_outcome_def [of _ "OpFatal _"] split: sum.splits option.splits)
  qed
  then show ?thesis
    by (auto simp: mainWithError_def Let_def good_outcome_def [of _ "OpFatal _"] good_outcome_def [of _ "OpPanic _"]
        good_outcome_def [of _ "OpReturned _ None"] split: sum.splits option.splits)
qed

end

section \<open>Properties\<close>


definition example_op_env :: "(unit, Cluster) op_env" where
  "example_op_env =
     \<lparr>SENTRY_DSN = '''', flag_Parse = default_flags, op_zap = example_zap, ctrl_NewManager = (\<lambda>opts. None),
      informer_client_Err = None, scale_kErr = None, scale_dynErr = None, builder_Complete = None,
      server_Err = None, AddHealthzCheck = None, AddReadyzCheck = None, mgr_WaitForCacheSync = True,
      init_Env = E0, init_handlerErr = None, init_synced = True, time_ParseDuration = (\<lambda>s. Inl Canceled),
      POLLING_VARIABLE = ''''\<rparr>"

lemma example_op_env_sel [simp]:
  "ctrl_NewManager example_op_env opts = None" "informer_client_Err example_op_env = None"
  "scale_kErr example_op_env = None" "scale_dynErr example_op_env = None" "builder_Complete example_op_env = None"
  "server_Err example_op_env = None" "AddHealthzCheck example_op_env = None" "AddReadyzCheck example_op_env = None"
  "mgr_WaitForCacheSync example_op_env" "init_Env example_op_env = E0"
  "NewLogger (op_zap example_op_env) ''dev'' b = Inr (if b then CustomCore () else Core ())"
  by (simp_all add: example_op_env_def NewLogger_def example_zap_def Let_def)

lemma example_initialize:
  "\<exists>x. initialize_controller example_op_env (start_operator (example_objects example_es)) = Ret (None, x)"
proof -
  obtain r where r: "Reconcile E0 example_req (example_reconciler example_es) = Ret (None, r)"
    using example_reconciled by blast
  have l: "list_es (client E0) (cluster (example_reconciler example_es)) '''' = Inr [example_es]"
    by (simp add: E0_def memory_client_def example_reconciler_def example_objects_def empty_cluster_def
        List.map_filter_simps)
  have q: "\<lparr>ReqNamespace = ES_Namespace example_es, ReqName = ES_Name example_es\<rparr> = example_req"
    "DeletionTimestamp example_es = None"
    by (simp_all add: example_req_def example_es_def)
  have "reconcileExistingCRDs E0 '''' (example_reconciler example_es) = Ret (None, r)"
    using l r q by (simp add: reconcileExistingCRDs_def)
  then show ?thesis
    by (simp add: initialize_controller_def example_op_env_def default_flags_def example_start Initialize_def
        InitializeResolverInformer_def Let_def StartScaleDownWatcher_def pollingInterval_def NewTicker_def
        time_Second_def)
qed

lemma example_main:
  "\<exists>x. \<forall>s. mainWithError example_op_env s [] [] [] (example_objects example_es) = await_manager s x"
proof -
  obtain x where x: "initialize_controller example_op_env (start_operator (example_objects example_es)) = Ret (None, x)"
    using example_initialize by blast
  have "mainWithError example_op_env s [] [] [] (example_objects example_es) = await_manager s x" for s
    using x by (simp add: mainWithError_def run_operator_def run_manager_def run_then_def SetupWithManager_def
        NewScaleHandler_def Let_def)
  then show ?thesis by blast
qed


text \<open>C38: \<open>main\<close> never returns without an error. In particular, if it waits for the manager and the manager
  ends without an error, as it does on a signal, \<open>main\<close> goes on waiting: nothing is sent on the channel, the
  informers are not stopped and the process does not exit. Only an error of the manager ends the wait.\<close>

theorem clean_shutdown_hangs:
  assumes "mainWithError V None acts0 acts1 acts2 c = OpBlocked x"
  shows "mainWithError V (Some None) acts0 acts1 acts2 c = OpBlocked x \<and>
    op_main (mainWithError V (Some None) acts0 acts1 acts2 c) = None \<and>
    mainWithError V (Some (Some err)) acts0 acts1 acts2 c =
      return_stop x (Some (Wrap ''main'' (Wrap ''manager'' err))) \<and>
    op_main (mainWithError V started acts0 acts1 acts2 c) \<noteq> Some 0"
proof -
  obtain y where y: "mainWithError V s acts0 acts1 acts2 c = await_manager s y" for s
    using main_ends [of V acts0 acts1 acts2 c] assms unfolding waits_or_ends_def by metis
  have "y = x" using assms y [of None] by (simp add: await_manager_def)
  then show ?thesis
    unfolding y by (auto simp: await_manager_def op_main_def return_stop_def split: option.splits go.splits)
qed

theorem clean_shutdown_hangs_witness:
  "\<exists>x. mainWithError example_op_env None [] [] [] (example_objects example_es) = OpBlocked x \<and>
     mainWithError example_op_env (Some None) [] [] [] (example_objects example_es) = OpBlocked x"
proof -
  obtain x where "mainWithError example_op_env s [] [] [] (example_objects example_es) = await_manager s x" for s
    using example_main by blast
  then have "mainWithError example_op_env None [] [] [] (example_objects example_es) = OpBlocked x"
    by (simp add: await_manager_def)
  with clean_shutdown_hangs [OF this] show ?thesis by blast
qed

lemma main_never_exits_cleanly: "op_main (mainWithError V started acts0 acts1 acts2 c) \<noteq> Some 0"
proof -
  have "mainWithError V started acts0 acts1 acts2 c \<noteq> OpReturned None im" for im
    using main_ends [of V acts0 acts1 acts2 c] await_not_nil unfolding waits_or_ends_def by metis
  then show ?thesis by (auto simp: op_main_def split: op_outcome.splits option.splits)
qed

text \<open>A logger that cannot be made ends the operator with a nil dereference as soon as it is used.\<close>

lemma nil_logger_panics:
  assumes "NewLogger (op_zap V) ''dev'' (SENTRY_DSN V \<noteq> '''') = Inl err" "ctrl_NewManager V (manager_Options (flag_Parse V)) = None"
  shows "op_main (mainWithError V started acts0 acts1 acts2 c) = Some 2"
  using assms by (simp add: mainWithError_def op_main_def)

end
