(* ===== verification/Metrics.thy ===== *)
theory Metrics
  imports Handler ElastiServer Controller
begin

text \<open>
  The metrics of both programs: the vectors \<open>prom.go\<close> declares, and for each operation that updates some
  the calls it makes on them, as a list in the order of the calls. The texts of errors and status codes
  are parameters. The lemmas say that every call gives as many values as its vector has labels, which is
  what \<open>WithLabelValues\<close> asks for (it panics otherwise), and what the gauges show: requests in the queue and
  traffic that is switched off are counted exactly, running informers are not.
\<close>

section \<open>The vectors\<close>

text \<open>The bounds of the buckets of a histogram are in tenths of a second.\<close>

datatype vec_kind = CounterVec | GaugeVec | HistogramVec "int list"

record metric_vec =
  vec_Kind :: vec_kind
  vec_Name :: string
  vec_Help :: string
  vec_Labels :: "string list"

subsection \<open>resolver/internal/prom/prom.go\<close>

definition HostExtractionCounter :: metric_vec where
  "HostExtractionCounter = \<lparr>vec_Kind = CounterVec, vec_Name = ''elasti_resolver_host_extraction_count'',
     vec_Help = ''Counter for host extraction'',
     vec_Labels = [''extractionType'', ''source'', ''hostHeader'', ''error'']\<rparr>"

definition QueuedRequestGauge :: metric_vec where
  "QueuedRequestGauge = \<lparr>vec_Kind = GaugeVec, vec_Name = ''elasti_resolver_queued_count'',
     vec_Help = ''Gauge for queued requests'',
     vec_Labels = [''source'', ''namespace'']\<rparr>"

definition IncomingRequestHistogram :: metric_vec where
  "IncomingRequestHistogram = \<lparr>vec_Kind = HistogramVec [1, 5, 10, 20, 50, 100], vec_Name = ''elasti_resolver_incoming_requests'',
     vec_Help = ''Histogram of response latency (seconds) for every request resolved'',
     vec_Labels = [''source'', ''target'', ''sourceHost'', ''targetHost'', ''namespace'', ''method'',
       ''requestURI'', ''status'', ''error'']\<rparr>"

definition TrafficSwitchCounter :: metric_vec where
  "TrafficSwitchCounter = \<lparr>vec_Kind = CounterVec, vec_Name = ''elasti_resolver_traffic_switch_count'',
     vec_Help = ''Counter for traffic switch'',
     vec_Labels = [''source'', ''enabled'']\<rparr>"

definition OperatorRPCCounter :: metric_vec where
  "OperatorRPCCounter = \<lparr>vec_Kind = CounterVec, vec_Name = ''elasti_resolver_operator_rpc_count'',
     vec_Help = ''Counter for operator RPC'',
     vec_Labels = [''error'']\<rparr>"

subsection \<open>operator/internal/prom/prom.go\<close>

definition CRDReconcileHistogram :: metric_vec where
  "CRDReconcileHistogram = \<lparr>vec_Kind = HistogramVec [1, 5, 10, 20, 50, 100], vec_Name = ''elasti_operator_reconcile'',
     vec_Help = ''Tracks the number of active elasti service'',
     vec_Labels = [''crd_name'', ''error'']\<rparr>"

definition CRDFinalizerCounter :: metric_vec where
  "CRDFinalizerCounter = \<lparr>vec_Kind = CounterVec, vec_Name = ''elasti_operator_CRD_finalizer_counter'',
     vec_Help = ''Counter for CRD finalizer'',
     vec_Labels = [''crd_name'', ''error'']\<rparr>"

definition CRDUpdateCounter :: metric_vec where
  "CRDUpdateCounter = \<lparr>vec_Kind = CounterVec, vec_Name = ''elasti_operator_CRD_update_counter'',
     vec_Help = ''Counter for CRD updates'',
     vec_Labels = [''crd_name'', ''mode'', ''error'']\<rparr>"

definition ModeGauge :: metric_vec where
  "ModeGauge = \<lparr>vec_Kind = GaugeVec, vec_Name = ''elasti_operator_mode'',
     vec_Help = ''Gauge for mode'',
     vec_Labels = [''crd_name'']\<rparr>"

definition InformerGauge :: metric_vec where
  "InformerGauge = \<lparr>vec_Kind = GaugeVec, vec_Name = ''elasti_operator_informer_count'',
     vec_Help = ''Gauge for informer count'',
     vec_Labels = [''informer_name'']\<rparr>"

definition InformerCounter :: metric_vec where
  "InformerCounter = \<lparr>vec_Kind = CounterVec, vec_Name = ''elasti_operator_informer_counter'',
     vec_Help = ''Counter for informer'',
     vec_Labels = [''crd_name'', ''action'', ''error'']\<rparr>"

definition InformerHandlerCounter :: metric_vec where
  "InformerHandlerCounter = \<lparr>vec_Kind = CounterVec, vec_Name = ''elasti_operator_informer_handler_counter'',
     vec_Help = ''Counter for informer handler'',
     vec_Labels = [''crd_name'', ''key'', ''error'']\<rparr>"

definition TargetScaleCounter :: metric_vec where
  "TargetScaleCounter = \<lparr>vec_Kind = CounterVec, vec_Name = ''elasti_operator_scale_counter'',
     vec_Help = ''Scale counter for target'',
     vec_Labels = [''service_name'', ''namespace'', ''target'', ''error'']\<rparr>"

lemmas vec_defs = HostExtractionCounter_def QueuedRequestGauge_def IncomingRequestHistogram_def
  TrafficSwitchCounter_def OperatorRPCCounter_def CRDReconcileHistogram_def CRDFinalizerCounter_def
  CRDUpdateCounter_def ModeGauge_def InformerGauge_def InformerCounter_def InformerHandlerCounter_def
  TargetScaleCounter_def

section \<open>Calls\<close>

datatype metric_op = Inc | Dec | Set int | Observe int

type_synonym metric_call = "metric_vec \<times> string list \<times> metric_op"

definition well_labelled :: "metric_call \<Rightarrow> bool" where
  "well_labelled = (\<lambda>(v, ls, x). length ls = length (vec_Labels v))"

text \<open>The value a gauge has after calls, from the value it had before.\<close>

fun gauge_after :: "metric_vec \<Rightarrow> string list \<Rightarrow> metric_call list \<Rightarrow> int \<Rightarrow> int" where
  "gauge_after v ls [] x = x"
| "gauge_after v ls ((v', ls', f) # cs) x =
     gauge_after v ls cs
       (if v' = v \<and> ls' = ls
        then (case f of Inc \<Rightarrow> x + 1 | Dec \<Rightarrow> x - 1 | Set n \<Rightarrow> n | Observe n \<Rightarrow> x)
        else x)"

lemma gauge_after_append [simp]: "gauge_after v ls (cs @ ds) x = gauge_after v ls ds (gauge_after v ls cs x)"
  by (induction v ls cs x rule: gauge_after.induct) simp_all

text \<open>The label of an error: \<open>success\<close> when there is none.\<close>

definition errStr :: "(goerr \<Rightarrow> string) \<Rightarrow> goerr option \<Rightarrow> string" where
  "errStr tx e = (case e of None \<Rightarrow> Success | Some err \<Rightarrow> tx err)"

section \<open>The resolver\<close>

definition GetHost_calls :: "(goerr \<Rightarrow> string) \<Rightarrow> HostManager \<Rightarrow> Request \<Rightarrow> metric_call list" where
  "GetHost_calls tx hm req =
     (case incomingHost_of hm req of
        Panic m \<Rightarrow> []
      | Ret incomingHost \<Rightarrow>
          (case hosts hm incomingHost of
             Some host \<Rightarrow> [(HostExtractionCounter, [''cache-hit'', incomingHost, headerForHost hm, ''''], Inc)]
           | None \<Rightarrow>
               (case extractNamespaceAndService incomingHost of
                  (sourceService, namespace, Some err) \<Rightarrow>
                    [(HostExtractionCounter, [''error'', incomingHost, headerForHost hm, tx err], Inc)]
                | (sourceService, namespace, None) \<Rightarrow>
                    [(HostExtractionCounter, [''cache-miss'', incomingHost, headerForHost hm, ''''], Inc)])))"

definition DisableTraffic_calls :: "HostManager \<Rightarrow> string \<Rightarrow> metric_call list" where
  "DisableTraffic_calls hm hostName =
     (case hosts hm hostName of
        None \<Rightarrow> []
      | Some host \<Rightarrow>
          if TrafficAllowed host then [(TrafficSwitchCounter, [hostName, ''disabled''], Inc)] else [])"

definition enableTraffic_calls :: "HostManager \<Rightarrow> string \<Rightarrow> metric_call list" where
  "enableTraffic_calls hm hostName =
     (case hosts hm hostName of
        None \<Rightarrow> []
      | Some host \<Rightarrow>
          if \<not> TrafficAllowed host then [(TrafficSwitchCounter, [hostName, ''enabled''], Inc)] else [])"

text \<open>
  \<open>handleAnyRequest\<close> enters the queue once it has a host and leaves it when it returns or panics;
  \<open>ServeHTTP\<close> observes the request when it has returned.
\<close>

definition handle_enter_calls :: "(Host \<times> goerr option \<times> 'm) go \<Rightarrow> metric_call list" where
  "handle_enter_calls got =
     (case got of
        Ret (host, None, m) \<Rightarrow> [(QueuedRequestGauge, [SourceService host, Namespace host], Inc)]
      | _ \<Rightarrow> [])"

definition handle_exit_calls :: "(Host \<times> goerr option \<times> 'm) go \<Rightarrow> metric_call list" where
  "handle_exit_calls got =
     (case got of
        Ret (host, None, m) \<Rightarrow> [(QueuedRequestGauge, [SourceService host, Namespace host], Dec)]
      | _ \<Rightarrow> [])"

definition ServeHTTP_calls ::
  "(goerr \<Rightarrow> string) \<Rightarrow> (int \<Rightarrow> string) \<Rightarrow> string \<Rightarrow> Request \<Rightarrow> int \<Rightarrow>
   (Host \<times> goerr option \<times> responseWriter \<times> 'h) go \<Rightarrow> metric_call list" where
  "ServeHTTP_calls tx StatusText reqMethod req duration handled =
     (case handled of
        Panic p \<Rightarrow> []
      | Ret (host, err, customWriter, h) \<Rightarrow>
          [(IncomingRequestHistogram,
            [SourceService host, TargetService host, SourceHost host, TargetHost host, Namespace host,
             reqMethod, Req_RequestURI req, StatusText (statusCode customWriter),
             (case err of None \<Rightarrow> '''' | Some e \<Rightarrow> tx e)], Observe duration)])"

text \<open>A call of the operator: its answer, and then an error of closing the body.\<close>

definition rpc_calls :: "(goerr \<Rightarrow> string) \<Rightarrow> (int \<Rightarrow> string) \<Rightarrow> rpc_answer \<Rightarrow> goerr option \<Rightarrow> metric_call list" where
  "rpc_calls tx Itoa answer closeErr =
     (case answer of
        DoError err \<Rightarrow> [(OperatorRPCCounter, [tx err], Inc)]
      | StatusCode c \<Rightarrow>
          [(OperatorRPCCounter, [if c \<noteq> 200 then Itoa c else ''''], Inc)] @
          (case closeErr of None \<Rightarrow> [] | Some err \<Rightarrow> [(OperatorRPCCounter, [tx err], Inc)]))"

section \<open>The operator\<close>

text \<open>The deferred count of \<open>StopInformer\<close> also runs when closing the channel panics.\<close>

definition StopInformer_calls :: "(goerr \<Rightarrow> string) \<Rightarrow> Manager \<Rightarrow> string \<Rightarrow> metric_call list" where
  "StopInformer_calls tx m key =
     (case StopInformer m key of
        Panic p \<Rightarrow> [(InformerCounter, [key, ''stop'', Success], Inc)]
      | Ret (None, m') \<Rightarrow> [(InformerGauge, [key], Dec), (InformerCounter, [key, ''stop'', Success], Inc)]
      | Ret (Some err, m') \<Rightarrow> [(InformerCounter, [key, ''stop'', tx err], Inc)])"

definition Add_calls :: "(goerr \<Rightarrow> string) \<Rightarrow> informer_env \<Rightarrow> Manager \<Rightarrow> RequestWatch \<Rightarrow> metric_call list" where
  "Add_calls tx env m req =
     (let key = getKeyFromRequestWatch req; err = fst (Add env m req)
      in (if map_of (informers m) key = None \<and> err = None then [(InformerGauge, [key], Inc)] else []) @
         [(InformerCounter, [key, ''add'', errStr tx err], Inc)])"

fun stop_matching_calls :: "(goerr \<Rightarrow> string) \<Rightarrow> string \<Rightarrow> (string \<times> info) list \<Rightarrow> Manager \<Rightarrow> metric_call list" where
  "stop_matching_calls tx crdName [] m = []"
| "stop_matching_calls tx crdName ((key, i) # entries) m =
     (case slice_to key (length crdName) of
        Panic p \<Rightarrow> []
      | Ret prefix \<Rightarrow>
          if prefix = crdName then
            StopInformer_calls tx m (getKeyFromRequestWatch (info_Req i)) @
            (case StopInformer m (getKeyFromRequestWatch (info_Req i)) of
               Panic p \<Rightarrow> []
             | Ret (err, m') \<Rightarrow> stop_matching_calls tx crdName entries m')
          else stop_matching_calls tx crdName entries m)"

text \<open>The restart of an informer is not counted as an addition.\<close>

fun restart_calls :: "(goerr \<Rightarrow> string) \<Rightarrow> informer_env \<Rightarrow> (string \<times> info) list \<Rightarrow> Manager \<Rightarrow> metric_call list" where
  "restart_calls tx env [] m = []"
| "restart_calls tx env ((key, i) # entries) m =
     (if \<not> ie_HasSynced env (StopCh i) then
        StopInformer_calls tx m (getKeyFromRequestWatch (info_Req i)) @
        (case StopInformer m (getKeyFromRequestWatch (info_Req i)) of
           Panic p \<Rightarrow> []
         | Ret (err, m1) \<Rightarrow> restart_calls tx env entries (snd (enableInformer env m1 (info_Req i))))
      else restart_calls tx env entries m)"

definition updateCRDStatus_calls ::
  "(goerr \<Rightarrow> string) \<Rightarrow> string \<Rightarrow> string \<Rightarrow> string \<Rightarrow> goerr option \<Rightarrow> metric_call list" where
  "updateCRDStatus_calls tx ns n mode err =
     [(CRDUpdateCounter, [nn_String ns n, mode, errStr tx err], Inc),
      (ModeGauge, [nn_String ns n], Set (if mode = ProxyMode then 1 else 0))]"

definition finalizeCRDIfDeleted_calls ::
  "(goerr \<Rightarrow> string) \<Rightarrow> ElastiService \<Rightarrow> Req \<Rightarrow> goerr option \<Rightarrow> metric_call list" where
  "finalizeCRDIfDeleted_calls tx es req err =
     (if DeletionTimestamp es \<noteq> None then [(CRDFinalizerCounter, [req_String req, errStr tx err], Inc)] else [])"

definition Reconcile_calls :: "(goerr \<Rightarrow> string) \<Rightarrow> Req \<Rightarrow> goerr option \<Rightarrow> int \<Rightarrow> metric_call list" where
  "Reconcile_calls tx req err duration = [(CRDReconcileHistogram, [req_String req, errStr tx err], Observe duration)]"

text \<open>
  The handlers of the informers. The key of the public service has the namespace of the resolver in it, and
  the key of the target has kind and name exchanged: neither is the key of the informer.
\<close>

definition resolverNamespace :: string where "resolverNamespace = ''elasti''"

definition public_service_calls ::
  "(goerr \<Rightarrow> string) \<Rightarrow> ElastiService \<Rightarrow> Req \<Rightarrow> goerr option \<Rightarrow> metric_call list" where
  "public_service_calls tx es req err =
     [(InformerHandlerCounter,
       [req_String req,
        GetKey \<lparr>KP_Namespace = resolverNamespace, KP_CRDName = ReqName req,
                KP_Resource = KindService, KP_ResourceName = SpecService (Spec es)\<rparr>,
        errStr tx err], Inc)]"

definition scale_target_calls ::
  "(goerr \<Rightarrow> string) \<Rightarrow> ElastiService \<Rightarrow> Req \<Rightarrow> goerr option \<Rightarrow> metric_call list" where
  "scale_target_calls tx es req err =
     [(InformerHandlerCounter,
       [req_String req,
        GetKey \<lparr>KP_Namespace = ReqNamespace req, KP_CRDName = ReqName req,
                KP_Resource = TargetRefName (TargetRef (Spec es)),
                KP_ResourceName = Kind (TargetRef (Spec es))\<rparr>,
        errStr tx err], Inc)]"

text \<open>\<open>scaleTargetForService\<close>, once \<open>ScaleTargetFromZero\<close> has been called.\<close>

definition scaleTargetForService_calls ::
  "(goerr \<Rightarrow> string) \<Rightarrow> string \<Rightarrow> string \<Rightarrow> CRDDetails \<Rightarrow> goerr option \<Rightarrow> metric_call list" where
  "scaleTargetForService_calls tx serviceName namespace crd err =
     [(TargetScaleCounter,
       [serviceName, namespace,
        Kind (TargetRef (CRDSpec crd)) @ ''-'' @ TargetRefName (TargetRef (CRDSpec crd)), errStr tx err], Inc)]"

section \<open>Lemmas\<close>

text \<open>Every call gives its vector as many values as it has labels.\<close>

lemma well_labelled_stop: "list_all well_labelled (StopInformer_calls tx m key)"
  by (simp add: StopInformer_calls_def well_labelled_def vec_defs split: go.splits option.splits prod.splits)

lemma well_labelled_stop_matching: "list_all well_labelled (stop_matching_calls tx crdName entries m)"
  by (induction tx crdName entries m rule: stop_matching_calls.induct)
    (simp_all add: well_labelled_stop split: go.splits)

lemma well_labelled_restart: "list_all well_labelled (restart_calls tx env entries m)"
  by (induction tx env entries m rule: restart_calls.induct) (simp_all add: well_labelled_stop split: go.splits)

lemma resolver_calls_labelled:
  "list_all well_labelled (GetHost_calls tx hm req)"
  "list_all well_labelled (DisableTraffic_calls hm hostName)"
  "list_all well_labelled (enableTraffic_calls hm hostName)"
  "list_all well_labelled (handle_enter_calls got)"
  "list_all well_labelled (handle_exit_calls got)"
  "list_all well_labelled (ServeHTTP_calls tx StatusText reqMethod req duration handled)"
  "list_all well_labelled (rpc_calls tx Itoa answer closeErr)"
  by (simp_all add: GetHost_calls_def DisableTraffic_calls_def enableTraffic_calls_def handle_enter_calls_def
      handle_exit_calls_def ServeHTTP_calls_def rpc_calls_def well_labelled_def vec_defs
      split: go.splits option.splits prod.splits rpc_answer.splits)

lemma operator_calls_labelled:
  "list_all well_labelled (Add_calls tx env m req)"
  "list_all well_labelled (updateCRDStatus_calls tx ns n mode err)"
  "list_all well_labelled (finalizeCRDIfDeleted_calls tx es req' err)"
  "list_all well_labelled (Reconcile_calls tx req' err duration)"
  "list_all well_labelled (public_service_calls tx es req' err)"
  "list_all well_labelled (scale_target_calls tx es req' err)"
  "list_all well_labelled (scaleTargetForService_calls tx svc ns crd err)"
  by (simp_all add: Add_calls_def updateCRDStatus_calls_def finalizeCRDIfDeleted_calls_def Reconcile_calls_def
      public_service_calls_def scale_target_calls_def scaleTargetForService_calls_def well_labelled_def vec_defs
      Let_def)

text \<open>The names within each program are distinct, so that registering the vectors does not panic.\<close>

lemma vec_names_distinct:
  "distinct (map vec_Name [HostExtractionCounter, QueuedRequestGauge, IncomingRequestHistogram,
     TrafficSwitchCounter, OperatorRPCCounter])"
  "distinct (map vec_Name [CRDReconcileHistogram, CRDFinalizerCounter, CRDUpdateCounter, ModeGauge,
     InformerGauge, InformerCounter, InformerHandlerCounter, TargetScaleCounter])"
  by (simp_all add: vec_defs)

text \<open>The switches of traffic that were counted differ by one exactly while the traffic is off.\<close>

lemma traffic_switches_counted:
  "gauge_after TrafficSwitchCounter [k, ''disabled''] (DisableTraffic_calls hm hostName) x =
     x + of_bool (switched_off (DisableTrafficForHost now hm hostName) k) - of_bool (switched_off hm k)"
  "gauge_after TrafficSwitchCounter [k, ''enabled''] (enableTraffic_calls hm hostName) x =
     x + of_bool (switched_off hm k) - of_bool (switched_off (enableTrafficForHost hm hostName) k)"
  by (auto simp: DisableTraffic_calls_def enableTraffic_calls_def DisableTrafficForHost_def enableTrafficForHost_def
      switched_off_def split: option.splits)

lemma queue_gauge_balanced:
  "gauge_after QueuedRequestGauge ls (handle_exit_calls got) (gauge_after QueuedRequestGauge ls (handle_enter_calls got) x) = x"
  by (auto simp: handle_enter_calls_def handle_exit_calls_def split: go.splits option.splits prod.splits)

lemma mode_gauge:
  "gauge_after ModeGauge [nn_String ns n] (updateCRDStatus_calls tx ns n mode err) x = of_bool (mode = ProxyMode)"
  by (simp add: updateCRDStatus_calls_def vec_defs)

section \<open>The gauge of the informers\<close>

text \<open>
  The runs of the informer manager with the calls on the metrics. \<open>lost\<close> are the starts of an informer that
  were not counted: those of the health check, and those whose cache did not sync.
\<close>

definition stored :: "informer_env \<Rightarrow> RequestWatch \<Rightarrow> bool" where
  "stored env req = (ie_AddEventHandler env req = None)"

definition Add_lost :: "informer_env \<Rightarrow> Manager \<Rightarrow> RequestWatch \<Rightarrow> string list" where
  "Add_lost env m req =
     (let key = getKeyFromRequestWatch req
      in if \<not> running m key \<and> running (snd (Add env m req)) key \<and> fst (Add env m req) \<noteq> None then [key] else [])"

fun restart_lost :: "informer_env \<Rightarrow> (string \<times> info) list \<Rightarrow> Manager \<Rightarrow> string list" where
  "restart_lost env [] m = []"
| "restart_lost env ((key, i) # entries) m =
     (if \<not> ie_HasSynced env (StopCh i) then
        (if stored env (info_Req i) then [getKeyFromRequestWatch (info_Req i)] else []) @
        (case StopInformer m (getKeyFromRequestWatch (info_Req i)) of
           Panic p \<Rightarrow> []
         | Ret (err, m1) \<Rightarrow> restart_lost env entries (snd (enableInformer env m1 (info_Req i))))
      else restart_lost env entries m)"

inductive metered :: "(goerr \<Rightarrow> string) \<Rightarrow> Manager \<Rightarrow> metric_call list \<Rightarrow> string list \<Rightarrow> bool" for tx where
  new: "metered tx NewInformerManager [] []"
| add: "metered tx m cs lost \<Longrightarrow>
    metered tx (snd (Add env m req)) (cs @ Add_calls tx env m req) (lost @ Add_lost env m req)"
| stop: "metered tx m cs lost \<Longrightarrow> StopInformer m k = Ret (e, m') \<Longrightarrow>
    metered tx m' (cs @ StopInformer_calls tx m k) lost"
| stop_crd: "metered tx m cs lost \<Longrightarrow> StopForCRD m crdName = Ret m' \<Longrightarrow>
    metered tx m' (cs @ stop_matching_calls tx crdName (informers m) m) lost"
| monitor: "metered tx m cs lost \<Longrightarrow> monitorInformers env m = Ret m' \<Longrightarrow>
    metered tx m' (cs @ restart_calls tx env (informers m) m) (lost @ restart_lost env (informers m) m)"

lemma gauge_other [simp]: "InformerCounter \<noteq> InformerGauge"
  by (simp add: vec_defs)

lemma gauge_stop:
  assumes "StopInformer m k = Ret (e, m')"
  shows "gauge_after InformerGauge [key] (StopInformer_calls tx m k) x =
    x + of_bool (running m' key) - of_bool (running m key)"
  using assms im.stop_gone [OF assms, of key]
  by (auto simp: StopInformer_calls_def StopInformer_def running_def split: option.splits if_splits)

lemma gauge_add:
  "gauge_after InformerGauge [key] (Add_calls tx env m req) x =
     x + of_bool (running (snd (Add env m req)) key) - of_bool (running m key) - count_list (Add_lost env m req) key"
proof -
  obtain e m' where a: "Add env m req = (e, m')" by fastforce
  show ?thesis
  proof (cases "key = getKeyFromRequestWatch req")
    case False
    with im.add_other [OF a False] a show ?thesis by (auto simp: Add_calls_def Add_lost_def Let_def)
  next
    case True
    have "running m key \<Longrightarrow> e = None \<and> m' = m" using im.add_again [of m req env] a True by auto
    moreover have "e = None \<Longrightarrow> running m' key" using im.add_ok a True by blast
    moreover have "map_of (informers m) key = None \<longleftrightarrow> \<not> running m key" by (simp add: running_def)
    ultimately show ?thesis using a True by (cases "running m key") (auto simp: Add_calls_def Add_lost_def Let_def)
  qed
qed

lemma running_enable_iff:
  "running (snd (enableInformer env m req)) key = (running m key \<or> stored env req \<and> key = getKeyFromRequestWatch req)"
  by (auto simp: enableInformer_def running_def stored_def Let_def split: option.splits)

lemma gauge_restart:
  assumes "restart_unsynced env entries m = Ret m'"
  shows "gauge_after InformerGauge [key] (restart_calls tx env entries m) x =
    x + of_bool (running m' key) - of_bool (running m key) - count_list (restart_lost env entries m) key"
  using assms
proof (induction tx env entries m arbitrary: x rule: restart_calls.induct)
  case (1 tx env m)
  then show ?case by simp
next
  case (2 tx env k i entries m)
  show ?case
  proof (cases "ie_HasSynced env (StopCh i)")
    case True
    with 2 show ?thesis by simp
  next
    case False
    let ?k = "getKeyFromRequestWatch (info_Req i)"
    from False 2(3) obtain err m1 where s: "StopInformer m ?k = Ret (err, m1)"
      by (auto split: go.splits)
    have m1: "running m1 key = (running m key \<and> key \<noteq> ?k)" by (rule im.stop_gone [OF s])
    from 2(1) [OF False s] False 2(3) s gauge_stop [OF s] m1 show ?thesis
      by (auto simp: running_enable_iff)
  qed
qed

lemma gauge_stop_matching:
  assumes "stop_matching crdName entries m = Ret m'"
  shows "gauge_after InformerGauge [key] (stop_matching_calls tx crdName entries m) x =
    x + of_bool (running m' key) - of_bool (running m key)"
  using assms
proof (induction tx crdName entries m arbitrary: x rule: stop_matching_calls.induct)
  case (1 tx crdName m)
  then show ?case by simp
next
  case (2 tx crdName k i entries m)
  obtain prefix where p: "slice_to k (length crdName) = Ret prefix" using 2(3) by (auto split: go.splits)
  show ?case
  proof (cases "prefix = crdName")
    case False
    with 2 p show ?thesis by simp
  next
    case True
    obtain err m1 where s: "StopInformer m (getKeyFromRequestWatch (info_Req i)) = Ret (err, m1)"
      using 2(3) p True by (auto split: go.splits)
    from 2(1) [OF p True s] 2(3) p True s gauge_stop [OF s] show ?thesis by simp
  qed
qed

section \<open>Properties\<close>

text \<open>C31: the gauge of the informers is short by one for every start that was not counted: its value for a
  key is 1 or 0, as the informer runs or not, less the number of times the health check restarted it or
  its cache did not sync.\<close>

theorem informer_gauge_accounts:
  assumes "metered tx m cs lost"
  shows "gauge_after InformerGauge [key] cs 0 = of_bool (running m key) - int (count_list lost key)"
  using assms
proof (induction rule: metered.induct)
  case new
  then show ?case by (simp add: running_def NewInformerManager_def)
next
  case (stop_crd m cs lost crdName m')
  then show ?case using gauge_stop_matching by (simp add: StopForCRD_def)
next
  case (monitor m cs lost env m')
  then show ?case using gauge_restart by (simp add: monitorInformers_def)
qed (simp_all add: gauge_add gauge_stop)

text \<open>An informer that the health check has restarted twice runs, and its gauge shows -1.\<close>

definition unsynced_env :: informer_env where
  "unsynced_env = example_informer_env\<lparr>ie_HasSynced := (\<lambda>ch. False)\<rparr>"

definition metered_im :: Manager where
  "metered_im = snd (Add unsynced_env NewInformerManager (example_watch ''web'' ''shop''))"

lemmas metered_defs = metered_im_def unsynced_env_def example_informer_env_def Add_def enableInformer_def
  verifyTargetExist_def NewInformerManager_def store_entry_def delete_entry_def StopInformer_def stored_def Let_def

lemma metered_im_restarts:
  obtains m1 m2 where "monitorInformers unsynced_env metered_im = Ret m1" "monitorInformers unsynced_env m1 = Ret m2"
    "restart_lost unsynced_env (informers metered_im) metered_im = [''web/shop/deployments/api'']"
    "restart_lost unsynced_env (informers m1) m1 = [''web/shop/deployments/api'']"
    "running m2 ''web/shop/deployments/api''"
  by (simp add: monitorInformers_def metered_defs example_keys running_def)

theorem informer_gauge_accounts_witness:
  "\<exists>m cs lost. metered (\<lambda>e. ''error'') m cs lost \<and> running m ''web/shop/deployments/api'' \<and>
     gauge_after InformerGauge [''web/shop/deployments/api''] cs 0 = -1"
proof -
  let ?key = "''web/shop/deployments/api''" and ?t = "\<lambda>e. ''error''"
  obtain m1 m2 where m: "monitorInformers unsynced_env metered_im = Ret m1" "monitorInformers unsynced_env m1 = Ret m2"
    "restart_lost unsynced_env (informers metered_im) metered_im = [?key]"
    "restart_lost unsynced_env (informers m1) m1 = [?key]" "running m2 ?key"
    by (rule metered_im_restarts)
  have "Add_lost unsynced_env NewInformerManager (example_watch ''web'' ''shop'') = []"
    by (simp add: Add_lost_def metered_defs)
  then obtain cs where "metered ?t metered_im cs []"
    using metered.add [OF metered.new, of ?t unsynced_env "example_watch ''web'' ''shop''"]
    unfolding metered_im_def by auto
  from metered.monitor [OF metered.monitor [OF this m(1)] m(2)] m(3,4)
  obtain cs' where "metered ?t m2 cs' [?key, ?key]" by auto
  with informer_gauge_accounts [OF this, of ?key] m(5) show ?thesis by auto
qed

end
