(* ===== verification/Heap.thy ===== *)
theory Heap
  imports Main
begin

text \<open>
  An explicit heap and deep copies over it. A pointer is an address, a slice an address with an offset and a
  length, and \<open>nil\<close> is \<open>None\<close>. The contract of a deep copy is the locale \<open>deep_copier\<close>: the copy has the value
  of the original, everything it refers to is newly allocated, and what was allocated before is unchanged.
  The lemmas on pairs, parts of structs, pointers that may be \<open>nil\<close>, new objects and slices lift the contract
  from the parts of a type to the type.
\<close>

section \<open>The heap\<close>

record 'c heap =
  h_next :: nat
  h_cells :: "nat \<rightharpoonup> 'c"

definition heap_wf :: "'c heap \<Rightarrow> bool" where
  "heap_wf h = (dom (h_cells h) \<subseteq> {..<h_next h})"

definition alloc :: "'c heap \<Rightarrow> 'c \<Rightarrow> nat \<times> 'c heap" where
  "alloc h c = (h_next h, h\<lparr>h_next := Suc (h_next h), h_cells := (h_cells h)(h_next h \<mapsto> c)\<rparr>)"

definition put :: "'c heap \<Rightarrow> nat \<Rightarrow> 'c \<Rightarrow> 'c heap" where
  "put h p c = h\<lparr>h_cells := (h_cells h)(p \<mapsto> c)\<rparr>"

definition same_on :: "nat set \<Rightarrow> 'c heap \<Rightarrow> 'c heap \<Rightarrow> bool" where
  "same_on A h h' = (\<forall>p \<in> A. h_cells h' p = h_cells h p)"

text \<open>Nothing but the addresses in \<open>A\<close> has changed of what was allocated.\<close>

definition extends_but :: "nat set \<Rightarrow> 'c heap \<Rightarrow> 'c heap \<Rightarrow> bool" where
  "extends_but A h h' = (h_next h \<le> h_next h' \<and> same_on ({..<h_next h} - A) h h')"

abbreviation extends :: "'c heap \<Rightarrow> 'c heap \<Rightarrow> bool" where
  "extends \<equiv> extends_but {}"

lemma alloc_sel [simp]:
  "fst (alloc h c) = h_next h" "h_next (snd (alloc h c)) = Suc (h_next h)"
  "h_cells (snd (alloc h c)) = (h_cells h)(h_next h \<mapsto> c)"
  by (simp_all add: alloc_def)

lemma put_sel [simp]: "h_next (put h p c) = h_next h" "h_cells (put h p c) = (h_cells h)(p \<mapsto> c)"
  by (simp_all add: put_def)

lemma same_on_refl [simp]: "same_on A h h"
  by (simp add: same_on_def)

lemma same_on_trans: "same_on A h h1 \<Longrightarrow> same_on A h1 h2 \<Longrightarrow> same_on A h h2"
  by (simp add: same_on_def)

lemma same_on_mono: "same_on A h h' \<Longrightarrow> B \<subseteq> A \<Longrightarrow> same_on B h h'"
  by (auto simp: same_on_def)

lemma same_on_Un: "same_on (A \<union> B) h h' \<longleftrightarrow> same_on A h h' \<and> same_on B h h'"
  by (auto simp: same_on_def)

lemma extends_refl [simp]: "extends_but A h h"
  by (simp add: extends_but_def)

lemma extends_trans: "extends_but A h h1 \<Longrightarrow> extends_but A h1 h2 \<Longrightarrow> extends_but A h h2"
  by (auto simp: extends_but_def same_on_def)

lemma extends_mono: "extends_but A h h' \<Longrightarrow> A \<subseteq> B \<Longrightarrow> extends_but B h h'"
  by (auto simp: extends_but_def same_on_def)

lemma extends_alloc: "alloc h c = (p, h') \<Longrightarrow> extends_but A h h'"
  by (auto simp: extends_but_def same_on_def alloc_def)

lemma extends_put: "p \<in> A \<Longrightarrow> extends_but A h (put h p c)"
  by (auto simp: extends_but_def same_on_def)

text \<open>A write to an address that was allocated later is not seen from before.\<close>

lemma extends_later: "extends_but A h h' \<Longrightarrow> A \<subseteq> {h_next h..} \<Longrightarrow> extends h h'"
  by (auto simp: extends_but_def same_on_def)

lemma extends_same_on: "extends_but A h h' \<Longrightarrow> B \<subseteq> {..<h_next h} \<Longrightarrow> A \<inter> B = {} \<Longrightarrow> same_on B h h'"
  by (auto simp: extends_but_def same_on_def)

lemma extends_next: "extends_but A h h' \<Longrightarrow> h_next h \<le> h_next h'"
  by (simp add: extends_but_def)

lemma heap_wf_alloc: "heap_wf h \<Longrightarrow> alloc h c = (p, h') \<Longrightarrow> heap_wf h'"
  by (fastforce simp: heap_wf_def alloc_def split: if_splits)

lemma heap_wf_put: "heap_wf h \<Longrightarrow> p < h_next h \<Longrightarrow> heap_wf (put h p c)"
  by (auto simp: heap_wf_def)

lemma heap_wf_cell: "heap_wf h \<Longrightarrow> h_cells h p = Some c \<Longrightarrow> p < h_next h"
  by (auto simp: heap_wf_def)

section \<open>The contract of a deep copy\<close>

text \<open>
  \<open>val\<close> is the value something in memory stands for, if all of it is allocated, and \<open>fp\<close> are the addresses it
  depends on.
\<close>

locale deep_copier =
  fixes copy :: "'c heap \<Rightarrow> 'a \<Rightarrow> 'a \<times> 'c heap"
    and val :: "'c heap \<Rightarrow> 'a \<Rightarrow> 'v option"
    and fp :: "'c heap \<Rightarrow> 'a \<Rightarrow> nat set"
  assumes copied: "heap_wf h \<Longrightarrow> val h x = Some v \<Longrightarrow> copy h x = (y, h') \<Longrightarrow>
      val h' y = Some v \<and> fp h' y \<subseteq> {h_next h..<h_next h'} \<and> extends h h' \<and> heap_wf h'"
    and local: "val h x = Some v \<Longrightarrow> same_on (fp h x) h h' \<Longrightarrow> val h' x = Some v \<and> fp h' x = fp h x"
    and allocated: "heap_wf h \<Longrightarrow> val h x = Some v \<Longrightarrow> fp h x \<subseteq> {..<h_next h}"
begin

lemma later:
  assumes "heap_wf h" "val h x = Some v" "extends_but A h h'" "A \<inter> fp h x = {}"
  shows "val h' x = Some v" "fp h' x = fp h x"
  using local [OF assms(2)] extends_same_on [OF assms(3) allocated [OF assms(1,2)] assms(4)] by blast+

lemma original_kept: "heap_wf h \<Longrightarrow> val h x = Some v \<Longrightarrow> copy h x = (y, h') \<Longrightarrow> val h' x = Some v"
  using later [of h x v "{}" h'] copied by blast

lemma disjoint: "heap_wf h \<Longrightarrow> val h x = Some v \<Longrightarrow> copy h x = (y, h') \<Longrightarrow> fp h x \<inter> fp h' y = {}"
  using allocated [of h x v] copied [of h x v y h'] by fastforce

text \<open>Whatever is written through the copy, the original keeps its value, and the other way round.\<close>

lemma isolated:
  assumes "heap_wf h" "val h x = Some v" "copy h x = (y, h')" "same_on (- fp h' y) h' h2"
  shows "val h2 x = Some v"
proof -
  have k: "val h' x = Some v" "fp h' x = fp h x" using later [OF assms(1,2)] copied [OF assms(1-3)] by auto
  have "same_on (fp h' x) h' h2"
    using same_on_mono [OF assms(4)] disjoint [OF assms(1-3)] k(2) by blast
  with local [OF k(1)] show ?thesis by blast
qed

lemma isolated_copy:
  assumes "heap_wf h" "val h x = Some v" "copy h x = (y, h')" "same_on (- fp h x) h' h2"
  shows "val h2 y = Some v"
  using local [of h' y v h2] copied [OF assms(1-3)] same_on_mono [OF assms(4)] disjoint [OF assms(1-3)] by blast

end

section \<open>Building copiers\<close>

text \<open>Values without pointers are copied by the assignment \<open>*out = *in\<close>.\<close>

definition pure_copy :: "'c heap \<Rightarrow> 'a \<Rightarrow> 'a \<times> 'c heap" where
  "pure_copy h x = (x, h)"

lemma pure_copier: "deep_copier pure_copy (\<lambda>h x. Some (f x)) (\<lambda>h x. {})"
  by unfold_locales (auto simp: pure_copy_def)

text \<open>Two parts of a struct, one after the other.\<close>

definition pair_copy ::
  "('c heap \<Rightarrow> 'a \<Rightarrow> 'a \<times> 'c heap) \<Rightarrow> ('c heap \<Rightarrow> 'b \<Rightarrow> 'b \<times> 'c heap) \<Rightarrow>
   'c heap \<Rightarrow> 'a \<times> 'b \<Rightarrow> ('a \<times> 'b) \<times> 'c heap" where
  "pair_copy f g h = (\<lambda>(x, y). let (x', h1) = f h x; (y', h2) = g h1 y in ((x', y'), h2))"

definition pair_val :: "('h \<Rightarrow> 'a \<Rightarrow> 'v option) \<Rightarrow> ('h \<Rightarrow> 'b \<Rightarrow> 'w option) \<Rightarrow> 'h \<Rightarrow> 'a \<times> 'b \<Rightarrow> ('v \<times> 'w) option" where
  "pair_val f g h = (\<lambda>(x, y). case (f h x, g h y) of (Some v, Some w) \<Rightarrow> Some (v, w) | _ \<Rightarrow> None)"

definition pair_fp :: "('h \<Rightarrow> 'a \<Rightarrow> nat set) \<Rightarrow> ('h \<Rightarrow> 'b \<Rightarrow> nat set) \<Rightarrow> 'h \<Rightarrow> 'a \<times> 'b \<Rightarrow> nat set" where
  "pair_fp f g h = (\<lambda>(x, y). f h x \<union> g h y)"

lemma pair_val_Some: "pair_val f g h (x, y) = Some z \<longleftrightarrow> (\<exists>v w. z = (v, w) \<and> f h x = Some v \<and> g h y = Some w)"
  by (auto simp: pair_val_def split: option.splits)

lemma pair_copier:
  assumes "deep_copier c1 v1 f1" "deep_copier c2 v2 f2"
  shows "deep_copier (pair_copy c1 c2) (pair_val v1 v2) (pair_fp f1 f2)"
proof -
  note A = deep_copier.copied [OF assms(1)] deep_copier.later [OF assms(1)] deep_copier.local [OF assms(1)]
    deep_copier.allocated [OF assms(1)]
  note B = deep_copier.copied [OF assms(2)] deep_copier.later [OF assms(2)] deep_copier.local [OF assms(2)]
    deep_copier.allocated [OF assms(2)]
  show ?thesis
  proof
    fix h h' and p q :: "'b \<times> 'd" and v
    obtain x y where p: "p = (x, y)" by fastforce
    assume wf: "heap_wf h" and v: "pair_val v1 v2 h p = Some v" and c: "pair_copy c1 c2 h p = (q, h')"
    obtain v' w where vw: "v1 h x = Some v'" "v2 h y = Some w" "v = (v', w)" using v by (auto simp: p pair_val_Some)
    obtain x' h1 where c1: "c1 h x = (x', h1)" by fastforce
    obtain y' where c2: "c2 h1 y = (y', h')" "q = (x', y')" using c by (auto simp: p pair_copy_def c1 split: prod.splits)
    have k1: "v1 h1 x' = Some v'" "f1 h1 x' \<subseteq> {h_next h..<h_next h1}" "extends h h1" "heap_wf h1"
      using A(1) [OF wf vw(1) c1] by simp_all
    have y: "v2 h1 y = Some w" using B(2) [OF wf vw(2) k1(3)] by simp
    have k2: "v2 h' y' = Some w" "f2 h' y' \<subseteq> {h_next h1..<h_next h'}" "extends h1 h'" "heap_wf h'"
      using B(1) [OF k1(4) y c2(1)] by simp_all
    have x: "v1 h' x' = Some v'" "f1 h' x' = f1 h1 x'"
      using A(2,3) [OF k1(4,1) k2(3)] by simp_all
    have "extends h h'" using extends_trans [OF k1(3) k2(3)] .
    moreover have "f1 h' x' \<union> f2 h' y' \<subseteq> {h_next h..<h_next h'}"
      using k1(2) k2(2) extends_next [OF k1(3)] extends_next [OF k2(3)] unfolding x(2) by auto
    ultimately show "pair_val v1 v2 h' q = Some v \<and> pair_fp f1 f2 h' q \<subseteq> {h_next h..<h_next h'} \<and> extends h h' \<and> heap_wf h'"
      using x(1) k2(1,4) vw(3) c2(2) by (simp add: pair_val_def pair_fp_def)
  next
    fix h h' and p :: "'b \<times> 'd" and v
    obtain x y where p: "p = (x, y)" by fastforce
    assume "pair_val v1 v2 h p = Some v" "same_on (pair_fp f1 f2 h p) h h'"
    then obtain v' w where vw: "v1 h x = Some v'" "v2 h y = Some w" "v = (v', w)"
      and s: "same_on (f1 h x) h h'" "same_on (f2 h y) h h'"
      by (auto simp: p pair_val_Some pair_fp_def same_on_Un)
    from A(4) [OF vw(1) s(1)] B(4) [OF vw(2) s(2)] vw(3)
    show "pair_val v1 v2 h' p = Some v \<and> pair_fp f1 f2 h' p = pair_fp f1 f2 h p"
      by (simp add: p pair_val_def pair_fp_def)
  next
    fix h and p :: "'b \<times> 'd" and v
    obtain x y where p: "p = (x, y)" by fastforce
    assume wf: "heap_wf h" and "pair_val v1 v2 h p = Some v"
    then obtain v' w where vw: "v1 h x = Some v'" "v2 h y = Some w" by (auto simp: p pair_val_Some)
    from A(5) [OF wf vw(1)] B(5) [OF wf vw(2)] show "pair_fp f1 f2 h p \<subseteq> {..<h_next h}"
      by (simp add: p pair_fp_def)
  qed
qed

text \<open>A part that may be \<open>nil\<close>.\<close>

definition nil_copy :: "('c heap \<Rightarrow> 'a \<Rightarrow> 'a \<times> 'c heap) \<Rightarrow> 'c heap \<Rightarrow> 'a option \<Rightarrow> 'a option \<times> 'c heap" where
  "nil_copy f h x = (case x of None \<Rightarrow> (None, h) | Some y \<Rightarrow> (let (z, h') = f h y in (Some z, h')))"

definition nil_val :: "('h \<Rightarrow> 'a \<Rightarrow> 'v option) \<Rightarrow> 'h \<Rightarrow> 'a option \<Rightarrow> 'v option option" where
  "nil_val f h x = (case x of None \<Rightarrow> Some None | Some y \<Rightarrow> map_option Some (f h y))"

definition nil_fp :: "('h \<Rightarrow> 'a \<Rightarrow> nat set) \<Rightarrow> 'h \<Rightarrow> 'a option \<Rightarrow> nat set" where
  "nil_fp f h x = (case x of None \<Rightarrow> {} | Some y \<Rightarrow> f h y)"

lemma nil_copier:
  assumes "deep_copier c v f"
  shows "deep_copier (nil_copy c) (nil_val v) (nil_fp f)"
proof
  fix h h' x y u
  assume wf: "heap_wf h" and u: "nil_val v h x = Some u" and c: "nil_copy c h x = (y, h')"
  show "nil_val v h' y = Some u \<and> nil_fp f h' y \<subseteq> {h_next h..<h_next h'} \<and> extends h h' \<and> heap_wf h'"
  proof (cases x)
    case None
    with wf u c show ?thesis by (simp add: nil_val_def nil_copy_def nil_fp_def)
  next
    case (Some z)
    obtain w where w: "v h z = Some w" "u = Some w" using u Some by (auto simp: nil_val_def)
    obtain z' where z: "c h z = (z', h')" "y = Some z'" using c Some by (auto simp: nil_copy_def split: prod.splits)
    from deep_copier.copied [OF assms wf w(1) z(1)] w(2) z(2) show ?thesis by (simp add: nil_val_def nil_fp_def)
  qed
next
  fix h h' x u
  assume u: "nil_val v h x = Some u" and s: "same_on (nil_fp f h x) h h'"
  show "nil_val v h' x = Some u \<and> nil_fp f h' x = nil_fp f h x"
  proof (cases x)
    case None
    with u show ?thesis by (simp add: nil_val_def nil_fp_def)
  next
    case (Some z)
    obtain w where w: "v h z = Some w" "u = Some w" using u Some by (auto simp: nil_val_def)
    from s Some have "same_on (f h z) h h'" by (simp add: nil_fp_def)
    from deep_copier.local [OF assms w(1) this] w(2) Some show ?thesis by (simp add: nil_val_def nil_fp_def)
  qed
next
  fix h x u
  assume wf: "heap_wf h" and u: "nil_val v h x = Some u"
  show "nil_fp f h x \<subseteq> {..<h_next h}"
  proof (cases x)
    case (Some z)
    obtain w where "v h z = Some w" using u Some by (auto simp: nil_val_def)
    from deep_copier.allocated [OF assms wf this] Some show ?thesis by (simp add: nil_fp_def)
  qed (simp add: nil_fp_def)
qed

text \<open>
  A struct whose parts with pointers are read by \<open>get\<close> and replaced by \<open>upd\<close>; the rest of it is assigned.
\<close>

definition part_copy :: "('s \<Rightarrow> 'a) \<Rightarrow> ('a \<Rightarrow> 's \<Rightarrow> 's) \<Rightarrow> ('c heap \<Rightarrow> 'a \<Rightarrow> 'a \<times> 'c heap) \<Rightarrow> 'c heap \<Rightarrow> 's \<Rightarrow> 's \<times> 'c heap" where
  "part_copy get upd f h s = (let (x, h') = f h (get s) in (upd x s, h'))"

lemma part_copier:
  assumes "deep_copier c v f" and g: "\<And>x s. get (upd x s) = x" and m: "\<And>x s. mk (upd x s) = mk s"
  shows "deep_copier (part_copy get upd c) (\<lambda>h s. map_option (mk s) (v h (get s))) (\<lambda>h s. f h (get s))"
proof
  fix h h' s t u
  assume wf: "heap_wf h" and v: "map_option (mk s) (v h (get s)) = Some u" and c: "part_copy get upd c h s = (t, h')"
  obtain w where w: "v h (get s) = Some w" "u = mk s w" using v by auto
  obtain x where x: "c h (get s) = (x, h')" "t = upd x s" using c by (auto simp: part_copy_def split: prod.splits)
  from deep_copier.copied [OF assms(1) wf w(1) x(1)] w(2) x(2)
  show "map_option (mk t) (v h' (get t)) = Some u \<and> f h' (get t) \<subseteq> {h_next h..<h_next h'} \<and> extends h h' \<and> heap_wf h'"
    by (simp add: g m)
next
  fix h h' s u
  assume u: "map_option (mk s) (v h (get s)) = Some u" and s: "same_on (f h (get s)) h h'"
  obtain w where w: "v h (get s) = Some w" "u = mk s w" using u by auto
  from deep_copier.local [OF assms(1) w(1) s] w(2)
  show "map_option (mk s) (v h' (get s)) = Some u \<and> f h' (get s) = f h (get s)" by simp
next
  fix h s u
  assume wf: "heap_wf h" and u: "map_option (mk s) (v h (get s)) = Some u"
  obtain w where "v h (get s) = Some w" using u by auto
  from deep_copier.allocated [OF assms(1) wf this] show "f h (get s) \<subseteq> {..<h_next h}" .
qed

text \<open>
  A pointer: \<open>new\<close> allocates the zero value, and the pointee is copied into it. \<open>emb\<close> and \<open>prj\<close> are the
  constructor of the cells for the type of the pointee and its partial inverse.
\<close>

definition new_copy ::
  "('a \<Rightarrow> 'c) \<Rightarrow> ('c \<Rightarrow> 'a option) \<Rightarrow> 'a \<Rightarrow> ('c heap \<Rightarrow> 'a \<Rightarrow> 'a \<times> 'c heap) \<Rightarrow> 'c heap \<Rightarrow> nat \<Rightarrow> nat \<times> 'c heap" where
  "new_copy emb prj zero f h p =
     (let (q, h1) = alloc h (emb zero);
          (x, h2) = f h1 (case Option.bind (h_cells h p) prj of Some x \<Rightarrow> x | None \<Rightarrow> zero)
      in (q, put h2 q (emb x)))"

definition ptr_val :: "('c \<Rightarrow> 'a option) \<Rightarrow> ('c heap \<Rightarrow> 'a \<Rightarrow> 'v option) \<Rightarrow> 'c heap \<Rightarrow> nat \<Rightarrow> 'v option" where
  "ptr_val prj v h p = Option.bind (Option.bind (h_cells h p) prj) (v h)"

definition ptr_fp :: "('c \<Rightarrow> 'a option) \<Rightarrow> ('c heap \<Rightarrow> 'a \<Rightarrow> nat set) \<Rightarrow> 'c heap \<Rightarrow> nat \<Rightarrow> nat set" where
  "ptr_fp prj f h p = insert p (case Option.bind (h_cells h p) prj of Some x \<Rightarrow> f h x | None \<Rightarrow> {})"

lemma ptr_val_Some:
  "ptr_val prj v h p = Some u \<longleftrightarrow> (\<exists>c x. h_cells h p = Some c \<and> prj c = Some x \<and> v h x = Some u)"
  by (auto simp: ptr_val_def Option.bind_eq_Some_conv)

lemma new_copier:
  assumes d: "deep_copier c v f" and emb: "\<And>x. prj (emb x) = Some x"
  shows "deep_copier (new_copy emb prj zero c) (ptr_val prj v) (ptr_fp prj f)"
proof
  fix h h' p q u
  assume wf: "heap_wf h" and u: "ptr_val prj v h p = Some u" and c: "new_copy emb prj zero c h p = (q, h')"
  obtain k x where x: "h_cells h p = Some k" "prj k = Some x" "v h x = Some u" using u by (auto simp: ptr_val_Some)
  define h1 where "h1 = snd (alloc h (emb zero))"
  have h1: "alloc h (emb zero) = (h_next h, h1)" "h_next h1 = Suc (h_next h)"
    unfolding h1_def by (simp_all add: alloc_def)
  obtain y h2 where y1: "c h1 x = (y, h2)" by fastforce
  have n: "new_copy emb prj zero c h p = (h_next h, put h2 (h_next h) (emb y))"
    by (simp add: new_copy_def h1(1) x y1)
  have "(h_next h, put h2 (h_next h) (emb y)) = (q, h')" by (rule trans [OF n [symmetric] c])
  then have qh: "q = h_next h" "h' = put h2 (h_next h) (emb y)" by blast+
  have y: "c h1 x = (y, h2)" "h' = put h2 q (emb y)" "q = h_next h" by (simp_all add: y1 qh)
  have x1: "v h1 x = Some u" using deep_copier.later(1) [OF d wf x(3) extends_alloc [OF h1(1), of "{}"]] by simp
  have k: "v h2 y = Some u" "f h2 y \<subseteq> {h_next h1..<h_next h2}" "extends h1 h2" "heap_wf h2"
    using deep_copier.copied [OF d heap_wf_alloc [OF wf h1(1)] x1 y(1)] by simp_all
  have q: "q < h_next h2" using extends_next [OF k(3)] h1(2) y(3) by simp
  have qf: "q \<notin> f h2 y" using k(2) h1(2) y(3) by auto
  have "extends h h2" by (rule extends_trans [OF extends_alloc [OF h1(1)] k(3)])
  then have "extends_but {q} h h2" by (rule extends_mono) simp
  moreover have "extends_but {q} h2 h'" unfolding y(2) by (rule extends_put) simp
  ultimately have "extends_but {q} h h'" by (rule extends_trans)
  then have e: "extends h h'" by (rule extends_later) (simp add: y(3))
  have "v h' y = Some u" "f h' y = f h2 y"
    using deep_copier.later [OF d k(4,1) extends_put [of q "{q}" h2 "emb y"]] qf by (simp_all add: y(2))
  moreover have "h_cells h' q = Some (emb y)" "h_next h' = h_next h2" "heap_wf h'"
    using heap_wf_put [OF k(4) q] by (simp_all add: y(2))
  moreover have "insert q (f h2 y) \<subseteq> {h_next h..<h_next h2}" using k(2) q y(3) h1(2) by auto
  ultimately show "ptr_val prj v h' q = Some u \<and> ptr_fp prj f h' q \<subseteq> {h_next h..<h_next h'} \<and> extends h h' \<and> heap_wf h'"
    using e by (simp add: ptr_val_def ptr_fp_def emb)
next
  fix h h' p u
  assume "ptr_val prj v h p = Some u" and s: "same_on (ptr_fp prj f h p) h h'"
  then obtain k x where x: "h_cells h p = Some k" "prj k = Some x" "v h x = Some u" by (auto simp: ptr_val_Some)
  from s x have s': "same_on (f h x) h h'" "h_cells h' p = Some k" by (auto simp: ptr_fp_def same_on_def)
  with deep_copier.local [OF d x(3) s'(1)] x show "ptr_val prj v h' p = Some u \<and> ptr_fp prj f h' p = ptr_fp prj f h p"
    by (simp add: ptr_val_def ptr_fp_def)
next
  fix h p u
  assume wf: "heap_wf h" and "ptr_val prj v h p = Some u"
  then obtain k x where x: "h_cells h p = Some k" "prj k = Some x" "v h x = Some u" by (auto simp: ptr_val_Some)
  with deep_copier.allocated [OF d wf x(3)] heap_wf_cell [OF wf x(1)] show "ptr_fp prj f h p \<subseteq> {..<h_next h}"
    by (simp add: ptr_fp_def)
qed

text \<open>
  Slices. \<open>make\<close> allocates an array of zero values, and the loop copies the elements into it one after the
  other; \<open>done\<close> are those already copied.
\<close>

record slice =
  sl_ptr :: nat
  sl_off :: nat
  sl_len :: nat

definition elems :: "('c \<Rightarrow> 'a list option) \<Rightarrow> 'c heap \<Rightarrow> slice \<Rightarrow> 'a list option" where
  "elems prj h s =
     (case Option.bind (h_cells h (sl_ptr s)) prj of
        Some xs \<Rightarrow> if sl_off s + sl_len s \<le> length xs then Some (take (sl_len s) (drop (sl_off s) xs)) else None
      | None \<Rightarrow> None)"

fun copy_loop ::
  "('a list \<Rightarrow> 'c) \<Rightarrow> 'a \<Rightarrow> ('c heap \<Rightarrow> 'a \<Rightarrow> 'a \<times> 'c heap) \<Rightarrow> nat \<Rightarrow> 'a list \<Rightarrow> 'a list \<Rightarrow> 'c heap \<Rightarrow> 'c heap" where
  "copy_loop emb zero f q done [] h = h"
| "copy_loop emb zero f q done (x # xs) h =
     (let (y, h1) = f h x
      in copy_loop emb zero f q (done @ [y]) xs (put h1 q (emb (done @ [y] @ replicate (length xs) zero))))"

definition slice_copy ::
  "('a list \<Rightarrow> 'c) \<Rightarrow> ('c \<Rightarrow> 'a list option) \<Rightarrow> 'a \<Rightarrow> ('c heap \<Rightarrow> 'a \<Rightarrow> 'a \<times> 'c heap) \<Rightarrow> 'c heap \<Rightarrow> slice \<Rightarrow>
   slice \<times> 'c heap" where
  "slice_copy emb prj zero f h s =
     (let n = sl_len s;
          (q, h1) = alloc h (emb (replicate n zero));
          xs = (case elems prj h s of Some xs \<Rightarrow> xs | None \<Rightarrow> [])
      in (\<lparr>sl_ptr = q, sl_off = 0, sl_len = n\<rparr>, copy_loop emb zero f q [] xs h1))"

definition slice_val :: "('c \<Rightarrow> 'a list option) \<Rightarrow> ('c heap \<Rightarrow> 'a \<Rightarrow> 'v option) \<Rightarrow> 'c heap \<Rightarrow> slice \<Rightarrow> 'v list option" where
  "slice_val prj v h s = Option.bind (elems prj h s) (\<lambda>xs. those (map (v h) xs))"

definition slice_fp :: "('c \<Rightarrow> 'a list option) \<Rightarrow> ('c heap \<Rightarrow> 'a \<Rightarrow> nat set) \<Rightarrow> 'c heap \<Rightarrow> slice \<Rightarrow> nat set" where
  "slice_fp prj f h s =
     insert (sl_ptr s) (case elems prj h s of Some xs \<Rightarrow> \<Union> (f h ` set xs) | None \<Rightarrow> {})"

lemma those_map_Some: "those (map g xs) = Some vs \<longleftrightarrow> list_all2 (\<lambda>x v. g x = Some v) xs vs"
proof (induction xs arbitrary: vs)
  case (Cons x xs)
  show ?case by (cases vs) (auto simp: Cons.IH split: option.splits)
qed auto

lemma list_all2_ex: "list_all2 P xs ys \<Longrightarrow> x \<in> set xs \<Longrightarrow> \<exists>y. P x y"
  by (auto simp: list_all2_conv_all_nth in_set_conv_nth)

lemma slice_val_Some:
  "slice_val prj v h s = Some us \<longleftrightarrow> (\<exists>xs. elems prj h s = Some xs \<and> list_all2 (\<lambda>x u. v h x = Some u) xs us)"
  by (auto simp: slice_val_def Option.bind_eq_Some_conv those_map_Some)

lemma elems_ptr: "elems prj h s = Some xs \<Longrightarrow> \<exists>k. h_cells h (sl_ptr s) = Some k"
  by (auto simp: elems_def Option.bind_eq_Some_conv split: option.splits)

lemma elems_same: "h_cells h' (sl_ptr s) = h_cells h (sl_ptr s) \<Longrightarrow> elems prj h' s = elems prj h s"
  by (simp add: elems_def)

lemma elems_length: "elems prj h s = Some xs \<Longrightarrow> length xs = sl_len s"
  by (auto simp: elems_def split: option.splits if_splits)

context deep_copier
begin

text \<open>The loop: what is before it stays, the elements that were copied keep their values, and the others get theirs.\<close>

lemma loop_ok:
  assumes "heap_wf h" "q < h_next h" "list_all2 (\<lambda>x u. val h x = Some u) xs us" "\<forall>x \<in> set xs. q \<notin> fp h x"
    and "list_all2 (\<lambda>y u. val h y = Some u) done ws" "\<forall>y \<in> set done. fp h y \<subseteq> {q<..}"
    and "h_cells h q = Some (emb (done @ replicate (length xs) zero))"
  shows "\<exists>ys h'. copy_loop emb zero copy q done xs h = h' \<and> h_cells h' q = Some (emb ys) \<and>
    list_all2 (\<lambda>y u. val h' y = Some u) ys (ws @ us) \<and> (\<forall>y \<in> set ys. fp h' y \<subseteq> {q<..<h_next h'}) \<and>
    extends_but {q} h h' \<and> heap_wf h'"
  using assms
proof (induction xs arbitrary: h us "done" ws)
  case Nil
  have "fp h y \<subseteq> {q<..<h_next h}" if y: "y \<in> set done" for y
  proof -
    obtain u where "val h y = Some u" using list_all2_ex [OF Nil.prems(5) y] by blast
    from allocated [OF Nil.prems(1) this] y Nil.prems(6) show ?thesis by fastforce
  qed
  with Nil.prems show ?case by (intro exI [of _ "done"] exI [of _ h]) simp
next
  case (Cons x xs)
  obtain u us' where us: "us = u # us'" "val h x = Some u" "list_all2 (\<lambda>x u. val h x = Some u) xs us'"
    using Cons.prems(3) by (auto simp: list_all2_Cons1)
  obtain y h1 where y: "copy h x = (y, h1)" by fastforce
  let ?h2 = "put h1 q (emb (done @ [y] @ replicate (length xs) zero))"
  have k: "val h1 y = Some u" "fp h1 y \<subseteq> {h_next h..<h_next h1}" "extends h h1" "heap_wf h1"
    using copied [OF Cons.prems(1) us(2) y] by simp_all
  have qn: "q < h_next h1" using Cons.prems(2) extends_next [OF k(3)] by simp
  have e: "extends_but {q} h ?h2"
    by (rule extends_trans [OF extends_mono [OF k(3)] extends_put]) auto
  have keep: "val ?h2 z = Some w \<and> fp ?h2 z = fp h z" if "val h z = Some w" "q \<notin> fp h z" for z w
    using later [OF Cons.prems(1) that(1) e] that(2) by simp
  have qy: "q \<notin> fp h1 y" using k(2) Cons.prems(2) by auto
  have new: "val ?h2 y = Some u" "fp ?h2 y = fp h1 y"
    using later [OF k(4,1) extends_put [of q "{q}" h1]] qy by simp_all
  have qd: "q \<notin> fp h z" if "z \<in> set done" for z using Cons.prems(6) that by auto
  have dn: "list_all2 (\<lambda>z w. val ?h2 z = Some w) done ws"
    by (rule list.rel_mono_strong [OF Cons.prems(5)]) (use keep qd in simp)
  have "list_all2 (\<lambda>z w. val ?h2 z = Some w) xs us'"
    by (rule list.rel_mono_strong [OF us(3)]) (use keep Cons.prems(4) in simp)
  moreover have "\<forall>z \<in> set xs. q \<notin> fp ?h2 z"
    using list_all2_ex [OF us(3)] keep Cons.prems(4) by (metis list.set_intros(2))
  moreover have "list_all2 (\<lambda>z w. val ?h2 z = Some w) (done @ [y]) (ws @ [u])"
    using dn new(1) by (simp add: list_all2_appendI)
  moreover have "fp ?h2 z \<subseteq> {q<..}" if "z \<in> set (done @ [y])" for z
  proof (cases "z = y")
    case True
    with new(2) k(2) Cons.prems(2) show ?thesis by auto
  next
    case False
    with that have z: "z \<in> set done" by simp
    obtain w where "val h z = Some w" using list_all2_ex [OF Cons.prems(5) z] by blast
    with keep [OF this] z Cons.prems(6) show ?thesis by auto
  qed
  moreover have "heap_wf ?h2" "q < h_next ?h2" using heap_wf_put [OF k(4) qn] qn by simp_all
  moreover have "h_cells ?h2 q = Some (emb ((done @ [y]) @ replicate (length xs) zero))" by simp
  ultimately obtain ys h' where "copy_loop emb zero copy q (done @ [y]) xs ?h2 = h'" "h_cells h' q = Some (emb ys)"
    "list_all2 (\<lambda>y u. val h' y = Some u) ys ((ws @ [u]) @ us')" "\<forall>y \<in> set ys. fp h' y \<subseteq> {q<..<h_next h'}"
    "extends_but {q} ?h2 h'" "heap_wf h'"
    using Cons.IH [of ?h2 us' "done @ [y]" "ws @ [u]"] by blast
  with extends_trans [OF e] us(1) y show ?case by (intro exI [of _ ys] exI [of _ h']) simp
qed

lemma slice_copied:
  assumes emb: "\<And>xs. prj (emb xs) = Some xs" and wf: "heap_wf h" and v: "slice_val prj val h s = Some us"
    and c: "slice_copy emb prj zero copy h s = (t, h')"
  shows "slice_val prj val h' t = Some us \<and> slice_fp prj fp h' t \<subseteq> {h_next h..<h_next h'} \<and>
    extends h h' \<and> heap_wf h'"
proof -
  obtain xs where xs: "elems prj h s = Some xs" "list_all2 (\<lambda>x u. val h x = Some u) xs us"
    using v by (auto simp: slice_val_Some)
  define q h1 where "q = h_next h" and "h1 = snd (alloc h (emb (replicate (sl_len s) zero)))"
  have h1: "alloc h (emb (replicate (sl_len s) zero)) = (q, h1)" by (simp add: q_def h1_def alloc_def)
  have c': "t = \<lparr>sl_ptr = q, sl_off = 0, sl_len = sl_len s\<rparr>" "h' = copy_loop emb zero copy q [] xs h1"
    using c by (simp_all add: slice_copy_def h1 xs(1) Let_def)
  have e1: "extends h h1" by (rule extends_alloc [OF h1])
  have k: "val h1 x = Some u \<and> fp h1 x = fp h x" if "val h x = Some u" for x u
    using later [OF wf that e1] by simp
  have "list_all2 (\<lambda>x u. val h1 x = Some u) xs us"
    by (rule list.rel_mono_strong [OF xs(2)]) (simp add: k)
  moreover have "q \<notin> fp h1 x" if "x \<in> set xs" for x
  proof -
    obtain u where "val h x = Some u" using list_all2_ex [OF xs(2) \<open>x \<in> set xs\<close>] by blast
    with k [OF this] allocated [OF wf this] show ?thesis by (auto simp: q_def)
  qed
  moreover have "heap_wf h1" "q < h_next h1" "h_cells h1 q = Some (emb ([] @ replicate (length xs) zero))"
    using heap_wf_alloc [OF wf h1] elems_length [OF xs(1)] by (simp_all add: h1_def q_def)
  ultimately obtain ys where ys: "h_cells h' q = Some (emb ys)" "list_all2 (\<lambda>y u. val h' y = Some u) ys us"
    "\<forall>y \<in> set ys. fp h' y \<subseteq> {q<..<h_next h'}" "extends_but {q} h1 h'" "heap_wf h'"
    using loop_ok [of h1 q xs us "[]" "[]" emb zero] c'(2) by auto
  have "length ys = sl_len s"
    using list_all2_lengthD [OF ys(2)] list_all2_lengthD [OF xs(2)] elems_length [OF xs(1)] by simp
  then have "elems prj h' t = Some ys" by (simp add: elems_def ys(1) emb c'(1))
  moreover have "extends h h'"
    by (rule extends_later [OF extends_trans [OF extends_mono [OF e1] ys(4)]]) (simp_all add: q_def)
  moreover have "q < h_next h'" using \<open>q < h_next h1\<close> extends_next [OF ys(4)] by simp
  moreover have "\<Union> (fp h' ` set ys) \<subseteq> {q..<h_next h'}" using ys(3) by fastforce
  ultimately show ?thesis using ys(2,5) c'(1) by (simp add: slice_val_Some slice_fp_def q_def)
qed

lemma slice_copier:
  assumes emb: "\<And>xs. prj (emb xs) = Some xs"
  shows "deep_copier (slice_copy emb prj zero copy) (slice_val prj val) (slice_fp prj fp)"
proof
  fix h h' s us
  assume "slice_val prj val h s = Some us" and s: "same_on (slice_fp prj fp h s) h h'"
  then obtain xs where xs: "elems prj h s = Some xs" "list_all2 (\<lambda>x u. val h x = Some u) xs us"
    by (auto simp: slice_val_Some)
  have e: "elems prj h' s = Some xs" using s xs(1) elems_same [of h' s h prj] by (simp add: slice_fp_def same_on_def)
  have k: "val h' x = Some u \<and> fp h' x = fp h x" if "x \<in> set xs" "val h x = Some u" for x u
  proof -
    have "same_on (fp h x) h h'" using s \<open>x \<in> set xs\<close> xs(1) by (auto simp: slice_fp_def same_on_def)
    from local [OF \<open>val h x = Some u\<close> this] show ?thesis .
  qed
  have "list_all2 (\<lambda>x u. val h' x = Some u) xs us"
    by (rule list.rel_mono_strong [OF xs(2)]) (simp add: k)
  moreover have "fp h' x = fp h x" if "x \<in> set xs" for x
    using list_all2_ex [OF xs(2) that] k [OF that] by blast
  ultimately show "slice_val prj val h' s = Some us \<and> slice_fp prj fp h' s = slice_fp prj fp h s"
    using e xs(1) by (auto simp: slice_val_Some slice_fp_def)
next
  fix h s us
  assume wf: "heap_wf h" and "slice_val prj val h s = Some us"
  then obtain xs where xs: "elems prj h s = Some xs" "list_all2 (\<lambda>x u. val h x = Some u) xs us"
    by (auto simp: slice_val_Some)
  have "fp h x \<subseteq> {..<h_next h}" if "x \<in> set xs" for x
    using list_all2_ex [OF xs(2) that] allocated [OF wf] by blast
  moreover have "sl_ptr s < h_next h" using elems_ptr [OF xs(1)] heap_wf_cell [OF wf] by blast
  ultimately show "slice_fp prj fp h s \<subseteq> {..<h_next h}" using xs(1) by (auto simp: slice_fp_def)
qed (rule slice_copied [OF emb])

end

text \<open>The built-in \<open>copy\<close> on elements without pointers has the effect of the loop.\<close>

definition builtin_copy ::
  "('a list \<Rightarrow> 'c) \<Rightarrow> ('c \<Rightarrow> 'a list option) \<Rightarrow> 'a \<Rightarrow> 'c heap \<Rightarrow> slice \<Rightarrow> slice \<times> 'c heap" where
  "builtin_copy emb prj zero h s =
     (let (q, h1) = alloc h (emb (replicate (sl_len s) zero));
          xs = (case elems prj h s of Some xs \<Rightarrow> xs | None \<Rightarrow> [])
      in (\<lparr>sl_ptr = q, sl_off = 0, sl_len = sl_len s\<rparr>, put h1 q (emb (xs @ drop (length xs) (replicate (sl_len s) zero)))))"

lemma copy_loop_pure:
  "h_cells h q = Some (emb (done @ replicate (length xs) zero)) \<Longrightarrow>
   copy_loop emb zero pure_copy q done xs h = put h q (emb (done @ xs))"
proof (induction xs arbitrary: "done" h)
  case Nil
  then have "h_cells h = (h_cells h)(q \<mapsto> emb done)" by (auto simp: fun_eq_iff)
  then show ?case by (simp add: put_def)
next
  case (Cons x xs)
  have "copy_loop emb zero pure_copy q done (x # xs) h =
      copy_loop emb zero pure_copy q (done @ [x]) xs (put h q (emb (done @ [x] @ replicate (length xs) zero)))"
    by (simp add: pure_copy_def)
  also have "\<dots> = put (put h q (emb (done @ [x] @ replicate (length xs) zero))) q (emb ((done @ [x]) @ xs))"
    by (rule Cons.IH) simp
  finally show ?case by (simp add: put_def)
qed

lemma builtin_copy_pure:
  assumes "elems prj h s = Some xs"
  shows "slice_copy emb prj zero pure_copy h s = builtin_copy emb prj zero h s"
  using assms elems_length [OF assms]
  by (simp add: slice_copy_def builtin_copy_def alloc_def Let_def copy_loop_pure)

lemma builtin_copier:
  assumes emb: "\<And>xs. prj (emb xs) = Some xs"
  shows "deep_copier (builtin_copy emb prj zero) (slice_val prj (\<lambda>h x. Some x)) (slice_fp prj (\<lambda>h x. {}))"
proof -
  have d: "deep_copier (slice_copy emb prj zero pure_copy) (slice_val prj (\<lambda>h x. Some x)) (slice_fp prj (\<lambda>h x. {}))"
    by (rule deep_copier.slice_copier [OF pure_copier [of "\<lambda>x. x"]]) (rule emb)
  show ?thesis
  proof
    fix h h' s t us
    assume wf: "heap_wf h" and v: "slice_val prj (\<lambda>h x. Some x) h s = Some us"
      and c: "builtin_copy emb prj zero h s = (t, h')"
    from v obtain xs where "elems prj h s = Some xs" by (auto simp: slice_val_Some)
    with c have "slice_copy emb prj zero pure_copy h s = (t, h')" by (simp add: builtin_copy_pure)
    from deep_copier.copied [OF d wf v this]
    show "slice_val prj (\<lambda>h x. Some x) h' t = Some us \<and> slice_fp prj (\<lambda>h x. {}) h' t \<subseteq> {h_next h..<h_next h'} \<and>
      extends h h' \<and> heap_wf h'" .
  qed (fact deep_copier.local [OF d] deep_copier.allocated [OF d])+
qed

end
