(* ===== verification/DeepCopy.thy ===== *)
theory DeepCopy
  imports Api Heap
begin

text \<open>
  \<open>operator/api/v1alpha1/zz_generated.deepcopy.go\<close>: the deep copies of the custom resource, over the heap of
  \<open>Heap\<close>. A struct in memory has pointers and slices where the source has them, and a \<open>DeepCopyInto\<close> returns
  what it writes to \<open>*out\<close>. Every function is an instance of the contract \<open>deep_copier\<close>; the copiers of the
  \<open>metav1\<close> types are parameters with the same contract (\<open>metav1_laws\<close>).
\<close>

section \<open>The types in memory\<close>

text \<open>\<open>metav1.ObjectMeta\<close> is of type \<open>'m\<close>, \<open>metav1.ListMeta\<close> of type \<open>'l\<close>; what they refer to is in cells \<open>LibC\<close>.\<close>

record trigger_mem =
  tm_Type :: string
  tm_Metadata :: "slice option"

record spec_mem =
  sm_ScaleTargetRef :: ScaleTargetRef
  sm_Service :: string
  sm_MinTargetReplicas :: int
  sm_CooldownPeriod :: int
  sm_Triggers :: "slice option"
  sm_Autoscaler :: "nat option"

record status_mem =
  st_LastReconciledTime :: int
  st_LastScaledUpTime :: "nat option"
  st_Mode :: string

record 'm es_mem =
  em_TypeMeta :: "string \<times> string"
  em_ObjectMeta :: 'm
  em_Spec :: spec_mem
  em_Status :: status_mem

record 'l list_mem =
  lm_TypeMeta :: "string \<times> string"
  lm_ListMeta :: 'l
  lm_Items :: "slice option"

datatype ('m, 'l, 'x) cell =
    BytesC string
  | TriggersC "trigger_mem list"
  | TriggerC trigger_mem
  | AutoscalerC AutoscalerSpec
  | TargetRefC ScaleTargetRef
  | TimeC int
  | SpecC spec_mem
  | StatusC status_mem
  | ItemsC "'m es_mem list"
  | ESC "'m es_mem"
  | ListC "'l list_mem"
  | LibC 'x

fun bytes_of where "bytes_of (BytesC x) = Some x" | "bytes_of _ = None"
fun triggers_of where "triggers_of (TriggersC x) = Some x" | "triggers_of _ = None"
fun trigger_of where "trigger_of (TriggerC x) = Some x" | "trigger_of _ = None"
fun autoscaler_of where "autoscaler_of (AutoscalerC x) = Some x" | "autoscaler_of _ = None"
fun targetref_of where "targetref_of (TargetRefC x) = Some x" | "targetref_of _ = None"
fun time_of where "time_of (TimeC x) = Some x" | "time_of _ = None"
fun spec_of where "spec_of (SpecC x) = Some x" | "spec_of _ = None"
fun status_of where "status_of (StatusC x) = Some x" | "status_of _ = None"
fun items_of where "items_of (ItemsC x) = Some x" | "items_of _ = None"
fun es_of where "es_of (ESC x) = Some x" | "es_of _ = None"
fun list_of where "list_of (ListC x) = Some x" | "list_of _ = None"

text \<open>The zero values \<open>new\<close> and \<open>make\<close> allocate.\<close>

definition zero_ref :: ScaleTargetRef where "zero_ref = \<lparr>APIVersion = [], Kind = [], TargetRefName = []\<rparr>"
definition zero_autoscaler :: AutoscalerSpec where "zero_autoscaler = \<lparr>AutoscalerType = [], AutoscalerName = []\<rparr>"
definition zero_trigger :: trigger_mem where "zero_trigger = \<lparr>tm_Type = [], tm_Metadata = None\<rparr>"
definition zero_spec :: spec_mem where
  "zero_spec = \<lparr>sm_ScaleTargetRef = zero_ref, sm_Service = [], sm_MinTargetReplicas = 0, sm_CooldownPeriod = 0,
     sm_Triggers = None, sm_Autoscaler = None\<rparr>"
definition zero_status :: status_mem where
  "zero_status = \<lparr>st_LastReconciledTime = 0, st_LastScaledUpTime = None, st_Mode = []\<rparr>"

text \<open>What \<open>metav1\<close> provides, with the zero values of its two types.\<close>

record ('m, 'l, 'x, 'mv, 'lv) metav1 =
  ObjectMeta_DeepCopyInto :: "('m, 'l, 'x) cell heap \<Rightarrow> 'm \<Rightarrow> 'm \<times> ('m, 'l, 'x) cell heap"
  ObjectMeta_val :: "('m, 'l, 'x) cell heap \<Rightarrow> 'm \<Rightarrow> 'mv option"
  ObjectMeta_fp :: "('m, 'l, 'x) cell heap \<Rightarrow> 'm \<Rightarrow> nat set"
  zero_ObjectMeta :: 'm
  ListMeta_DeepCopyInto :: "('m, 'l, 'x) cell heap \<Rightarrow> 'l \<Rightarrow> 'l \<times> ('m, 'l, 'x) cell heap"
  ListMeta_val :: "('m, 'l, 'x) cell heap \<Rightarrow> 'l \<Rightarrow> 'lv option"
  ListMeta_fp :: "('m, 'l, 'x) cell heap \<Rightarrow> 'l \<Rightarrow> nat set"
  zero_ListMeta :: 'l
  Time_DeepCopy :: "('m, 'l, 'x) cell heap \<Rightarrow> nat \<Rightarrow> nat \<times> ('m, 'l, 'x) cell heap"

abbreviation time_val :: "('m, 'l, 'x) cell heap \<Rightarrow> nat \<Rightarrow> int option" where
  "time_val \<equiv> ptr_val time_of (\<lambda>h t. Some t)"

abbreviation time_fp :: "('m, 'l, 'x) cell heap \<Rightarrow> nat \<Rightarrow> nat set" where
  "time_fp \<equiv> ptr_fp time_of (\<lambda>h t. {})"

definition metav1_laws :: "('m, 'l, 'x, 'mv, 'lv) metav1 \<Rightarrow> bool" where
  "metav1_laws M =
     (deep_copier (ObjectMeta_DeepCopyInto M) (ObjectMeta_val M) (ObjectMeta_fp M) \<and>
      deep_copier (ListMeta_DeepCopyInto M) (ListMeta_val M) (ListMeta_fp M) \<and>
      deep_copier (Time_DeepCopy M) time_val time_fp)"

section \<open>The generated functions\<close>

definition AutoscalerSpec_DeepCopyInto ::
  "('m, 'l, 'x) cell heap \<Rightarrow> AutoscalerSpec \<Rightarrow> AutoscalerSpec \<times> ('m, 'l, 'x) cell heap" where
  "AutoscalerSpec_DeepCopyInto h x = (x, h)"

definition ScaleTargetRef_DeepCopyInto ::
  "('m, 'l, 'x) cell heap \<Rightarrow> ScaleTargetRef \<Rightarrow> ScaleTargetRef \<times> ('m, 'l, 'x) cell heap" where
  "ScaleTargetRef_DeepCopyInto h x = (x, h)"

definition ScaleTrigger_DeepCopyInto ::
  "('m, 'l, 'x) cell heap \<Rightarrow> trigger_mem \<Rightarrow> trigger_mem \<times> ('m, 'l, 'x) cell heap" where
  "ScaleTrigger_DeepCopyInto h t =
     (case tm_Metadata t of
        None \<Rightarrow> (t, h)
      | Some md \<Rightarrow> (let (md', h') = builtin_copy BytesC bytes_of (CHR 0x00) h md
                   in (t\<lparr>tm_Metadata := Some md'\<rparr>, h')))"

definition ElastiServiceSpec_DeepCopyInto ::
  "('m, 'l, 'x) cell heap \<Rightarrow> spec_mem \<Rightarrow> spec_mem \<times> ('m, 'l, 'x) cell heap" where
  "ElastiServiceSpec_DeepCopyInto h s =
     (let (s1, h1) =
            (case sm_Triggers s of
               None \<Rightarrow> (s, h)
             | Some ts \<Rightarrow>
                 (let (ts', h1) = slice_copy TriggersC triggers_of zero_trigger ScaleTrigger_DeepCopyInto h ts
                  in (s\<lparr>sm_Triggers := Some ts'\<rparr>, h1)))
      in case sm_Autoscaler s of
           None \<Rightarrow> (s1, h1)
         | Some p \<Rightarrow>
             (let (q, h2) = new_copy AutoscalerC autoscaler_of zero_autoscaler AutoscalerSpec_DeepCopyInto h1 p
              in (s1\<lparr>sm_Autoscaler := Some q\<rparr>, h2)))"

definition ElastiServiceStatus_DeepCopyInto ::
  "('m, 'l, 'x, 'mv, 'lv) metav1 \<Rightarrow> ('m, 'l, 'x) cell heap \<Rightarrow> status_mem \<Rightarrow>
   status_mem \<times> ('m, 'l, 'x) cell heap" where
  "ElastiServiceStatus_DeepCopyInto M h s =
     (case st_LastScaledUpTime s of
        None \<Rightarrow> (s, h)
      | Some p \<Rightarrow> (let (q, h') = Time_DeepCopy M h p in (s\<lparr>st_LastScaledUpTime := Some q\<rparr>, h')))"

definition ElastiService_DeepCopyInto ::
  "('m, 'l, 'x, 'mv, 'lv) metav1 \<Rightarrow> ('m, 'l, 'x) cell heap \<Rightarrow> 'm es_mem \<Rightarrow>
   'm es_mem \<times> ('m, 'l, 'x) cell heap" where
  "ElastiService_DeepCopyInto M h e =
     (let (om, h1) = ObjectMeta_DeepCopyInto M h (em_ObjectMeta e);
          (sp, h2) = ElastiServiceSpec_DeepCopyInto h1 (em_Spec e);
          (st, h3) = ElastiServiceStatus_DeepCopyInto M h2 (em_Status e)
      in (e\<lparr>em_ObjectMeta := om, em_Spec := sp, em_Status := st\<rparr>, h3))"

definition zero_es :: "('m, 'l, 'x, 'mv, 'lv) metav1 \<Rightarrow> 'm es_mem" where
  "zero_es M = \<lparr>em_TypeMeta = ([], []), em_ObjectMeta = zero_ObjectMeta M, em_Spec = zero_spec, em_Status = zero_status\<rparr>"

definition ElastiServiceList_DeepCopyInto ::
  "('m, 'l, 'x, 'mv, 'lv) metav1 \<Rightarrow> ('m, 'l, 'x) cell heap \<Rightarrow> 'l list_mem \<Rightarrow>
   'l list_mem \<times> ('m, 'l, 'x) cell heap" where
  "ElastiServiceList_DeepCopyInto M h l =
     (let (lm, h1) = ListMeta_DeepCopyInto M h (lm_ListMeta l);
          l1 = l\<lparr>lm_ListMeta := lm\<rparr>
      in case lm_Items l of
           None \<Rightarrow> (l1, h1)
         | Some its \<Rightarrow>
             (let (its', h2) = slice_copy ItemsC items_of (zero_es M) (ElastiService_DeepCopyInto M) h1 its
              in (l1\<lparr>lm_Items := Some its'\<rparr>, h2)))"

definition zero_list :: "('m, 'l, 'x, 'mv, 'lv) metav1 \<Rightarrow> 'l list_mem" where
  "zero_list M = \<lparr>lm_TypeMeta = ([], []), lm_ListMeta = zero_ListMeta M, lm_Items = None\<rparr>"

text \<open>
  The \<open>DeepCopy\<close> methods: \<open>nil\<close> for \<open>nil\<close>, otherwise a new object that is copied into. \<open>DeepCopyObject\<close> passes
  their result on, as an untyped \<open>nil\<close> or as it is.
\<close>

definition AutoscalerSpec_DeepCopy where
  "AutoscalerSpec_DeepCopy = nil_copy (new_copy AutoscalerC autoscaler_of zero_autoscaler AutoscalerSpec_DeepCopyInto)"

definition ScaleTargetRef_DeepCopy where
  "ScaleTargetRef_DeepCopy = nil_copy (new_copy TargetRefC targetref_of zero_ref ScaleTargetRef_DeepCopyInto)"

definition ScaleTrigger_DeepCopy where
  "ScaleTrigger_DeepCopy = nil_copy (new_copy TriggerC trigger_of zero_trigger ScaleTrigger_DeepCopyInto)"

definition ElastiServiceSpec_DeepCopy where
  "ElastiServiceSpec_DeepCopy = nil_copy (new_copy SpecC spec_of zero_spec ElastiServiceSpec_DeepCopyInto)"

definition ElastiServiceStatus_DeepCopy where
  "ElastiServiceStatus_DeepCopy M = nil_copy (new_copy StatusC status_of zero_status (ElastiServiceStatus_DeepCopyInto M))"

definition ElastiService_DeepCopy where
  "ElastiService_DeepCopy M = nil_copy (new_copy ESC es_of (zero_es M) (ElastiService_DeepCopyInto M))"

definition ElastiServiceList_DeepCopy where
  "ElastiServiceList_DeepCopy M = nil_copy (new_copy ListC list_of (zero_list M) (ElastiServiceList_DeepCopyInto M))"

definition ElastiService_DeepCopyObject where
  "ElastiService_DeepCopyObject M h p =
     (case ElastiService_DeepCopy M h p of (Some c, h') \<Rightarrow> (Some c, h') | (None, h') \<Rightarrow> (None, h'))"

definition ElastiServiceList_DeepCopyObject where
  "ElastiServiceList_DeepCopyObject M h p =
     (case ElastiServiceList_DeepCopy M h p of (Some c, h') \<Rightarrow> (Some c, h') | (None, h') \<Rightarrow> (None, h'))"

section \<open>Values and footprints\<close>

text \<open>
  The value of a struct is the struct without its pointers, with the values these stand for.
\<close>

definition trigger_val where
  "trigger_val h t = map_option (\<lambda>md. (t\<lparr>tm_Metadata := None\<rparr>, md))
     (nil_val (slice_val bytes_of (\<lambda>h x. Some x)) h (tm_Metadata t))"

definition trigger_fp where
  "trigger_fp h t = nil_fp (slice_fp bytes_of (\<lambda>h x. {})) h (tm_Metadata t)"

definition spec_val where
  "spec_val h s = map_option (\<lambda>parts. (s\<lparr>sm_Triggers := None, sm_Autoscaler := None\<rparr>, parts))
     (pair_val (nil_val (slice_val triggers_of trigger_val)) (nil_val (ptr_val autoscaler_of (\<lambda>h x. Some x)))
        h (sm_Triggers s, sm_Autoscaler s))"

definition spec_fp where
  "spec_fp h s = pair_fp (nil_fp (slice_fp triggers_of trigger_fp)) (nil_fp (ptr_fp autoscaler_of (\<lambda>h x. {})))
     h (sm_Triggers s, sm_Autoscaler s)"

definition status_val where
  "status_val h s = map_option (\<lambda>t. (s\<lparr>st_LastScaledUpTime := None\<rparr>, t))
     (nil_val time_val h (st_LastScaledUpTime s))"

definition status_fp where
  "status_fp h s = nil_fp time_fp h (st_LastScaledUpTime s)"

definition es_val where
  "es_val M h e = map_option (\<lambda>parts. (em_TypeMeta e, parts))
     (pair_val (ObjectMeta_val M) (pair_val spec_val status_val) h (em_ObjectMeta e, em_Spec e, em_Status e))"

definition es_fp where
  "es_fp M h e = pair_fp (ObjectMeta_fp M) (pair_fp spec_fp status_fp) h (em_ObjectMeta e, em_Spec e, em_Status e)"

definition list_val where
  "list_val M h l = map_option (\<lambda>parts. (lm_TypeMeta l, parts))
     (pair_val (ListMeta_val M) (nil_val (slice_val items_of (es_val M))) h (lm_ListMeta l, lm_Items l))"

definition list_fp where
  "list_fp M h l = pair_fp (ListMeta_fp M) (nil_fp (slice_fp items_of (es_fp M))) h (lm_ListMeta l, lm_Items l)"

section \<open>The contract holds\<close>

text \<open>Each function is one of the constructions above.\<close>

lemma ScaleTrigger_copy_eq:
  "ScaleTrigger_DeepCopyInto = part_copy tm_Metadata (\<lambda>x. tm_Metadata_update (\<lambda>_. x))
     (nil_copy (builtin_copy BytesC bytes_of (CHR 0x00)))"
  by (intro ext) (simp add: ScaleTrigger_DeepCopyInto_def part_copy_def nil_copy_def split: option.splits prod.splits)

lemma spec_copy_eq:
  "ElastiServiceSpec_DeepCopyInto = part_copy (\<lambda>s. (sm_Triggers s, sm_Autoscaler s))
     (\<lambda>(t, a) s. s\<lparr>sm_Triggers := t, sm_Autoscaler := a\<rparr>)
     (pair_copy (nil_copy (slice_copy TriggersC triggers_of zero_trigger ScaleTrigger_DeepCopyInto))
        (nil_copy (new_copy AutoscalerC autoscaler_of zero_autoscaler AutoscalerSpec_DeepCopyInto)))"
  by (intro ext)
    (simp add: ElastiServiceSpec_DeepCopyInto_def part_copy_def pair_copy_def nil_copy_def split: option.splits prod.splits)

lemma status_copy_eq:
  "ElastiServiceStatus_DeepCopyInto M = part_copy st_LastScaledUpTime (\<lambda>x. st_LastScaledUpTime_update (\<lambda>_. x))
     (nil_copy (Time_DeepCopy M))"
  by (intro ext) (simp add: ElastiServiceStatus_DeepCopyInto_def part_copy_def nil_copy_def split: option.splits prod.splits)

lemma es_copy_eq:
  "ElastiService_DeepCopyInto M = part_copy (\<lambda>e. (em_ObjectMeta e, em_Spec e, em_Status e))
     (\<lambda>(m, s, t) e. e\<lparr>em_ObjectMeta := m, em_Spec := s, em_Status := t\<rparr>)
     (pair_copy (ObjectMeta_DeepCopyInto M)
        (pair_copy ElastiServiceSpec_DeepCopyInto (ElastiServiceStatus_DeepCopyInto M)))"
  by (intro ext) (simp add: ElastiService_DeepCopyInto_def part_copy_def pair_copy_def split: prod.splits)

lemma list_copy_eq:
  "ElastiServiceList_DeepCopyInto M = part_copy (\<lambda>l. (lm_ListMeta l, lm_Items l))
     (\<lambda>(m, i) l. l\<lparr>lm_ListMeta := m, lm_Items := i\<rparr>)
     (pair_copy (ListMeta_DeepCopyInto M)
        (nil_copy (slice_copy ItemsC items_of (zero_es M) (ElastiService_DeepCopyInto M))))"
  by (intro ext)
    (simp add: ElastiServiceList_DeepCopyInto_def part_copy_def pair_copy_def nil_copy_def Let_def
      split: option.splits prod.splits)

lemma AutoscalerSpec_copy_eq: "AutoscalerSpec_DeepCopyInto = pure_copy" "ScaleTargetRef_DeepCopyInto = pure_copy"
  by (intro ext, simp add: AutoscalerSpec_DeepCopyInto_def ScaleTargetRef_DeepCopyInto_def pure_copy_def)+

interpretation autoscaler: deep_copier AutoscalerSpec_DeepCopyInto "\<lambda>h x. Some x" "\<lambda>h x. {}"
  unfolding AutoscalerSpec_copy_eq by (rule pure_copier)

interpretation target_ref: deep_copier ScaleTargetRef_DeepCopyInto "\<lambda>h x. Some x" "\<lambda>h x. {}"
  unfolding AutoscalerSpec_copy_eq by (rule pure_copier)

interpretation trigger: deep_copier ScaleTrigger_DeepCopyInto trigger_val trigger_fp
  unfolding ScaleTrigger_copy_eq trigger_val_def [abs_def] trigger_fp_def [abs_def]
  by (rule part_copier [OF nil_copier [OF builtin_copier]]) simp_all

interpretation es_spec: deep_copier ElastiServiceSpec_DeepCopyInto spec_val spec_fp
  unfolding spec_copy_eq spec_val_def [abs_def] spec_fp_def [abs_def]
  by (rule part_copier [OF pair_copier [OF nil_copier [OF trigger.slice_copier]
        nil_copier [OF new_copier [OF autoscaler.deep_copier_axioms]]]]) (simp_all split: prod.splits)

lemma status_copier: "metav1_laws M \<Longrightarrow> deep_copier (ElastiServiceStatus_DeepCopyInto M) status_val status_fp"
  unfolding status_copy_eq status_val_def [abs_def] status_fp_def [abs_def] metav1_laws_def
  by (rule part_copier [OF nil_copier]) simp_all

lemma es_copier: "metav1_laws M \<Longrightarrow> deep_copier (ElastiService_DeepCopyInto M) (es_val M) (es_fp M)"
  unfolding es_copy_eq es_val_def [abs_def] es_fp_def [abs_def]
  by (rule part_copier [OF pair_copier [OF _ pair_copier [OF es_spec.deep_copier_axioms status_copier]]])
    (simp_all add: metav1_laws_def split: prod.splits)

lemma list_copier: "metav1_laws M \<Longrightarrow> deep_copier (ElastiServiceList_DeepCopyInto M) (list_val M) (list_fp M)"
  unfolding list_copy_eq list_val_def [abs_def] list_fp_def [abs_def]
  by (rule part_copier [OF pair_copier [OF _ nil_copier [OF deep_copier.slice_copier [OF es_copier]]]])
    (simp_all add: metav1_laws_def split: prod.splits)

text \<open>The objects: what a pointer to one stands for, and the addresses of all of it.\<close>

abbreviation object_val where "object_val M \<equiv> ptr_val es_of (es_val M)"
abbreviation object_fp where "object_fp M \<equiv> ptr_fp es_of (es_fp M)"

lemma object_copier:
  "metav1_laws M \<Longrightarrow> deep_copier (new_copy ESC es_of (zero_es M) (ElastiService_DeepCopyInto M)) (object_val M) (object_fp M)"
  by (rule new_copier [OF es_copier]) simp_all

lemma list_object_copier:
  "metav1_laws M \<Longrightarrow>
   deep_copier (new_copy ListC list_of (zero_list M) (ElastiServiceList_DeepCopyInto M))
     (ptr_val list_of (list_val M)) (ptr_fp list_of (list_fp M))"
  by (rule new_copier [OF list_copier]) simp_all

lemma DeepCopyObject_eq [simp]:
  "ElastiService_DeepCopyObject M = ElastiService_DeepCopy M"
  "ElastiServiceList_DeepCopyObject M = ElastiServiceList_DeepCopy M"
  by (intro ext, simp add: ElastiService_DeepCopyObject_def ElastiServiceList_DeepCopyObject_def split: prod.splits option.splits)+

lemma deep_copy_nil: "ElastiService_DeepCopy M h None = (None, h)" "ElastiServiceList_DeepCopy M h None = (None, h)"
  by (simp_all add: ElastiService_DeepCopy_def ElastiServiceList_DeepCopy_def nil_copy_def)

lemma list_deep_copy:
  assumes "metav1_laws M" "heap_wf h" "ptr_val list_of (list_val M) h p = Some v"
    and "ElastiServiceList_DeepCopy M h (Some p) = (Some q, h')"
  shows "ptr_val list_of (list_val M) h' q = Some v \<and>
    ptr_fp list_of (list_fp M) h p \<inter> ptr_fp list_of (list_fp M) h' q = {}"
proof -
  have c: "new_copy ListC list_of (zero_list M) (ElastiServiceList_DeepCopyInto M) h p = (q, h')"
    using assms(4) by (simp add: ElastiServiceList_DeepCopy_def nil_copy_def split: prod.splits)
  note d = list_object_copier [OF assms(1)]
  from deep_copier.copied [OF d assms(2,3) c] deep_copier.disjoint [OF d assms(2,3) c] show ?thesis by simp
qed

text \<open>
  \<open>updateCRDStatus\<close> copies the resource, writes the new status through the pointer it has read the resource
  into, and makes a patch of the difference to the copy. The copy is not affected by the write.
\<close>

definition status_write ::
  "('m, 'l, 'x, 'mv, 'lv) metav1 \<Rightarrow> int \<Rightarrow> string \<Rightarrow> nat \<Rightarrow> ('m, 'l, 'x) cell heap \<Rightarrow>
   nat option \<times> ('m, 'l, 'x) cell heap" where
  "status_write M now mode es h =
     (let (original, h1) = ElastiService_DeepCopy M h (Some es)
      in case Option.bind (h_cells h1 es) es_of of
           None \<Rightarrow> (original, h1)
         | Some e \<Rightarrow>
             (original,
              put h1 es (ESC (e\<lparr>em_Status := (em_Status e)\<lparr>st_LastReconciledTime := now, st_Mode := mode\<rparr>\<rparr>))))"

lemma ElastiService_DeepCopy_Some:
  assumes "ElastiService_DeepCopy M h (Some p) = (r, h')"
  obtains q where "r = Some q" "new_copy ESC es_of (zero_es M) (ElastiService_DeepCopyInto M) h p = (q, h')"
  using assms by (auto simp: ElastiService_DeepCopy_def nil_copy_def split: prod.splits)

lemma patch_base_kept:
  assumes "metav1_laws M" "heap_wf h" "object_val M h es = Some v" "status_write M now mode es h = (original, h')"
  shows "\<exists>q. original = Some q \<and> object_val M h' q = Some v"
proof -
  obtain r h1 where r: "ElastiService_DeepCopy M h (Some es) = (r, h1)" by fastforce
  then obtain q where q: "r = Some q" "new_copy ESC es_of (zero_es M) (ElastiService_DeepCopyInto M) h es = (q, h1)"
    by (rule ElastiService_DeepCopy_Some)
  have "same_on (- object_fp M h es) h1 h'"
    using assms(4) r by (auto simp: status_write_def same_on_def ptr_fp_def split: option.splits if_splits)
  from deep_copier.isolated_copy [OF object_copier [OF assms(1)] assms(2,3) q(2) this]
  show ?thesis using assms(4) r q(1) by (auto simp: status_write_def split: option.splits)
qed

section \<open>Properties\<close>

text \<open>C13: the copy of a resource that the cache of the controller hands out has the value of the original and
  shares no memory with it: whatever is written through the copy, the original keeps its value, and whatever
  is written through the original, the copy keeps its own.\<close>

theorem deep_copy_isolated:
  assumes "metav1_laws M" "heap_wf h" "object_val M h p = Some v"
    and "ElastiService_DeepCopyObject M h (Some p) = (r, h')"
  shows "\<exists>q. r = Some q \<and> object_val M h' q = Some v \<and> object_val M h' p = Some v \<and>
    object_fp M h p \<inter> object_fp M h' q = {} \<and>
    (\<forall>h2. same_on (- object_fp M h' q) h' h2 \<longrightarrow> object_val M h2 p = Some v) \<and>
    (\<forall>h2. same_on (- object_fp M h p) h' h2 \<longrightarrow> object_val M h2 q = Some v)"
proof -
  obtain q where q: "r = Some q" "new_copy ESC es_of (zero_es M) (ElastiService_DeepCopyInto M) h p = (q, h')"
    using assms(4) by (auto elim: ElastiService_DeepCopy_Some)
  note d = object_copier [OF assms(1)] and a = assms(2,3) q(2)
  from q(1) deep_copier.copied [OF d a] deep_copier.original_kept [OF d a] deep_copier.disjoint [OF d a]
    deep_copier.isolated [OF d a] deep_copier.isolated_copy [OF d a]
  show ?thesis by simp
qed

text \<open>An \<open>ObjectMeta\<close> of a name and a pointer to its finalizers, and a resource with a trigger and an autoscaler.\<close>

fun lib_of where "lib_of (LibC x) = Some x" | "lib_of _ = None"

definition example_metav1 ::
  "(string \<times> nat option, unit, string list, string \<times> string list option, unit) metav1" where
  "example_metav1 =
     \<lparr>ObjectMeta_DeepCopyInto = part_copy snd (\<lambda>x m. (fst m, x)) (nil_copy (new_copy LibC lib_of [] pure_copy)),
      ObjectMeta_val = (\<lambda>h m. map_option (\<lambda>x. (fst m, x)) (nil_val (ptr_val lib_of (\<lambda>h x. Some x)) h (snd m))),
      ObjectMeta_fp = (\<lambda>h m. nil_fp (ptr_fp lib_of (\<lambda>h x. {})) h (snd m)),
      zero_ObjectMeta = ([], None),
      ListMeta_DeepCopyInto = pure_copy, ListMeta_val = (\<lambda>h x. Some x), ListMeta_fp = (\<lambda>h x. {}), zero_ListMeta = (),
      Time_DeepCopy = new_copy TimeC time_of 0 pure_copy\<rparr>"

lemma example_metav1_laws: "metav1_laws example_metav1"
proof -
  have "deep_copier (part_copy snd (\<lambda>x m. (fst m, x)) (nil_copy (new_copy LibC lib_of [] pure_copy)))
      (\<lambda>h m. map_option (\<lambda>x. (fst m, x)) (nil_val (ptr_val lib_of (\<lambda>h x. Some x)) h (snd m)))
      (\<lambda>h m. nil_fp (ptr_fp lib_of (\<lambda>h x. {})) h (snd m))"
    by (rule part_copier [OF nil_copier [OF new_copier [OF pure_copier [of "\<lambda>x. x"]]]]) simp_all
  moreover have "deep_copier (new_copy TimeC time_of 0 pure_copy) time_val time_fp"
    by (rule new_copier [OF pure_copier [of "\<lambda>x. x"]]) simp
  ultimately show ?thesis
    using pure_copier [of "\<lambda>x. x"] by (simp add: metav1_laws_def example_metav1_def)
qed

definition example_heap :: "(string \<times> nat option, unit, string list) cell heap" where
  "example_heap =
     \<lparr>h_next = 5, h_cells =
        [0 \<mapsto> ESC \<lparr>em_TypeMeta = (''ElastiService'', ''elasti.truefoundry.com/v1alpha1''), em_ObjectMeta = (''web-es'', Some 1),
                em_Spec = zero_spec\<lparr>sm_Service := ''web'', sm_Triggers := Some \<lparr>sl_ptr = 2, sl_off = 0, sl_len = 1\<rparr>,
                                   sm_Autoscaler := Some 4\<rparr>,
                em_Status = zero_status\<lparr>st_Mode := ''proxy''\<rparr>\<rparr>,
         1 \<mapsto> LibC [ElastiServiceFinalizer],
         2 \<mapsto> TriggersC [\<lparr>tm_Type = ''prometheus'', tm_Metadata = Some \<lparr>sl_ptr = 3, sl_off = 0, sl_len = 2\<rparr>\<rparr>],
         3 \<mapsto> BytesC ''{}'',
         4 \<mapsto> AutoscalerC \<lparr>AutoscalerType = ''keda'', AutoscalerName = ''web''\<rparr>]\<rparr>"

lemma example_heap_wf: "heap_wf example_heap"
  by (auto simp: heap_wf_def example_heap_def split: if_splits)

lemma example_object: "\<exists>v. object_val example_metav1 example_heap 0 = Some v"
  by (simp add: ptr_val_def example_heap_def es_val_def example_metav1_def pair_val_def spec_val_def status_val_def
      nil_val_def slice_val_def elems_def trigger_val_def zero_spec_def zero_status_def)

theorem deep_copy_isolated_witness:
  "\<exists>q h'. ElastiService_DeepCopyObject example_metav1 example_heap (Some 0) = (Some q, h') \<and>
     object_val example_metav1 h' q = object_val example_metav1 example_heap 0 \<and>
     object_val example_metav1 (put h' q (TimeC 0)) 0 = object_val example_metav1 example_heap 0"
proof -
  obtain v where v: "object_val example_metav1 example_heap 0 = Some v" using example_object by blast
  obtain r h' where r: "ElastiService_DeepCopyObject example_metav1 example_heap (Some 0) = (r, h')" by fastforce
  from deep_copy_isolated [OF example_metav1_laws example_heap_wf v r] obtain q where
    q: "r = Some q" "object_val example_metav1 h' q = Some v"
      "\<forall>h2. same_on (- object_fp example_metav1 h' q) h' h2 \<longrightarrow> object_val example_metav1 h2 0 = Some v" by blast
  have "same_on (- object_fp example_metav1 h' q) h' (put h' q (TimeC 0))"
    by (auto simp: same_on_def ptr_fp_def)
  with q r v show ?thesis by auto
qed

end
