(* ===== verification/Spec2Isabelle.thy ===== *)
theory Spec2Isabelle
  imports ConcurrentCorrect OperatorMain Metrics DeepCopy
begin

text \<open>
  KubeElasti scales Kubernetes services to zero and back. Two programs share the work. The resolver
  (\<open>resolver/\<close>) receives the requests of services that are scaled down, holds them back until a pod is
  ready and forwards them; it tells the operator about each service a request came in for. The operator
  (\<open>operator/\<close>, with \<open>pkg/scaling\<close>) reconciles \<open>ElastiService\<close> resources: it watches their targets, points
  the traffic of a service at the resolver while its target has no replicas (proxy mode) and back at the
  pods when one is ready (serve mode), wakes a target when the resolver reports a request, and takes it to
  zero when the triggers of the resource are quiet.

  \<^bold>\<open>Theories\<close>

  \<^item> \<open>Prelude\<close>: errors (\<open>goerr\<close>, with \<open>errors.Is\<close>), results as sums, \<open>go\<close> for calls that may panic, the
    functions of package \<open>strings\<close> the program uses, wrap-around of \<open>int\<close> and \<open>int32\<close>.
  \<^item> \<open>Sha256\<close>, \<open>Utils\<close>: \<open>pkg/utils\<close>, \<open>pkg/values\<close>, \<open>pkg/messages\<close>, \<open>MaskMiddle\<close> of \<open>pkg/logger\<close>. Generated
    names never collide and are 22 characters longer than the name of the service.
  \<^item> \<open>Semaphore\<close>, \<open>Breaker\<close>: \<open>resolver/internal/throttler/semaphore.go\<close> and \<open>breaker.go\<close>. Each atomic
    operation is a step of a call, and any number of calls interleave; the packed 64-bit word of the
    semaphore is a \<open>64 word\<close>, and its steps refine those of a pair of counters. An invariant over all
    interleavings gives the limits on concurrent requests, and a second one that no wake-up is lost.
  \<^item> \<open>Throttler\<close>: \<open>throttler.go\<close>. \<open>Try\<close> is a loop that may run for ever in principle (\<open>partial_function\<close>);
    it is shown to return whenever the retry duration is positive, and to refine \<open>try_spec\<close>. The locale
    \<open>try_callbacks\<close> is what a caller's callbacks have to keep for a property of its state to survive a call.
  \<^item> \<open>Transport\<close>: the configuration of the two transports and the dialer with back-off of \<open>transport.go\<close>;
    \<open>BufferPool\<close>: the pool of \<open>handler.go\<close>, which never hands out a buffer that is in use.
  \<^item> \<open>Regexp\<close>, \<open>HostManager\<close>: \<open>resolver/internal/hostmanager\<close>. A matcher for the fragment of regular
    expressions the sixteen host patterns use, the cache of hosts, and the timers that switch traffic on
    again. The locale \<open>host_manager\<close> is the interface the handler relies on.
  \<^item> \<open>OperatorClient\<close>: \<open>resolver/internal/operator\<close>. One request at a time and per retry duration for a
    service name. The locale \<open>operator\<close> is the interface the handler relies on.
  \<^item> \<open>Handler\<close>: \<open>resolver/internal/handler\<close>: one HTTP request from the client's socket to the response,
    proved over the two interfaces in the locale \<open>resolver\<close>.
  \<^item> \<open>Logger\<close>: \<open>pkg/logger\<close>: what reaches Sentry and what does not. \<open>Mux\<close>: the routing of \<open>http.ServeMux\<close>,
    which the three servers of the two programs use.
  \<^item> \<open>ResolverMain\<close>: \<open>resolver/cmd/main.go\<close>, with the configuration and the servers, and the resolver as a
    whole: \<open>resolver_reach\<close> are its states, and the invariants of its parts hold in all of them together.
  \<^item> \<open>ResolverConcurrent\<close>, \<open>ConcurrentCorrect\<close>: the resolver with any number of requests at once. A request is a
    process whose steps are its accesses to shared state (the cached hosts behind their pointers, the queue sizes,
    the readiness cache, the operator client, and the breaker with its own steps); \<open>creach\<close> are the states of all
    interleavings. Every call of the breaker belongs to one request, so the limits of the breaker are limits on
    requests; a request is forwarded at most once, none is stuck, and traffic that was switched off comes back.
  \<^item> \<open>Heap\<close>, \<open>DeepCopy\<close>: the generated copies of \<open>zz_generated.deepcopy.go\<close> on an explicit heap. The locale
    \<open>deep_copier\<close> is what a copy promises; it is kept by the constructions the generator uses (fields, pointers,
    slices), and so holds for each type of the resource.
  \<^item> \<open>Api\<close>: the resource of \<open>operator/api/v1alpha1\<close>, the objects of the API server, and the clients as
    operations of a record \<open>K8s\<close> with the laws \<open>k8s_laws\<close>; \<open>memory_client\<close> satisfies them.
  \<^item> \<open>CrdDirectory\<close>, \<open>Informer\<close>: \<open>operator/internal/crddirectory\<close> and \<open>operator/internal/informer\<close>, with
    the locales \<open>directory\<close> and \<open>informer_registry\<close>. Stop channels are numbered, and closing one twice panics.
  \<^item> \<open>PrometheusScaler\<close>, \<open>ScaleHandler\<close>: \<open>pkg/scaling\<close>. The locale \<open>scaler\<close> is the interface \<open>Scaler\<close>; the
    locale \<open>scalable\<close> what deployments and rollouts have in common.
  \<^item> \<open>ElastiServer\<close>: the endpoint the resolver posts to, with its start and its routes.
  \<^item> \<open>ScaleWatcher\<close>: the construction of the scale handler and the loop of its ticker; a target that was woken
    stays up for the cooldown.
  \<^item> \<open>Controller\<close>, \<open>ControllerCorrect\<close>: \<open>operator/internal/controller\<close>. The first has every operation of the
    reconciler, the second their effects on the stored objects and the properties of the two modes, of a
    resource's life and of the watches.
  \<^item> \<open>OperatorFrame\<close>, \<open>OperatorSystem\<close>: the operator as a whole. In the locale \<open>api_server\<close> every operation of
    the operator is shown to keep the objects of the users and the invariants of the operator's state,
    whichever calls of the server fail; \<open>op_reach\<close> are the states any sequence of its actions leads to.
  \<^item> \<open>OperatorMain\<close>: \<open>operator/cmd/main.go\<close>, from the flags to the end of the process.
  \<^item> \<open>Metrics\<close>: the vectors of \<open>prom.go\<close> of both programs and the calls the operations make on them; every
    call has the labels of its vector, and the gauge of the informers is not their number.
  \<^item> This theory: a request at the resolver wakes its service.

  \<^bold>\<open>Conventions\<close>

  Each operation takes the state it reads and returns the state it leaves; operations of \<open>sync.Map\<close> are
  maps, or association lists with distinct keys where the code ranges over them. A Go panic is the value
  \<open>Panic\<close>, so indexing, slicing, closing a channel, unlocking and dereferencing appear with the condition
  under which they panic. Times are integers in nanoseconds; a timer is an entry with the time it is due.
  \<open>int\<close> and \<open>int32\<close> values are mathematical integers with the wrap-around written out where it can occur.
  Goroutines that share state are interleaved in \<open>Breaker\<close>, \<open>OperatorClient\<close> and \<open>HostManager\<close>, and the
  operator's goroutines in \<open>OperatorSystem\<close>, an action at a time; elsewhere a mutex of the program makes the
  operation one step, or the goroutines touch disjoint state. Requests in \<open>resolver_reach\<close> follow one another, with
  their responses in full; those of \<open>creach\<close> are interleaved.

  \<^bold>\<open>What stands outside\<close>

  The API server, client-go, controller-runtime, the JSON and URL parsers, the HTTP transport, Sentry and
  the Prometheus server are parameters; their documented behaviour is a hypothesis where a property needs
  it: \<open>k8s_laws\<close> (a lookup returns what is stored, an accepted write changes one object, a refused one
  none), \<open>api_up\<close> (writes are accepted), \<open>watchable\<close> (an informer can start), \<open>lists_current\<close> (a listing
  shows the stored resources) \<open>metav1_laws\<close> (the copies of package \<open>metav1\<close> are deep) and \<open>quiet_env\<close> (the transport does not panic with
  a value that is no error).
  Not modelled: log lines, the initialisation of Sentry, the scheme of \<open>groupversion_info.go\<close> and the helpers of
  the end-to-end tests.

  \<^bold>\<open>Behaviour that deviates from what is meant\<close>

  The properties and lemmas on errors show where the code does not do what it means to: slots of the
  breaker leak (\<open>inflight_slot_leaks\<close>), a bad gateway switches traffic off (\<open>bad_gateway_switches_traffic\<close>),
  a missing minimum scales a running target to zero (\<open>scale_from_zero_with_no_minimum\<close>), a failed switch is
  recorded as done (\<open>failed_switch_recorded_as_proxy\<close>), a failed watch is never retried
  (\<open>failed_watch_not_retried\<close>), ports that are added or removed are not synchronised
  (\<open>public_service_synced\<close>), informers of other resources are stopped (\<open>StopForCRD_stops_prefix\<close>), a check
  that began before a request scales the target down again (\<open>stale_listing_scales_down\<close>), loggers with fields
  do not report to Sentry (\<open>with_fields_silences\<close>), two requests that finish together start two timers
  (\<open>traffic_race\<close>), and the operator does not end when its manager ends
  without an error (\<open>clean_shutdown_hangs\<close>).
\<close>

section \<open>From a request at the resolver to a running target\<close>

text \<open>Waking a deployment when the server answers.\<close>

lemma scaleTargetForService_deployment:
  assumes laws: "k8s_laws K view" and up: "api_up K view"
    and crd: "GetCRD (nn_String ns svc) d = Ret (Some crd)"
    and kind: "ToLower (Kind (TargetRef (CRDSpec crd))) = KindDeployments"
    and dep: "C_deps (view c) (ns, TargetRefName (TargetRef (CRDSpec crd))) = Some dep" "SpecReplicas dep = Some n"
  shows "\<exists>c'. scaleTargetForService K now d c svc ns = Ret (None, c')"
proof -
  obtain e0 c0 where c0: "UpdateLastScaledUpTime K now c (CRDName crd) ns = (e0, c0)" by fastforce
  obtain c1 where c1: "keda_resume K c0 (CRDSpec crd) ns = (None, c1)"
  proof (cases "uses_keda (CRDSpec crd)")
    case None
    then show thesis using that [of c0] by (simp add: keda_resume_def)
  next
    case (Some a)
    obtain c1 where "patch_scaledobject K c0 ns (AutoscalerName a)
        [(kedaPausedAnnotation, Some ''false''), (kedaPausedReplicasAnnotation, None)] = (None, c1)"
      using fst_None_pair [OF api_upD(16) [OF up]] by blast
    with Some show thesis using that [of c1] by (simp add: keda_resume_def UpdateKedaScaledObjectPausedState_def)
  qed
  let ?t = "TargetRefName (TargetRef (CRDSpec crd))"
  have "target_replicas (Kind (TargetRef (CRDSpec crd))) (view c0) ns ?t = Some n"
    using view_UpdateLastScaledUpTime [OF laws c0] kind dep
    by (simp add: target_replicas_def deployment_replicas_def patch_es_status_def)
  then have "target_replicas (Kind (TargetRef (CRDSpec crd))) (view c1) ns ?t = Some n"
    using view_keda_resume [OF laws c1] by simp
  then obtain dep1 where d1: "C_deps (view c1) (ns, ?t) = Some dep1" "SpecReplicas dep1 = Some n"
    using kind by (auto simp: target_replicas_def deployment_replicas_def split: option.splits)
  have g: "get_deployment K c1 ns ?t = Inr dep1"
    using k8s_lawsD(12) [OF laws, of c1 ns ?t] api_upD(14) [OF up, of c1 ns ?t] d1(1)
    by (cases "get_deployment K c1 ns ?t"; simp add: k8s_simps)
  obtain c2 where "patch_deployment K c1 ns ?t (MinTargetReplicas (CRDSpec crd)) = (None, c2)"
    using fst_None_pair [OF api_upD(15) [OF up]] by blast
  with c0 c1 crd kind g d1(2) show ?thesis
    by (simp add: scaleTargetForService_def ScaleTargetFromZero_def ScaleDeployment_def)
qed

text \<open>C1: waking a service. A resource with a deployment as its target is reconciled; a first request
  for its service then makes the resolver post its name and namespace, and the operator answers that very
  body with 200 and leaves the deployment with at least the minimum number of replicas.\<close>

theorem request_wakes_service:
  assumes "k8s_laws (client E) view" "api_up (client E) view" "wf_cluster (view (cluster r))"
    and "C_es (view (cluster r)) (ReqNamespace req, ReqName req) = Some es" "DeletionTimestamp es = None"
    and "complete_target (Spec es)" "ParseAPIVersion (APIVersion (TargetRef (Spec es))) = Inr (g, v)"
    and "watchable (informer_env E) (target_watch es req g v)"
    and "im_inv (InformerManager r)" "dir r \<noteq> None" "target_changed r es \<or> start_pending r req es"
    and "ToLower (Kind (TargetRef (Spec es))) = KindDeployments"
    and "C_deps (view (cluster r)) (ReqNamespace req, TargetRefName (TargetRef (Spec es))) = Some dep"
    and "SpecReplicas dep = Some n" "0 < MinTargetReplicas (Spec es)"
    and "serviceRPCLocks oc (SpecService (Spec es)) = None" "fresh_writer w"
  shows "\<exists>r' url b w' c'. Reconcile E req r = Ret (None, r') \<and>
    oc_posts (SendIncomingRequestInfo_enter now None oc (ReqNamespace req) (SpecService (Spec es))) =
      (now, url, b) # oc_posts oc \<and>
    resolverReqHandler (client E) now' (dir r') (cluster r') w ''POST'' (Inr b) = Ret (w', c') \<and>
    rw_status w' = Some 200 \<and>
    deployment_replicas (view c') (ReqNamespace req) (TargetRefName (TargetRef (Spec es))) =
      Some (max n (MinTargetReplicas (Spec es)))"
proof -
  let ?crd = "\<lparr>CRDName = ReqName req, CRDSpec = Spec es, CRDStatus = Status es\<rparr>"
    and ?ns = "ReqNamespace req" and ?svc = "SpecService (Spec es)" and ?t = "TargetRefName (TargetRef (Spec es))"
  let ?b = "\<lparr>Count = 1, Svc = ?svc, RC_Namespace = ?ns\<rparr>"
  obtain r' where r': "Reconcile E req r = Ret (None, r')" "GetCRD (nn_String ?ns ?svc) (dir r') = Ret (Some ?crd)"
    "C_deps (view (cluster r')) = C_deps (view (cluster r))"
    using Reconcile_live [OF assms(1-11)] by blast
  obtain c' where c': "scaleTargetForService (client E) now' (dir r') (cluster r') ?svc ?ns = Ret (None, c')"
    using scaleTargetForService_deployment [OF assms(1,2) r'(2), of "cluster r'" dep n now'] assms(12-14) r'(3) by auto
  have "deployment_replicas (view c') ?ns ?t = Some (max n (MinTargetReplicas (Spec es)))"
    using scaleTargetForService_ok [OF assms(1) r'(2) c'] assms(12-15) r'(3)
    by (auto simp: target_replicas_def deployment_replicas_def)
  moreover obtain w' where "resolverReqHandler (client E) now' (dir r') (cluster r') w ''POST'' (Inr ?b) = Ret (w', c')"
    "rw_status w' = Some 200"
    using c' assms(17) by (simp add: resolverReqHandler_def writer_defs fresh_writer_def)
  moreover obtain url where
    "oc_posts (SendIncomingRequestInfo_enter now None oc ?ns ?svc) = (now, url, ?b) # oc_posts oc"
    using assms(16) by (simp add: SendIncomingRequestInfo_enter_def getMutexForServiceRPC_def)
  ultimately show ?thesis using r'(1) by blast
qed

theorem request_wakes_service_witness:
  "\<exists>r' url b w' c'. Reconcile E0 example_req ((example_reconciler example_es)\<lparr>cluster := example_cluster 0\<rparr>) =
      Ret (None, r') \<and>
    oc_posts (SendIncomingRequestInfo_enter 3 None (NewOperatorClient 5) ''shop'' ''web'') = [(3, url, b)] \<and>
    resolverReqHandler (client E0) 4 (dir r') (cluster r') empty_writer ''POST'' (Inr b) = Ret (w', c') \<and>
    rw_status w' = Some 200 \<and> deployment_replicas c' ''shop'' ''web'' = Some 1"
proof -
  let ?r = "(example_reconciler example_es)\<lparr>cluster := example_cluster 0\<rparr>"
  have wf: "wf_cluster (id (cluster ?r))"
    by (auto simp: wf_cluster_def example_cluster_def example_es_def empty_cluster_def split: if_splits)
  have es: "C_es (id (cluster ?r)) (ReqNamespace example_req, ReqName example_req) = Some example_es"
    "DeletionTimestamp example_es = None"
    by (simp_all add: example_cluster_def example_req_def example_es_def)
  have t: "complete_target (Spec example_es)"
    "ParseAPIVersion (APIVersion (TargetRef (Spec example_es))) = Inr (''apps'', ''v1'')"
    by (simp_all add: complete_target_def ParseAPIVersion_Inr_iff example_es_def)
  have i: "im_inv (InformerManager ?r)" "dir ?r \<noteq> None" "target_changed ?r example_es \<or> start_pending ?r example_req example_es"
    by (simp_all add: example_reconciler_def im_inv_new InitDirectory_def start_pending_def)
  let ?dep = "\<lparr>DeployName = ''web'', SpecReplicas = Some 0, StatusReplicas = 0, ReadyReplicas = 0\<rparr>"
  have d: "ToLower (Kind (TargetRef (Spec example_es))) = KindDeployments"
    "C_deps (id (cluster ?r)) (ReqNamespace example_req, TargetRefName (TargetRef (Spec example_es))) = Some ?dep"
    "SpecReplicas ?dep = Some 0" "0 < MinTargetReplicas (Spec example_es)"
    by (simp_all add: example_es_def example_req_def example_cluster_def deployments_lower values_defs)
  have l: "serviceRPCLocks (NewOperatorClient 5) (SpecService (Spec example_es)) = None"
    by (simp add: NewOperatorClient_def)
  from request_wakes_service [OF E0_client wf es t E0_watchable i d l fresh_empty, of 3 4] show ?thesis
    by (simp add: example_req_def example_es_def NewOperatorClient_def)
qed

end
